(* ===== verification/Prelude.thy ===== *)
theory Prelude
  imports
    Complex_Main
    "HOL-Library.AList"
    "HOL-Library.Monad_Syntax"
    "HOL-Library.List_Lexorder"
    "HOL-Library.Char_ord"
begin

text \<open>
  The prelude of the development: Go maps with string keys as association lists
  (\<open>dict\<close>, with the read, write and delete of a Go map), the decimal printing that
  \<open>fmt.Sprintf\<close> does for \<open>%d\<close>, the sum type that stands for a Go
  \<open>(value, error)\<close> pair, the rules for results that may panic
  (\<open>'a option\<close>, \<open>None\<close> for a Go panic), and the fact collections
  the other theories fill.
\<close>

named_theorems sim_intros \<open>operations that keep the live context and the folded journal in agreement\<close>
named_theorems frame_simps \<open>components of the runtime state an operation does not write\<close>

subsection \<open>Go maps with string keys\<close>

type_synonym 'v dict = "(string \<times> 'v) list"

abbreviation dget :: "'v dict \<Rightarrow> string \<Rightarrow> 'v option" where
  "dget d k \<equiv> map_of d k"

abbreviation dput :: "string \<Rightarrow> 'v \<Rightarrow> 'v dict \<Rightarrow> 'v dict" where
  "dput k v d \<equiv> AList.update k v d"

abbreviation ddel :: "string \<Rightarrow> 'v dict \<Rightarrow> 'v dict" where
  "ddel k d \<equiv> AList.delete k d"

abbreviation dkeys :: "'v dict \<Rightarrow> string list" where
  "dkeys d \<equiv> map fst d"

text \<open>Reading an absent key of a \<open>map[string]int\<close> gives the zero value.\<close>

definition dget0 :: "nat dict \<Rightarrow> string \<Rightarrow> nat" where
  "dget0 d k = (case dget d k of None \<Rightarrow> 0 | Some n \<Rightarrow> n)"

lemma dget_dput [simp]: "dget (dput k v d) k' = (if k' = k then Some v else dget d k')"
  by (simp add: update_conv')

lemma dget_ddel [simp]: "dget (ddel k d) k' = (if k' = k then None else dget d k')"
  by (simp add: delete_conv')

lemma dget0_dput [simp]: "dget0 (dput k v d) k' = (if k' = k then v else dget0 d k')"
  by (simp add: dget0_def)

lemma length_ddel_le: "length (ddel k d) \<le> length d"
  by (induction d) auto

lemma length_ddel_less: "dget d k \<noteq> None \<Longrightarrow> length (ddel k d) < length d"
  by (induction d) (auto intro: le_imp_less_Suc length_ddel_le split: if_splits)

lemma length_dput_new: "dget d k = None \<Longrightarrow> length (dput k v d) = Suc (length d)"
  by (induction d) (auto split: if_splits)

lemma length_dput_old: "dget d k \<noteq> None \<Longrightarrow> length (dput k v d) = length d"
  by (induction d) (auto split: if_splits)

lemma dkeys_ddel: "set (dkeys (ddel k d)) = set (dkeys d) - {k}"
  by (induction d) auto

lemma dget_eq_None_iff: "dget d k = None \<longleftrightarrow> k \<notin> set (dkeys d)"
  by (simp add: map_of_eq_None_iff)

lemma dkeys_dput: "set (dkeys (dput k v d)) = insert k (set (dkeys d))"
  by (induction d) auto

subsection \<open>Results\<close>

text \<open>
  A Go \<open>(value, error)\<close> result is \<open>err + 'a\<close>, \<open>Inl\<close> for the error. A Go panic
  is the value \<open>None\<close> of an option; \<open>pred_option P r\<close> says that \<open>P\<close> holds of the
  result when the call returns one.
\<close>

lemma pred_option_bind:
  "pred_option Q r \<Longrightarrow> (\<And>x. Q x \<Longrightarrow> pred_option P (f x)) \<Longrightarrow> pred_option P (r \<bind> f)"
  by (cases r) auto

lemma pred_option_weaken: "pred_option Q r \<Longrightarrow> (\<And>x. Q x \<Longrightarrow> P x) \<Longrightarrow> pred_option P r"
  by (cases r) auto

lemma pred_optionD: "pred_option P r \<Longrightarrow> r = Some x \<Longrightarrow> P x"
  by auto

subsection \<open>Decimal numbers in identifiers\<close>

text \<open>\<open>fmt.Sprintf("%d", n)\<close> for a count.\<close>

fun show_nat :: "nat \<Rightarrow> string" where
  "show_nat n = (if n < 10 then [''0123456789'' ! n]
     else show_nat (n div 10) @ [''0123456789'' ! (n mod 10)])"

declare show_nat.simps [simp del]

definition digit_value :: "char \<Rightarrow> nat" where
  "digit_value c = of_char c - 48"

lemma less_10_cases: "(n::nat) < 10 \<Longrightarrow>
    n = 0 \<or> n = 1 \<or> n = 2 \<or> n = 3 \<or> n = 4 \<or> n = 5 \<or> n = 6 \<or> n = 7 \<or> n = 8 \<or> n = 9"
  by arith

lemma digit_value_nth: "n < 10 \<Longrightarrow> digit_value (''0123456789'' ! n) = n"
  by (drule less_10_cases) (auto simp: digit_value_def)

lemma digit_not_colon: "n < 10 \<Longrightarrow> ''0123456789'' ! n \<noteq> CHR '':''"
  by (drule less_10_cases) auto

lemma show_nat_no_colon: "CHR '':'' \<notin> set (show_nat n)"
proof (induction n rule: show_nat.induct)
  case (1 n)
  then show ?case
    by (cases "n < 10") (simp_all add: show_nat.simps [of n] digit_not_colon digit_not_colon [symmetric])
qed

definition read_nat :: "string \<Rightarrow> nat" where
  "read_nat cs = foldl (\<lambda>a c. 10 * a + digit_value c) 0 cs"

lemma read_show_nat: "read_nat (show_nat n) = n"
proof (induction n rule: show_nat.induct)
  case (1 n)
  show ?case
  proof (cases "n < 10")
    case True
    then show ?thesis by (simp add: show_nat.simps [of n] read_nat_def digit_value_nth)
  next
    case False
    with 1 have "read_nat (show_nat (n div 10)) = n div 10" by simp
    with False show ?thesis
      by (simp add: show_nat.simps [of n] read_nat_def digit_value_nth)
  qed
qed

lemma show_nat_inject [simp]: "show_nat m = show_nat n \<longleftrightarrow> m = n"
  by (metis read_show_nat)

text \<open>A field that holds no colon is recovered from a colon-separated identifier.\<close>

lemma colon_split:
  assumes "CHR '':'' \<notin> set a" and "CHR '':'' \<notin> set b"
    and "a @ CHR '':'' # x = b @ CHR '':'' # y"
  shows "a = b \<and> x = y"
  using assms
proof (induction a arbitrary: b)
  case Nil
  then show ?case by (cases b) auto
next
  case (Cons c cs)
  then show ?case by (cases b) auto
qed

end
