(* ===== verification/Types.thy ===== *)
theory Types
  imports Prelude
begin

text \<open>
  The value types of the DSL (\<open>src/dsl/types.go\<close>), the run-time values that expressions
  and event payloads hold, and the errors of the engine. A Go \<open>error\<close> is a value of
  \<open>err\<close>: one constructor per \<open>fmt.Errorf\<close> of the code, with the values that the
  message prints, wrapped errors as an argument.
\<close>

subsection \<open>Run-time values: what an interface value can hold\<close>

text \<open>
  \<open>VInt\<close> stands for \<open>int\<close>, \<open>int32\<close> and \<open>int64\<close>, \<open>VFloat\<close> for \<open>float64\<close> and
  \<open>float32\<close> (by the rational it denotes), \<open>VOther\<close> for any other dynamic type, by its name.
\<close>

datatype val =
    VNil
  | VBool bool
  | VInt int
  | VFloat rat
  | VStr string
  | VList "val list"
  | VObj "(string \<times> val) list"
  | VOther string

type_synonym env = "val dict"

subsection \<open>Declared types\<close>

datatype type_kind =
    TypeAny | TypeString | TypeNumber | TypeBoolean | TypeObject | TypeArray
  | TypeEnum | TypeDateTime | TypeMoney

fun kindString :: "type_kind \<Rightarrow> string" where
  "kindString TypeString = ''string''"
| "kindString TypeNumber = ''number''"
| "kindString TypeBoolean = ''boolean''"
| "kindString TypeObject = ''object''"
| "kindString TypeArray = ''array''"
| "kindString TypeEnum = ''enum''"
| "kindString TypeDateTime = ''date_time''"
| "kindString TypeMoney = ''money''"
| "kindString TypeAny = ''any''"

text \<open>A nil \<open>*Type\<close> is \<open>None\<close>; a field carries its name, type and optionality.\<close>

datatype ty = Ty
  (t_kind: type_kind)
  (t_elem: "ty option")
  (t_fields: "(string \<times> ty option \<times> bool) list")
  (t_enum: "string list")

definition simple_ty :: "type_kind \<Rightarrow> ty" where
  "simple_ty k = Ty k None [] []"

definition ObjectType :: "(string \<times> ty option \<times> bool) list \<Rightarrow> ty" where
  "ObjectType fields = Ty TypeObject None fields []"

definition ArrayType :: "ty option \<Rightarrow> ty" where
  "ArrayType elem = Ty TypeArray elem [] []"

definition EnumType :: "string list \<Rightarrow> ty" where
  "EnumType vals = Ty TypeEnum None [] vals"

fun tyString :: "ty option \<Rightarrow> string" where
  "tyString None = ''any''"
| "tyString (Some (Ty TypeArray None fs en)) = ''[]any''"
| "tyString (Some (Ty TypeArray (Some e) fs en)) = ''[]'' @ tyString (Some e)"
| "tyString (Some (Ty TypeEnum el fs [])) = ''enum''"
| "tyString (Some (Ty TypeEnum el fs (v # vs))) = ''enum('' @ v @ '',...)''"
| "tyString (Some (Ty k el fs en)) = kindString k"

subsection \<open>Errors\<close>

datatype err =
    EText string
  | EGot string val string
  | EEnumValue string string "string list"
  | EInput string string err
  | EOutputEval string string err
  | EOutput string err
  | ENoValueEngine string string
  | ECondition string err
  | ENodeNotFound string
  | EEventNotDefined string string
  | ENotAICallback string string string
  | EAi string err
  | EInference string
  | EOutputMissing string
  | EEmptyChoice
  | EChoiceOutside string
  | ENoCase string
  | ENoRoute
  | EBuildRequest string err
  | EMarshal
  | EParallelNoBranch string
  | EBranchNoNext string nat
  | EUnsupportedEffect string
  | ERetries string nat err
  | ECritical string string
  | EVisits string int
  | EDrainSteps nat
  | ETerminal string string string
  | ENotHandled string string
  | ENotHandledByBranch string
  | EPrincipalRequired string string string
  | EBranchPrincipalRequired string string string string
  | EDuplicateStart string
  | EDuplicate string
  | ENoScope
  | ENoScopeToComplete
  | EScopeFailed string nat
  | ECannotConverge string
  | EScopeTimeout string
  | EBranchNodeNotFound string
  | ETimerNoRoute string
  | EWaitingNodeNotFound string
  | EDeadlineNoNext string
  | EDuration string string
  | EDurationNotPositive string string
  | EScopeSnapshotMissing int
  | EBranchSnapshotMissing int
  | EUnknownScope int string string
  | EUnknownBranch int string string
  | EWaitingSnapshotMissing int
  | ETypeNameRequired
  | ETypeRegistered string
  | EUnknownType string

text \<open>
  \<open>errors.Is(err, ErrPrincipalRequired)\<close>: the two rejections of the enforcement point wrap
  the sentinel with \<open>%w\<close>.
\<close>

fun isErrPrincipalRequired :: "err \<Rightarrow> bool" where
  "isErrPrincipalRequired (EPrincipalRequired n r e) = True"
| "isErrPrincipalRequired (EBranchPrincipalRequired b n r e) = True"
| "isErrPrincipalRequired _ = False"

subsection \<open>Named types\<close>

definition simpleType :: "string \<Rightarrow> err + ty" where
  "simpleType name =
     (if name = ''string'' \<or> name = ''enum'' then Inr (simple_ty TypeString)
      else if name = ''number'' \<or> name = ''money'' then Inr (simple_ty TypeNumber)
      else if name = ''boolean'' then Inr (simple_ty TypeBoolean)
      else if name = ''date'' \<or> name = ''date_time'' \<or> name = ''datetime''
        then Inr (simple_ty TypeDateTime)
      else if name = ''any'' then Inr (simple_ty TypeAny)
      else Inl (EUnknownType name))"

definition registerType :: "ty dict \<Rightarrow> string \<Rightarrow> ty option \<Rightarrow> err + ty dict" where
  "registerType types name t =
     (case t of
        None \<Rightarrow> Inl ETypeNameRequired
      | Some t \<Rightarrow>
          if name = '''' then Inl ETypeNameRequired
          else if dget types name \<noteq> None then Inl (ETypeRegistered name)
          else Inr (dput name t types))"

definition Declare :: "ty dict \<Rightarrow> string \<Rightarrow> ty \<Rightarrow> ty dict" where
  "Declare vars name t = (if name = '''' then vars else dput name t vars)"

subsection \<open>Assignability of a run-time value (\<open>contract.go\<close>)\<close>

fun isString :: "val \<Rightarrow> bool" where
  "isString (VStr s) = True"
| "isString _ = False"

fun isNumber :: "val \<Rightarrow> bool" where
  "isNumber (VInt i) = True"
| "isNumber (VFloat r) = True"
| "isNumber _ = False"

fun isBool :: "val \<Rightarrow> bool" where
  "isBool (VBool b) = True"
| "isBool _ = False"

fun isObject :: "val \<Rightarrow> bool" where
  "isObject (VObj kvs) = True"
| "isObject _ = False"

fun isArray :: "val \<Rightarrow> bool" where
  "isArray (VList vs) = True"
| "isArray _ = False"

definition expectKind :: "string \<Rightarrow> string \<Rightarrow> val \<Rightarrow> (val \<Rightarrow> bool) \<Rightarrow> err option" where
  "expectKind name want v pred = (if pred v then None else Some (EGot name v want))"

definition checkAssignable :: "string \<Rightarrow> ty option \<Rightarrow> val \<Rightarrow> err option" where
  "checkAssignable name t v =
     (case t of
        None \<Rightarrow> None
      | Some t \<Rightarrow>
          (case t_kind t of
             TypeAny \<Rightarrow> None
           | TypeString \<Rightarrow> expectKind name ''string'' v isString
           | TypeEnum \<Rightarrow>
               (case v of
                  VStr s \<Rightarrow> if s \<in> set (t_enum t) then None
                            else Some (EEnumValue name s (t_enum t))
                | _ \<Rightarrow> Some (EGot name v ''string enum''))
           | TypeNumber \<Rightarrow> expectKind name ''number'' v isNumber
           | TypeMoney \<Rightarrow> expectKind name ''number'' v isNumber
           | TypeBoolean \<Rightarrow> expectKind name ''boolean'' v isBool
           | TypeDateTime \<Rightarrow> expectKind name ''date string'' v isString
           | TypeObject \<Rightarrow> expectKind name ''object'' v isObject
           | TypeArray \<Rightarrow> expectKind name ''array'' v isArray))"

text \<open>What a variable of a declared type may hold: the abstract counterpart of the check.\<close>

definition has_type :: "ty \<Rightarrow> val \<Rightarrow> bool" where
  "has_type t v =
     (case t_kind t of
        TypeAny \<Rightarrow> True
      | TypeString \<Rightarrow> (\<exists>s. v = VStr s)
      | TypeEnum \<Rightarrow> (\<exists>s. v = VStr s \<and> s \<in> set (t_enum t))
      | TypeNumber \<Rightarrow> (\<exists>i. v = VInt i) \<or> (\<exists>q. v = VFloat q)
      | TypeMoney \<Rightarrow> (\<exists>i. v = VInt i) \<or> (\<exists>q. v = VFloat q)
      | TypeBoolean \<Rightarrow> (\<exists>b. v = VBool b)
      | TypeDateTime \<Rightarrow> (\<exists>s. v = VStr s)
      | TypeObject \<Rightarrow> (\<exists>kvs. v = VObj kvs)
      | TypeArray \<Rightarrow> (\<exists>vs. v = VList vs))"

lemma isKind_iff:
  "isString v \<longleftrightarrow> (\<exists>s. v = VStr s)"
  "isNumber v \<longleftrightarrow> (\<exists>i. v = VInt i) \<or> (\<exists>q. v = VFloat q)"
  "isBool v \<longleftrightarrow> (\<exists>b. v = VBool b)"
  "isObject v \<longleftrightarrow> (\<exists>kvs. v = VObj kvs)"
  "isArray v \<longleftrightarrow> (\<exists>vs. v = VList vs)"
  by (cases v; simp)+

lemma checkAssignable_None_iff: "checkAssignable name (Some t) v = None \<longleftrightarrow> has_type t v"
  by (cases v; cases "t_kind t")
    (auto simp: checkAssignable_def has_type_def expectKind_def)

end
