(* ===== verification/Durations.thy ===== *)
theory Durations
  imports Types
begin

text \<open>
  Duration strings. \<open>ParseDuration\<close> is \<open>time.ParseDuration\<close> of the Go standard
  library, in nanoseconds: an optional sign, then decimal numbers with a unit, with the
  library's overflow checks. The fraction of a number is added with exact rational
  arithmetic, truncated; the library computes it in float64. On top of it,
  \<open>parseDurationStrict\<close> (\<open>src/dsl/temporal.go\<close>) and \<open>resolveJoinTimeout\<close>
  (\<open>src/dsl/parallel.go\<close>).
\<close>

definition isDigit :: "char \<Rightarrow> bool" where
  "isDigit c \<longleftrightarrow> c \<in> set ''0123456789''"

definition unitOf :: "string \<Rightarrow> int option" where
  "unitOf u =
     (if u = ''ns'' then Some 1
      else if u = ''us'' \<or> u = [CHR 0xC2, CHR 0xB5, CHR ''s''] \<or> u = [CHR 0xCE, CHR 0xBC, CHR ''s'']
        then Some 1000
      else if u = ''ms'' then Some 1000000
      else if u = ''s'' then Some 1000000000
      else if u = ''m'' then Some 60000000000
      else if u = ''h'' then Some 3600000000000
      else None)"

text \<open>Digits after the point: the value read and its scale, further digits ignored on overflow.\<close>

fun leadingFraction :: "string \<Rightarrow> int \<Rightarrow> int \<Rightarrow> int \<times> int" where
  "leadingFraction [] x scale = (x, scale)"
| "leadingFraction (c # cs) x scale =
     (if x > (2 ^ 63 - 1) div 10 \<or> 10 * x + int (digit_value c) > 2 ^ 63 then (x, scale)
      else leadingFraction cs (10 * x + int (digit_value c)) (10 * scale))"

text \<open>One pass of the loop: the amount read and the rest of the string.\<close>

definition parsePart :: "string \<Rightarrow> (int \<times> string) option" where
  "parsePart s =
     (let ds = takeWhile isDigit s;
          s1 = dropWhile isDigit s;
          v = foldl (\<lambda>a c. 10 * a + int (digit_value c)) 0 ds;
          point = (s1 \<noteq> [] \<and> hd s1 = CHR ''.'');
          fs = (if point then takeWhile isDigit (tl s1) else []);
          s2 = (if point then dropWhile isDigit (tl s1) else s1);
          (f, scale) = leadingFraction fs 0 1;
          u = takeWhile (\<lambda>c. c \<noteq> CHR ''.'' \<and> \<not> isDigit c) s2;
          rest = dropWhile (\<lambda>c. c \<noteq> CHR ''.'' \<and> \<not> isDigit c) s2
      in if v > 2 ^ 63 \<or> (ds = [] \<and> fs = []) \<or> u = [] then None
         else (case unitOf u of
                 None \<Rightarrow> None
               | Some unit \<Rightarrow>
                   if v > 2 ^ 63 div unit \<or> v * unit + f * unit div scale > 2 ^ 63 then None
                   else Some (v * unit + f * unit div scale, rest)))"

lemma length_dropWhile_less: "takeWhile P xs \<noteq> [] \<Longrightarrow> length (dropWhile P xs) < length xs"
proof -
  assume "takeWhile P xs \<noteq> []"
  then have "0 < length (takeWhile P xs)" by simp
  moreover have "length (takeWhile P xs) + length (dropWhile P xs) = length xs"
    by (metis length_append takeWhile_dropWhile_id)
  ultimately show ?thesis by linarith
qed

lemma parsePart_shorter:
  assumes "parsePart s = Some (n, rest)"
  shows "length rest < length s"
proof -
  let ?s1 = "dropWhile isDigit s"
  let ?s2 = "if ?s1 \<noteq> [] \<and> hd ?s1 = CHR ''.'' then dropWhile isDigit (tl ?s1) else ?s1"
  let ?P = "\<lambda>c. c \<noteq> CHR ''.'' \<and> \<not> isDigit c"
  from assms have ne: "takeWhile ?P ?s2 \<noteq> []" and rest: "rest = dropWhile ?P ?s2"
    by (auto simp: parsePart_def Let_def split: if_splits option.splits prod.splits)
  have "length rest < length ?s2" unfolding rest by (rule length_dropWhile_less [OF ne])
  moreover have "length ?s2 \<le> length s"
  proof -
    have "length ?s1 \<le> length s" by (rule length_dropWhile_le)
    moreover have "length (dropWhile isDigit (tl ?s1)) \<le> length ?s1"
      using length_dropWhile_le [of isDigit "tl ?s1"] by simp
    ultimately show ?thesis by simp
  qed
  ultimately show ?thesis by simp
qed

function parseParts :: "string \<Rightarrow> int \<Rightarrow> int option" where
  "parseParts s d =
     (if s = [] then Some d
      else case parsePart s of
             None \<Rightarrow> None
           | Some (n, rest) \<Rightarrow> if d + n > 2 ^ 63 then None else parseParts rest (d + n))"
  by pat_completeness auto
termination
  by (relation "measure (\<lambda>(s, d). length s)") (auto dest: parsePart_shorter)

declare parseParts.simps [simp del]

definition ParseDuration :: "string \<Rightarrow> int option" where
  "ParseDuration s =
     (let signed = (s \<noteq> [] \<and> (hd s = CHR ''-'' \<or> hd s = CHR ''+''));
          neg = (s \<noteq> [] \<and> hd s = CHR ''-'');
          s1 = (if signed then tl s else s)
      in if s1 = ''0'' then Some 0
         else if s1 = [] then None
         else case parseParts s1 0 of
                None \<Rightarrow> None
              | Some d \<Rightarrow> if neg then Some (- d)
                          else if d > 2 ^ 63 - 1 then None else Some d)"

definition parseDurationStrict :: "string \<Rightarrow> string \<Rightarrow> err + int" where
  "parseDurationStrict raw what =
     (case ParseDuration raw of
        None \<Rightarrow> Inl (EDuration what raw)
      | Some d \<Rightarrow> if d \<le> 0 then Inl (EDurationNotPositive what raw) else Inr d)"

definition resolveJoinTimeout :: "string \<Rightarrow> int" where
  "resolveJoinTimeout raw =
     (if raw = '''' then 0 else case ParseDuration raw of None \<Rightarrow> 0 | Some d \<Rightarrow> d)"

lemma parseDurationStrict_pos: "parseDurationStrict raw what = Inr d \<Longrightarrow> 0 < d"
  by (auto simp: parseDurationStrict_def split: option.splits if_splits)

lemma ParseDuration_hour: "ParseDuration ''1h'' = Some 3600000000000"
  by code_simp

lemma ParseDuration_mixed: "ParseDuration ''1m30.5s'' = Some 90500000000"
  by code_simp

lemma ParseDuration_unitless: "ParseDuration ''15'' = None"
  by code_simp

end
