(* ===== verification/Process.thy ===== *)
theory Process
  imports Durations
begin

text \<open>
  Process definitions as the parser builds them (the structs at the head of
  \<open>src/dsl/parser.go\<close>, \<open>ForkConfig\<close> and \<open>JoinConfig\<close> of \<open>parallel.go\<close>,
  \<open>AIConfig\<close> of \<open>ai.go\<close>) and the principals of \<open>src/dsl/principal.go\<close>, with
  the queries on nodes that the engine shares.
\<close>

subsection \<open>Principals\<close>

record principal =
  p_kind :: string
  p_id :: string
  p_display :: string
  p_model :: string
  p_version :: string
  p_prompt :: string

definition systemPrincipal :: principal where
  "systemPrincipal = \<lparr>p_kind = ''system'', p_id = ''weiyang-runtime'',
     p_display = ''Weiyang Runtime'', p_model = '''', p_version = '''', p_prompt = ''''\<rparr>"

subsection \<open>Nodes\<close>

text \<open>
  Command payloads are byte strings. A byte string that a definition declares is
  \<open>RawBytes\<close>; the JSON text of an inference request is represented by the value that is
  encoded, \<open>InferRequest\<close>, and a raw output schema by its text and whether it is valid JSON.
\<close>

record infer_request =
  iq_node :: string
  iq_prompt :: string
  iq_callback :: string
  iq_request :: string
  iq_schema :: "string dict"
  iq_candidates :: "string list"

datatype payload = RawBytes string | InferRequest infer_request

text \<open>
  \<open>SideEffect\<close> points to its compensation, which is itself a \<open>SideEffect\<close>.
\<close>

datatype side_effect = SideEffect
  (se_type: string)
  (se_target: string)
  (se_payload: payload)
  (se_critical: bool)
  (se_compensation: "side_effect option")

record transition =
  tr_event :: string
  tr_when :: string
  tr_next :: string
  tr_case :: string

record fork_config =
  fk_mode :: string
  fk_join :: string
  fk_onfail :: string

record join_config =
  jn_mode :: string
  jn_required :: int
  jn_timeout :: string

record deadline_config =
  dl_after :: string
  dl_next :: string

record ai_config =
  ai_type :: string
  ai_target :: string
  ai_prompt :: string
  ai_event :: string
  ai_specs :: "(string \<times> bool) dict"
  ai_types :: "ty dict"
  ai_choose :: "string list"
  ai_onError :: string

record node =
  n_id :: string
  n_type :: string
  n_label :: string
  n_effects :: "side_effect list"
  n_trans :: "transition list"
  n_fork :: "fork_config option"
  n_join :: "join_config option"
  n_input :: "string dict"
  n_output :: "string dict"
  n_duration :: string
  n_deadline :: "deadline_config option"
  n_requirePrincipal :: bool
  n_ai :: "ai_config option"

record process_def =
  pd_id :: string
  pd_name :: string
  pd_version :: string
  pd_nodes :: "node dict"
  pd_start :: string
  pd_schema :: "ty dict"
  pd_init :: env

text \<open>Nodes are stored under their own ID: what the parser establishes.\<close>

definition ids_match :: "process_def \<Rightarrow> bool" where
  "ids_match def \<longleftrightarrow> (\<forall>(k, n) \<in> set (pd_nodes def). n_id n = k)"

lemma ids_matchD: "ids_match def \<Longrightarrow> dget (pd_nodes def) k = Some n \<Longrightarrow> n_id n = k"
  by (fastforce simp: ids_match_def dest: map_of_SomeD)

subsection \<open>Queries on nodes\<close>

definition isWaitingType :: "string \<Rightarrow> bool" where
  "isWaitingType t \<longleftrightarrow> t = ''approval'' \<or> t = ''subprocess'' \<or> t = ''timer'' \<or> t = ''ai''"

definition isWaitingNode :: "node option \<Rightarrow> bool" where
  "isWaitingNode n = (case n of None \<Rightarrow> False | Some n \<Rightarrow> isWaitingType (n_type n))"

definition isDecisionNode :: "node option \<Rightarrow> bool" where
  "isDecisionNode n = (case n of None \<Rightarrow> False
     | Some n \<Rightarrow> n_type n = ''approval'' \<or> n_type n = ''subprocess'' \<or> n_type n = ''ai'')"

definition aiEventName :: "node \<Rightarrow> string" where
  "aiEventName n = (case n_ai n of
      Some a \<Rightarrow> if ai_event a \<noteq> '''' then ai_event a else ''ai_result''
    | None \<Rightarrow> ''ai_result'')"

definition aiCommandType :: "node \<Rightarrow> string" where
  "aiCommandType n = (case n_ai n of
      Some a \<Rightarrow> if ai_type a \<noteq> '''' then ai_type a else ''ai_infer''
    | None \<Rightarrow> ''ai_infer'')"

definition aiCommandTarget :: "node \<Rightarrow> string" where
  "aiCommandTarget n = (case n_ai n of
      Some a \<Rightarrow> if ai_target a \<noteq> '''' then ai_target a else ''llm''
    | None \<Rightarrow> ''llm'')"

definition nodeAcceptsEvent :: "node \<Rightarrow> string \<Rightarrow> bool" where
  "nodeAcceptsEvent n e =
     (if n_type n = ''ai'' then e = aiEventName n
      else if n_type n = ''timer'' then False
      else list_ex (\<lambda>tr. tr_event tr = e \<or> tr_when tr \<noteq> '''') (n_trans n))"

definition validDecisionPrincipal :: "node \<Rightarrow> principal option \<Rightarrow> bool" where
  "validDecisionPrincipal n p =
     (case p of
        None \<Rightarrow> False
      | Some p \<Rightarrow>
          if p_kind p = '''' \<or> p_id p = '''' then False
          else if n_type n = ''ai''
            then p_kind p = ''model'' \<and> p_model p \<noteq> '''' \<and> p_version p \<noteq> '''' \<and> p_prompt p \<noteq> ''''
          else True)"

definition principalRequirement :: "node \<Rightarrow> string" where
  "principalRequirement n =
     (if n_type n = ''ai''
      then ''model attribution (principal of kind model with model, model_version and prompt_version)''
      else ''a principal (kind + id)'')"

text \<open>A timer is driven by time alone, and only a decision node can need a principal.\<close>

lemma timer_accepts_nothing: "n_type n = ''timer'' \<Longrightarrow> \<not> nodeAcceptsEvent n e"
  by (simp add: nodeAcceptsEvent_def)

lemma decision_waits: "isDecisionNode n \<Longrightarrow> isWaitingNode n"
  by (auto simp: isDecisionNode_def isWaitingNode_def isWaitingType_def split: option.splits)

end
