(* ===== verification/State.thy ===== *)
theory State
  imports Process
begin

text \<open>
  The run-time data of the engine: events, branches and scopes of \<open>src/dsl/parallel.go\<close>,
  waiting slots of \<open>temporal.go\<close>, commands and results of \<open>sideeffect.go\<close>, undo entries
  of \<open>compensate.go\<close>, the execution context of \<open>context.go\<close> and the journal's
  occurrences of \<open>journal.go\<close>. At the end the state that a runtime threads through its
  calls (\<open>rts\<close>) and what it is configured with (\<open>cfg\<close>): the process definition and
  the code the host or the libraries supply.
\<close>

subsection \<open>Life-cycle status\<close>

datatype status =
    StatusPending | StatusRunning | StatusWaiting | StatusSuspended
  | StatusCompleted | StatusFailed | StatusCanceled | StatusTimedOut

fun statusString :: "status \<Rightarrow> string" where
  "statusString StatusPending = ''pending''"
| "statusString StatusRunning = ''running''"
| "statusString StatusWaiting = ''waiting''"
| "statusString StatusSuspended = ''suspended''"
| "statusString StatusCompleted = ''completed''"
| "statusString StatusFailed = ''failed''"
| "statusString StatusCanceled = ''canceled''"
| "statusString StatusTimedOut = ''timed_out''"

definition all_statuses :: "status list" where
  "all_statuses = [StatusPending, StatusRunning, StatusWaiting, StatusSuspended,
     StatusCompleted, StatusFailed, StatusCanceled, StatusTimedOut]"

definition ParseExecutionStatus :: "string \<Rightarrow> status" where
  "ParseExecutionStatus s =
     (case find (\<lambda>st. statusString st = s) all_statuses of
        None \<Rightarrow> StatusPending | Some st \<Rightarrow> st)"

definition isTerminalStatus :: "status \<Rightarrow> bool" where
  "isTerminalStatus s \<longleftrightarrow> s = StatusCompleted \<or> s = StatusFailed \<or> s = StatusCanceled \<or> s = StatusTimedOut"

lemma ParseExecutionStatus_String [simp]: "ParseExecutionStatus (statusString s) = s"
  by (cases s) (simp_all add: ParseExecutionStatus_def all_statuses_def)

subsection \<open>Events, branches, scopes, waiting slots\<close>

text \<open>Times are nanoseconds; a zero \<open>time.Time\<close> is 0, and a zero \<open>Until\<close> is \<open>None\<close>.\<close>

record event =
  ev_id :: string
  ev_name :: string
  ev_principal :: "principal option"
  ev_payload :: "env option"
  ev_time :: int

record branch_state =
  b_id :: string
  b_start :: string
  b_node :: string
  b_status :: status
  b_actor :: "principal option"
  b_done :: bool
  b_arrived :: string
  b_finished :: int

record parallel_scope =
  ps_id :: string
  ps_fork :: string
  ps_join :: string
  ps_mode :: string
  ps_onfail :: string
  ps_required :: int
  ps_timeout :: int
  ps_started :: int
  ps_branches :: "branch_state dict"
  ps_status :: status

record waiting_state =
  w_kind :: string
  w_actor :: "principal option"
  w_node :: string
  w_until :: "int option"
  w_visit :: nat
  w_next :: string
  w_request :: string

subsection \<open>Side effects\<close>

record command =
  cmd_id :: string
  cmd_node :: string
  cmd_type :: string
  cmd_target :: string
  cmd_payload :: payload
  cmd_critical :: bool
  cmd_compensation :: "side_effect option"

record effect_result =
  sr_command :: string
  sr_status :: string
  sr_error :: "err option"
  sr_outcome :: env
  sr_permanent :: bool

record undo_entry =
  u_node :: string
  u_command :: string
  u_key :: string
  u_effect :: side_effect
  u_done :: bool

subsection \<open>The execution context\<close>

record ctx =
  c_process :: string
  c_definition :: string
  c_instance :: string
  c_execution :: string
  c_tenant :: string
  c_node :: string
  c_status :: status
  c_vars :: env
  c_meta :: "string dict"
  c_event :: "event option"
  c_scopes :: "parallel_scope list"
  c_waitings :: "waiting_state dict"
  c_results :: "effect_result list"
  c_undo :: "undo_entry list"
  c_visits :: "nat dict"
  c_attempt :: int
  c_started :: int
  c_updated :: int
  c_completed :: int
  c_processed :: "int dict"

subsection \<open>Facts of the journal\<close>

datatype occ_kind =
    OccStarted | OccEventConsumed | OccEventReleased | OccNodeVisited | OccTransition
  | OccNodeSet | OccStatus | OccVariableSet | OccScopePushed | OccScopePopped
  | OccBranchUpdated | OccWaitingSet | OccWaitingCleared | OccWoke | OccCommandIssued
  | OccCommandResult | OccCompensationPushed | OccCompensationFired | OccDefActivated

record activation_state =
  as_def :: string
  as_version :: string
  as_hash :: string
  as_status :: string
  as_proposer :: string
  as_owner :: string
  as_by :: "principal option"
  as_at :: int

text \<open>
  One wide record, as the code has it; a pointer field is an option. The error text of a
  result is kept as the error that prints it, \<open>None\<close> for the empty text.
\<close>

record occurrence =
  o_seq :: int
  o_time :: int
  o_instance :: string
  o_execution :: string
  o_kind :: occ_kind
  o_event :: "event option"
  o_actor :: "principal option"
  o_node :: string
  o_slot :: string
  o_from :: string
  o_to :: string
  o_tevent :: string
  o_status :: string
  o_varkey :: string
  o_varvalue :: val
  o_branch :: "branch_state option"
  o_waiting :: "waiting_state option"
  o_scope :: "parallel_scope option"
  o_command :: "command option"
  o_cmdid :: string
  o_result :: string
  o_outcome :: env
  o_errtext :: "err option"
  o_undo :: "undo_entry option"
  o_key :: string
  o_defid :: string
  o_defversion :: string
  o_activation :: "activation_state option"

definition blank_occ :: "occ_kind \<Rightarrow> occurrence" where
  "blank_occ k = \<lparr>o_seq = 0, o_time = 0, o_instance = '''', o_execution = '''', o_kind = k,
     o_event = None, o_actor = None, o_node = '''', o_slot = '''', o_from = '''', o_to = '''',
     o_tevent = '''', o_status = '''', o_varkey = '''', o_varvalue = VNil, o_branch = None,
     o_waiting = None, o_scope = None, o_command = None, o_cmdid = '''', o_result = '''',
     o_outcome = [], o_errtext = None, o_undo = None, o_key = '''', o_defid = '''',
     o_defversion = '''', o_activation = None\<rparr>"

subsection \<open>Results of a step\<close>

record state_transition =
  st_from :: string
  st_to :: string
  st_event :: string
  st_status :: string

datatype next_action =
    ActTransition string
  | ActRunBranch string string
  | ActComplete

record exec_result =
  er_transition :: "state_transition option"
  er_effects :: "command list"
  er_errors :: "err list"
  er_actions :: "next_action list"

definition no_result :: exec_result where
  "no_result = \<lparr>er_transition = None, er_effects = [], er_errors = [], er_actions = []\<rparr>"

subsection \<open>Configuration and state of a runtime\<close>

text \<open>
  \<open>cfg\<close> holds what a \<open>Runtime\<close> is built with. The expression library
  (\<open>expr-lang/expr\<close>), the host's side-effect executor and the journal's store are
  parameters: \<open>g_evaluate\<close> and \<open>g_evaluateAny\<close> are the engine's two evaluations
  (\<open>None\<close> for an engine that has no value expressions), \<open>g_handle\<close> the executor on its own
  state, \<open>g_append\<close> the journal's \<open>Append\<close>: the stored occurrence's effect on the journal
  and an error. \<open>g_clock\<close> gives successive readings of \<open>time.Now()\<close>, \<open>g_order\<close> the order in
  which a \<open>range\<close> over a Go map visits the keys, which the language leaves open, and
  \<open>g_render\<close> the text that \<open>json.Marshal\<close> or \<open>%v\<close> gives a variable in a prompt. Both clock
  and order are indexed by a counter in the state, so no two readings need agree.
\<close>

record ('h, 'j) cfg =
  g_def :: process_def
  g_evaluate :: "string \<Rightarrow> env \<Rightarrow> err + bool"
  g_evaluateAny :: "(string \<Rightarrow> env \<Rightarrow> err + val) option"
  g_handle :: "'h \<Rightarrow> command \<Rightarrow> 'h \<times> effect_result"
  g_maxRetry :: int
  g_append :: "'j \<Rightarrow> occurrence \<Rightarrow> 'j \<times> err option"
  g_clock :: "nat \<Rightarrow> int"
  g_order :: "nat \<Rightarrow> string list \<Rightarrow> string list"
  g_render :: "val \<Rightarrow> string"
  g_autoCompensate :: bool
  g_maxNodeVisits :: int

text \<open>
  \<open>rts\<close> is what the calls of a \<open>Runtime\<close> read and write: the context, the journal bound to
  it (\<open>None\<close> for none) with the first append error and the errors handed to
  \<open>OnJournalError\<close>, the executor's state, the counter of clock readings and map ranges, and
  the \<open>ExecutionResult\<close> that the calls accumulate into.
\<close>

record ('h, 'j) rts =
  r_ctx :: ctx
  r_journal :: "'j option"
  r_journalErr :: "err option"
  r_alerts :: "err list"
  r_host :: 'h
  r_tick :: nat
  r_res :: exec_result

definition instanceSlot :: string where
  "instanceSlot = ''instance''"

definition scopeSlotID :: "string \<Rightarrow> string" where
  "scopeSlotID fork = ''scope:'' @ fork"

end
