(* ===== verification/Context.thy ===== *)
theory Context
  imports State
begin

text \<open>
  The operations of \<open>ExecutionContext\<close> (\<open>src/dsl/context.go\<close>): every one changes the
  context and records the fact it stands for. \<open>recordOcc\<close> is \<open>record\<close> (the Isabelle keyword is
  taken): it appends to the journal, when there is one, and keeps the first append error.
\<close>

subsection \<open>Readings of the environment\<close>

definition now :: "('h, 'j) cfg \<Rightarrow> ('h, 'j) rts \<Rightarrow> int \<times> ('h, 'j) rts" where
  "now g s = (g_clock g (r_tick s), s\<lparr>r_tick := Suc (r_tick s)\<rparr>)"

definition rangeKeys :: "('h, 'j) cfg \<Rightarrow> 'v dict \<Rightarrow> ('h, 'j) rts \<Rightarrow> string list \<times> ('h, 'j) rts" where
  "rangeKeys g d s = (g_order g (r_tick s) (dkeys d), s\<lparr>r_tick := Suc (r_tick s)\<rparr>)"

definition modify_ctx :: "(ctx \<Rightarrow> ctx) \<Rightarrow> ('h, 'j) rts \<Rightarrow> ('h, 'j) rts" where
  "modify_ctx f s = s\<lparr>r_ctx := f (r_ctx s)\<rparr>"

definition add_error :: "err \<Rightarrow> ('h, 'j) rts \<Rightarrow> ('h, 'j) rts" where
  "add_error e s = s\<lparr>r_res := (r_res s)\<lparr>er_errors := er_errors (r_res s) @ [e]\<rparr>\<rparr>"

subsection \<open>Recording a fact\<close>

definition recordOcc ::
  "('h, 'j) cfg \<Rightarrow> occ_kind \<Rightarrow> (occurrence \<Rightarrow> occurrence) \<Rightarrow> ('h, 'j) rts \<Rightarrow> ('h, 'j) rts" where
  "recordOcc g k fill s =
     (case r_journal s of
        None \<Rightarrow> s
      | Some j \<Rightarrow>
          let (t, s1) = now g s;
              occ = fill ((blank_occ k)\<lparr>o_time := t, o_instance := c_instance (r_ctx s),
                                        o_execution := c_execution (r_ctx s)\<rparr>);
              (j', e) = g_append g j occ
          in case e of
               None \<Rightarrow> s1\<lparr>r_journal := Some j'\<rparr>
             | Some x \<Rightarrow> s1\<lparr>r_journal := Some j',
                            r_journalErr := (case r_journalErr s of None \<Rightarrow> Some x | Some y \<Rightarrow> Some y),
                            r_alerts := r_alerts s @ [x]\<rparr>)"

subsection \<open>Construction\<close>

definition NewExecutionContext :: "process_def \<Rightarrow> string \<Rightarrow> string \<Rightarrow> int \<Rightarrow> ctx" where
  "NewExecutionContext def iid xid t = \<lparr>
     c_process = pd_id def, c_definition = pd_id def, c_instance = iid, c_execution = xid,
     c_tenant = '''', c_node = '''', c_status = StatusPending,
     c_vars = foldl (\<lambda>vs (k, v). dput k v vs) [] (pd_init def), c_meta = [], c_event = None,
     c_scopes = [], c_waitings = [], c_results = [], c_undo = [], c_visits = [],
     c_attempt = 0, c_started = t, c_updated = 0, c_completed = 0, c_processed = []\<rparr>"

definition WithTenant :: "string \<Rightarrow> ctx \<Rightarrow> ctx" where
  "WithTenant t c = c\<lparr>c_tenant := t\<rparr>"

definition WithVariables :: "env \<Rightarrow> ctx \<Rightarrow> ctx" where
  "WithVariables vars c = c\<lparr>c_vars := foldl (\<lambda>vs (k, v). dput k v vs) (c_vars c) vars\<rparr>"

subsection \<open>Status and variables\<close>

definition setStatus :: "('h, 'j) cfg \<Rightarrow> status \<Rightarrow> ('h, 'j) rts \<Rightarrow> ('h, 'j) rts" where
  "setStatus g st s =
     (let (t, s1) = now g s;
          s2 = modify_ctx (\<lambda>c. c\<lparr>c_status := st, c_updated := t\<rparr>) s1;
          s3 = (if isTerminalStatus st
                then let (t', s2') = now g s2 in modify_ctx (\<lambda>c. c\<lparr>c_completed := t'\<rparr>) s2'
                else s2)
      in recordOcc g OccStatus (\<lambda>occ. occ\<lparr>o_status := statusString st\<rparr>) s3)"

definition SetVariable :: "('h, 'j) cfg \<Rightarrow> string \<Rightarrow> val \<Rightarrow> ('h, 'j) rts \<Rightarrow> ('h, 'j) rts" where
  "SetVariable g k v s =
     recordOcc g OccVariableSet (\<lambda>occ. occ\<lparr>o_varkey := k, o_varvalue := v\<rparr>)
       (modify_ctx (\<lambda>c. c\<lparr>c_vars := dput k v (c_vars c)\<rparr>) s)"

definition GetVariable :: "string \<Rightarrow> ctx \<Rightarrow> val" where
  "GetVariable k c = (case dget (c_vars c) k of None \<Rightarrow> VNil | Some v \<Rightarrow> v)"

definition setNode :: "('h, 'j) cfg \<Rightarrow> string \<Rightarrow> ('h, 'j) rts \<Rightarrow> ('h, 'j) rts" where
  "setNode g n s =
     recordOcc g OccNodeSet (\<lambda>occ. occ\<lparr>o_node := n\<rparr>) (modify_ctx (\<lambda>c. c\<lparr>c_node := n\<rparr>) s)"

subsection \<open>The table of processed events\<close>

definition maxProcessedEvents :: nat where
  "maxProcessedEvents = 4096"

definition processedEventTTL :: int where
  "processedEventTTL = 72 * 3600000000000"

text \<open>The scan for the oldest entry, in the order the \<open>range\<close> visits the keys.\<close>

fun oldest_entry :: "string list \<Rightarrow> int dict \<Rightarrow> string \<Rightarrow> int \<Rightarrow> string" where
  "oldest_entry [] d bestID bestTS = bestID"
| "oldest_entry (k # ks) d bestID bestTS =
     (case dget d k of
        None \<Rightarrow> oldest_entry ks d bestID bestTS
      | Some ts \<Rightarrow> if bestTS = 0 \<or> ts < bestTS then oldest_entry ks d k ts
                   else oldest_entry ks d bestID bestTS)"

text \<open>
  The eviction loop of \<open>sweepProcessedEventsLocked\<close>: each round removes an entry, so as many
  rounds as there are entries are enough (\<open>ord\<close> is the order of each round's \<open>range\<close>).
\<close>

fun evict_oldest :: "nat \<Rightarrow> (nat \<Rightarrow> string list \<Rightarrow> string list) \<Rightarrow> int dict \<Rightarrow> int dict" where
  "evict_oldest 0 ord d = d"
| "evict_oldest (Suc n) ord d =
     (if length d < maxProcessedEvents then d
      else let k = oldest_entry (ord n (dkeys d)) d '''' 0
           in if k = '''' then d else evict_oldest n ord (ddel k d))"

definition sweepProcessedEvents :: "(nat \<Rightarrow> string list \<Rightarrow> string list) \<Rightarrow> int \<Rightarrow> int dict \<Rightarrow> int dict" where
  "sweepProcessedEvents ord t d =
     (let cutoff = t - processedEventTTL;
          d1 = filter (\<lambda>(k, ts). \<not> ts \<le> cutoff) d
      in evict_oldest (length d1) ord d1)"

definition trackEvent ::
  "(nat \<Rightarrow> string list \<Rightarrow> string list) \<Rightarrow> string \<Rightarrow> int \<Rightarrow> int dict \<Rightarrow> int dict" where
  "trackEvent ord k t d =
     (if dget d k \<noteq> None then d
      else dput k t (if length d \<ge> maxProcessedEvents then sweepProcessedEvents ord t d else d))"

definition IsProcessedEvent :: "string \<Rightarrow> ctx \<Rightarrow> bool" where
  "IsProcessedEvent k c \<longleftrightarrow> dget (c_processed c) k \<noteq> None"

text \<open>Registering an event ID with the current time, under the lock.\<close>

definition track :: "('h, 'j) cfg \<Rightarrow> string \<Rightarrow> ('h, 'j) rts \<Rightarrow> ('h, 'j) rts" where
  "track g k s =
     (let (t, s1) = now g s
      in modify_ctx (\<lambda>c. c\<lparr>c_processed := trackEvent (\<lambda>n. g_order g (r_tick s1 + n)) k t (c_processed c)\<rparr>) s1)"

definition bare_event :: "string \<Rightarrow> event" where
  "bare_event k = \<lparr>ev_id = k, ev_name = '''', ev_principal = None, ev_payload = None, ev_time = 0\<rparr>"

definition TryConsumeEvent :: "('h, 'j) cfg \<Rightarrow> string \<Rightarrow> ('h, 'j) rts \<Rightarrow> bool \<times> ('h, 'j) rts" where
  "TryConsumeEvent g k s =
     (if k = '''' then (True, s)
      else if IsProcessedEvent k (r_ctx s) then (False, s)
      else (True, recordOcc g OccEventConsumed (\<lambda>occ. occ\<lparr>o_event := Some (bare_event k)\<rparr>)
                    (track g k s)))"

text \<open>Values are immutable here, so the deep copies of \<open>AcceptEvent\<close> are the values themselves.\<close>

definition AcceptEvent :: "('h, 'j) cfg \<Rightarrow> event \<Rightarrow> ('h, 'j) rts \<Rightarrow> bool \<times> ('h, 'j) rts" where
  "AcceptEvent g ev s =
     (if ev_id ev \<noteq> '''' \<and> IsProcessedEvent (ev_id ev) (r_ctx s) then (False, s)
      else let s1 = (if ev_id ev \<noteq> '''' then track g (ev_id ev) s else s);
               s2 = recordOcc g OccEventConsumed
                      (\<lambda>occ. occ\<lparr>o_event := Some ev, o_actor := ev_principal ev\<rparr>) s1
           in (True, modify_ctx (\<lambda>c. c\<lparr>c_event := Some ev\<rparr>) s2))"

definition ReleaseEvent :: "('h, 'j) cfg \<Rightarrow> string \<Rightarrow> ('h, 'j) rts \<Rightarrow> ('h, 'j) rts" where
  "ReleaseEvent g k s =
     (if k = '''' then s
      else let existed = IsProcessedEvent k (r_ctx s);
               s1 = modify_ctx (\<lambda>c. c\<lparr>c_processed := ddel k (c_processed c)\<rparr>) s
           in if existed
              then recordOcc g OccEventReleased (\<lambda>occ. occ\<lparr>o_event := Some (bare_event k)\<rparr>) s1
              else s1)"

subsection \<open>Scopes and visits\<close>

definition ActiveScope :: "ctx \<Rightarrow> parallel_scope option" where
  "ActiveScope c = (if c_scopes c = [] then None else Some (last (c_scopes c)))"

definition PushScope :: "('h, 'j) cfg \<Rightarrow> parallel_scope \<Rightarrow> ('h, 'j) rts \<Rightarrow> ('h, 'j) rts" where
  "PushScope g sc s =
     recordOcc g OccScopePushed (\<lambda>occ. occ\<lparr>o_scope := Some sc\<rparr>)
       (modify_ctx (\<lambda>c. c\<lparr>c_scopes := c_scopes c @ [sc]\<rparr>) s)"

definition PopScope :: "('h, 'j) cfg \<Rightarrow> ('h, 'j) rts \<Rightarrow> parallel_scope option \<times> ('h, 'j) rts" where
  "PopScope g s =
     (case ActiveScope (r_ctx s) of
        None \<Rightarrow> (None, s)
      | Some sc \<Rightarrow>
          (Some sc, recordOcc g OccScopePopped (\<lambda>occ. occ\<lparr>o_node := ps_fork sc\<rparr>)
                      (modify_ctx (\<lambda>c. c\<lparr>c_scopes := butlast (c_scopes c)\<rparr>) s)))"

definition VisitOf :: "string \<Rightarrow> ctx \<Rightarrow> nat" where
  "VisitOf n c = dget0 (c_visits c) n"

definition IncrVisit :: "('h, 'j) cfg \<Rightarrow> string \<Rightarrow> ('h, 'j) rts \<Rightarrow> ('h, 'j) rts" where
  "IncrVisit g n s =
     recordOcc g OccNodeVisited (\<lambda>occ. occ\<lparr>o_node := n\<rparr>)
       (modify_ctx (\<lambda>c. c\<lparr>c_visits := dput n (Suc (VisitOf n c)) (c_visits c)\<rparr>) s)"

subsection \<open>What recording leaves alone\<close>

lemma now_frame [frame_simps]:
  "r_ctx (snd (now g s)) = r_ctx s" "r_journal (snd (now g s)) = r_journal s"
  "r_host (snd (now g s)) = r_host s" "r_res (snd (now g s)) = r_res s"
  "r_journalErr (snd (now g s)) = r_journalErr s"
  by (simp_all add: now_def)

lemma recordOcc_frame [simp, frame_simps]:
  "r_ctx (recordOcc g k f s) = r_ctx s"
  "r_host (recordOcc g k f s) = r_host s"
  "r_res (recordOcc g k f s) = r_res s"
  by (simp_all add: recordOcc_def now_def split_def Let_def split: option.splits)

lemma modify_ctx_frame [simp]:
  "r_ctx (modify_ctx f s) = f (r_ctx s)" "r_journal (modify_ctx f s) = r_journal s"
  "r_host (modify_ctx f s) = r_host s" "r_res (modify_ctx f s) = r_res s"
  "r_tick (modify_ctx f s) = r_tick s" "r_journalErr (modify_ctx f s) = r_journalErr s"
  by (simp_all add: modify_ctx_def)

lemma add_error_frame [simp]:
  "r_ctx (add_error e s) = r_ctx s" "r_journal (add_error e s) = r_journal s"
  "r_host (add_error e s) = r_host s" "r_tick (add_error e s) = r_tick s"
  "r_journalErr (add_error e s) = r_journalErr s"
  "er_errors (r_res (add_error e s)) = er_errors (r_res s) @ [e]"
  by (simp_all add: add_error_def)

end
