(* ===== verification/Parallel.thy ===== *)
theory Parallel
  imports Context
begin

text \<open>
  Fork and join (\<open>src/dsl/parallel.go\<close>): the counts of a scope and its convergence test,
  the static inference of the join node by breadth-first search, the fork step and the
  arrival of a branch at a join. The code holds pointers to scopes and branches; here a
  scope is its position in the stack \<open>c_scopes\<close> (outermost first) and a branch its key in
  \<open>ps_branches\<close>, and \<open>put_branch\<close> writes through the pointer.
\<close>

subsection \<open>Counts and convergence\<close>

definition branches :: "parallel_scope \<Rightarrow> branch_state list" where
  "branches sc = map snd (ps_branches sc)"

definition doneCount :: "parallel_scope \<Rightarrow> nat" where
  "doneCount sc = length (filter b_done (branches sc))"

definition successCount :: "parallel_scope \<Rightarrow> nat" where
  "successCount sc = length (filter (\<lambda>b. b_status b = StatusCompleted) (branches sc))"

definition failedCount :: "parallel_scope \<Rightarrow> nat" where
  "failedCount sc = length (filter (\<lambda>b. b_status b = StatusFailed) (branches sc))"

definition satisfied :: "parallel_scope \<Rightarrow> bool" where
  "satisfied sc =
     (if ps_branches sc = [] then False
      else if ps_mode sc = ''any'' then successCount sc \<ge> 1
      else if ps_mode sc = ''n_of_m'' then
        int (successCount sc) \<ge> (if ps_required sc \<le> 0 then 1 else ps_required sc)
      else doneCount sc = length (ps_branches sc))"

definition elapsed :: "('h, 'j) cfg \<Rightarrow> parallel_scope \<Rightarrow> ('h, 'j) rts \<Rightarrow> int \<times> ('h, 'j) rts" where
  "elapsed g sc s = (let (t, s') = now g s in (t - ps_started sc, s'))"

definition defaultMode :: "string \<Rightarrow> string" where
  "defaultMode m = (if m = '''' then ''all'' else m)"

subsection \<open>Breadth-first distances\<close>

text \<open>The edges of one node: unseen existing targets get a distance and join the queue.\<close>

fun bfs_edges :: "node dict \<Rightarrow> string \<Rightarrow> nat \<Rightarrow> transition list \<Rightarrow> nat dict \<Rightarrow> string list \<Rightarrow> nat dict \<times> string list" where
  "bfs_edges nodes exclude d [] seen queue = (seen, queue)"
| "bfs_edges nodes exclude d (tr # trs) seen queue =
     (let nxt = tr_next tr
      in if nxt = '''' \<or> nxt = exclude \<or> dget seen nxt \<noteq> None \<or> dget nodes nxt = None
         then bfs_edges nodes exclude d trs seen queue
         else bfs_edges nodes exclude d trs (dput nxt (Suc d) seen) (queue @ [nxt]))"

definition unseen :: "node dict \<Rightarrow> nat dict \<Rightarrow> nat" where
  "unseen nodes seen = length (filter (\<lambda>k. dget seen k = None) (dkeys nodes))"

lemma unseen_dput_less:
  assumes "dget seen k = None" and "dget nodes k \<noteq> None"
  shows "unseen nodes (dput k d seen) < unseen nodes seen"
proof -
  let ?ks = "dkeys nodes"
  have k: "k \<in> set ?ks" using assms(2) by (simp add: dget_eq_None_iff)
  have eq: "filter (\<lambda>x. dget (dput k d seen) x = None) ?ks =
      filter (\<lambda>x. x \<noteq> k) (filter (\<lambda>x. dget seen x = None) ?ks)"
    unfolding filter_filter by (rule filter_cong) auto
  have "length (filter (\<lambda>x. x \<noteq> k) (filter (\<lambda>x. dget seen x = None) ?ks))
      < length (filter (\<lambda>x. dget seen x = None) ?ks)"
    by (rule length_filter_less [of k]) (use k assms(1) in auto)
  with eq show ?thesis by (simp add: unseen_def)
qed

lemma bfs_edges_measure:
  "bfs_edges nodes exclude d trs seen queue = (seen', queue') \<Longrightarrow>
   length queue' + unseen nodes seen' \<le> length queue + unseen nodes seen"
proof (induction trs arbitrary: seen queue)
  case Nil
  then show ?case by simp
next
  case (Cons tr trs)
  show ?case
  proof (cases "tr_next tr = '''' \<or> tr_next tr = exclude \<or> dget seen (tr_next tr) \<noteq> None
      \<or> dget nodes (tr_next tr) = None")
    case True
    with Cons show ?thesis by auto
  next
    case False
    with Cons.prems have "bfs_edges nodes exclude d trs (dput (tr_next tr) (Suc d) seen)
        (queue @ [tr_next tr]) = (seen', queue')"
      by (auto simp: Let_def)
    from Cons.IH [OF this] unseen_dput_less [of seen "tr_next tr" nodes "Suc d"] False
    show ?thesis by simp
  qed
qed

function bfs_loop :: "node dict \<Rightarrow> string \<Rightarrow> nat dict \<Rightarrow> string list \<Rightarrow> nat dict" where
  "bfs_loop nodes exclude seen [] = seen"
| "bfs_loop nodes exclude seen (cur # queue) =
     (case dget nodes cur of
        None \<Rightarrow> bfs_loop nodes exclude seen queue
      | Some n \<Rightarrow>
          let (seen', queue') = bfs_edges nodes exclude (dget0 seen cur) (n_trans n) seen queue
          in bfs_loop nodes exclude seen' queue')"
  by pat_completeness auto
termination
  by (relation "measure (\<lambda>(nodes, ex, seen, queue). length queue + unseen nodes seen)")
    (auto split: prod.splits dest: bfs_edges_measure)

definition bfsDistances :: "process_def \<Rightarrow> string \<Rightarrow> string \<Rightarrow> nat dict" where
  "bfsDistances def start exclude = bfs_loop (pd_nodes def) exclude [(start, 0)] [start]"

text \<open>
  Candidates common to all branches with the sum of their distances, then the least sum, ties
  by the least ID. The cache of \<open>resolveCommonJoin\<close> holds results of this function.
\<close>

definition add_distances :: "nat dict \<Rightarrow> nat dict \<Rightarrow> nat dict" where
  "add_distances cand seen =
     map (\<lambda>(k, d). (k, d + dget0 seen k)) (filter (\<lambda>(k, d). dget seen k \<noteq> None) cand)"

fun best_candidate :: "(string \<times> nat) list \<Rightarrow> (string \<times> nat) option \<Rightarrow> (string \<times> nat) option" where
  "best_candidate [] best = best"
| "best_candidate ((k, d) # cs) best =
     best_candidate cs
       (case best of
          None \<Rightarrow> Some (k, d)
        | Some (bk, bd) \<Rightarrow> if d < bd \<or> (d = bd \<and> k < bk) then Some (k, d) else Some (bk, bd))"

definition resolveCommonJoin :: "process_def \<Rightarrow> string \<Rightarrow> string list \<Rightarrow> string" where
  "resolveCommonJoin def fork starts =
     (case starts of
        [] \<Rightarrow> ''''
      | st # sts \<Rightarrow>
          (case best_candidate
                  (foldl (\<lambda>cand b. add_distances cand (bfsDistances def b fork))
                     (bfsDistances def st fork) sts) None of
             None \<Rightarrow> '''' | Some (k, d) \<Rightarrow> k))"

subsection \<open>The fork step\<close>

definition branchID :: "string \<Rightarrow> nat \<Rightarrow> string" where
  "branchID fork i = fork @ ''.b'' @ show_nat i"

definition new_branch :: "string \<Rightarrow> nat \<Rightarrow> string \<Rightarrow> branch_state" where
  "new_branch fork i nxt = \<lparr>b_id = branchID fork i, b_start = nxt, b_node = nxt,
     b_status = StatusRunning, b_actor = None, b_done = False, b_arrived = '''', b_finished = 0\<rparr>"

fun fork_branches :: "string \<Rightarrow> nat \<Rightarrow> transition list \<Rightarrow> err + branch_state list" where
  "fork_branches fork i [] = Inr []"
| "fork_branches fork i (tr # trs) =
     (if tr_next tr = '''' then Inl (EBranchNoNext fork i)
      else case fork_branches fork (Suc i) trs of
             Inl e \<Rightarrow> Inl e
           | Inr bs \<Rightarrow> Inr (new_branch fork i (tr_next tr) # bs))"

text \<open>The convergence fields the parallel node declares: fork mode, then its own join block.\<close>

definition parallel_config :: "node \<Rightarrow> string \<times> string \<times> string \<times> int \<times> int" where
  "parallel_config n =
     (let mode = (case n_fork n of None \<Rightarrow> ''all'' | Some f \<Rightarrow> defaultMode (fk_mode f));
          onFail = (case n_fork n of None \<Rightarrow> ''continue''
                    | Some f \<Rightarrow> if fk_onfail f \<noteq> '''' then fk_onfail f else ''continue'');
          joinNode = (case n_fork n of None \<Rightarrow> '''' | Some f \<Rightarrow> fk_join f)
      in case n_join n of
           None \<Rightarrow> (mode, onFail, joinNode, 0, 0)
         | Some j \<Rightarrow> (if jn_mode j \<noteq> '''' then defaultMode (jn_mode j) else mode, onFail, joinNode,
                      jn_required j, resolveJoinTimeout (jn_timeout j)))"

text \<open>What the join node itself declares fills the fields the parallel node leaves open.\<close>

definition join_overrides ::
  "process_def \<Rightarrow> node \<Rightarrow> string \<Rightarrow> string \<times> int \<times> int \<Rightarrow> string \<times> int \<times> int" where
  "join_overrides def n joinNode cfg3 =
     (case cfg3 of (mode, required, timeout) \<Rightarrow>
        (case dget (pd_nodes def) joinNode of
           None \<Rightarrow> cfg3
         | Some jn \<Rightarrow>
             if n_type jn \<noteq> ''join'' then cfg3
             else (case n_join jn of
                     None \<Rightarrow> cfg3
                   | Some j \<Rightarrow>
                       (case n_join n of
                          None \<Rightarrow> (if jn_mode j \<noteq> '''' then defaultMode (jn_mode j) else mode,
                                   jn_required j, resolveJoinTimeout (jn_timeout j))
                        | Some own \<Rightarrow>
                            (if jn_mode own = '''' \<and> jn_mode j \<noteq> '''' then defaultMode (jn_mode j) else mode,
                             if required = 0 \<and> jn_required j > 0 then jn_required j else required,
                             if timeout = 0 \<and> jn_timeout j \<noteq> ''''
                               then resolveJoinTimeout (jn_timeout j) else timeout)))))"

definition setWaiting :: "('h, 'j) cfg \<Rightarrow> string \<Rightarrow> waiting_state \<Rightarrow> ('h, 'j) rts \<Rightarrow> ('h, 'j) rts" where
  "setWaiting g slot w s =
     recordOcc g OccWaitingSet (\<lambda>occ. occ\<lparr>o_slot := slot, o_waiting := Some w\<rparr>)
       (modify_ctx (\<lambda>c. c\<lparr>c_waitings := dput slot w (c_waitings c)\<rparr>) s)"

definition stepParallel ::
  "('h, 'j) cfg \<Rightarrow> node \<Rightarrow> ('h, 'j) rts \<Rightarrow> (err + state_transition \<times> next_action list) \<times> ('h, 'j) rts" where
  "stepParallel g n s =
     (if n_trans n = [] then (Inl (EParallelNoBranch (n_id n)), s)
      else
        let (mode, onFail, declared, required, timeout) = parallel_config n;
            (t, s1) = now g s
        in case fork_branches (n_id n) 0 (n_trans n) of
             Inl e \<Rightarrow> (Inl e, s1)
           | Inr bs \<Rightarrow>
               let joinNode = (if declared = ''''
                     then resolveCommonJoin (g_def g) (n_id n) (map b_start bs) else declared);
                   (mode', required', timeout') =
                     join_overrides (g_def g) n joinNode (mode, required, timeout);
                   sc = \<lparr>ps_id = n_id n, ps_fork = n_id n, ps_join = joinNode, ps_mode = mode',
                         ps_onfail = onFail, ps_required = required', ps_timeout = timeout',
                         ps_started = t, ps_branches = map (\<lambda>b. (b_id b, b)) bs,
                         ps_status = StatusRunning\<rparr>;
                   s2 = (if timeout' > 0
                         then setWaiting g (scopeSlotID (n_id n))
                                \<lparr>w_kind = ''scope_timeout'', w_actor = Some systemPrincipal,
                                 w_node = n_id n, w_until = Some (t + timeout'),
                                 w_visit = VisitOf (n_id n) (r_ctx s1), w_next = '''', w_request = ''''\<rparr> s1
                         else s1);
                   s3 = modify_ctx (\<lambda>c. c\<lparr>c_node := n_id n\<rparr>) (PushScope g sc s2)
               in (Inr (\<lparr>st_from = n_id n, st_to = '''', st_event = '''', st_status = ''forked''\<rparr>,
                        map (\<lambda>b. ActRunBranch (b_start b) (b_id b)) bs), s3))"

subsection \<open>Branches in place\<close>

definition scopeAt :: "nat \<Rightarrow> ctx \<Rightarrow> parallel_scope option" where
  "scopeAt i c = (if i < length (c_scopes c) then Some (c_scopes c ! i) else None)"

definition getBranch :: "nat \<Rightarrow> string \<Rightarrow> ctx \<Rightarrow> branch_state option" where
  "getBranch i bid c = Option.bind (scopeAt i c) (\<lambda>sc. dget (ps_branches sc) bid)"

definition scopeFork :: "nat \<Rightarrow> ctx \<Rightarrow> string" where
  "scopeFork i c = (case scopeAt i c of None \<Rightarrow> '''' | Some sc \<Rightarrow> ps_fork sc)"

definition scopeOnFail :: "nat \<Rightarrow> ctx \<Rightarrow> string" where
  "scopeOnFail i c = (case scopeAt i c of None \<Rightarrow> '''' | Some sc \<Rightarrow> ps_onfail sc)"

definition put_branch :: "nat \<Rightarrow> branch_state \<Rightarrow> ctx \<Rightarrow> ctx" where
  "put_branch i b c = (case scopeAt i c of None \<Rightarrow> c
     | Some sc \<Rightarrow> c\<lparr>c_scopes := (c_scopes c)[i := sc\<lparr>ps_branches := dput (b_id b) b (ps_branches sc)\<rparr>]\<rparr>)"

definition set_join :: "nat \<Rightarrow> string \<Rightarrow> ctx \<Rightarrow> ctx" where
  "set_join i j c = (case scopeAt i c of None \<Rightarrow> c
     | Some sc \<Rightarrow> if ps_join sc = '''' then c\<lparr>c_scopes := (c_scopes c)[i := sc\<lparr>ps_join := j\<rparr>]\<rparr> else c)"

text \<open>The first scope that holds a branch ID, from the outermost.\<close>

fun index_of :: "('a \<Rightarrow> bool) \<Rightarrow> 'a list \<Rightarrow> nat option" where
  "index_of P [] = None"
| "index_of P (x # xs) = (if P x then Some 0 else map_option Suc (index_of P xs))"

definition scopeOfBranch :: "string \<Rightarrow> ctx \<Rightarrow> nat option" where
  "scopeOfBranch bid c = index_of (\<lambda>sc. dget (ps_branches sc) bid \<noteq> None) (c_scopes c)"

definition journalBranch :: "('h, 'j) cfg \<Rightarrow> nat \<Rightarrow> branch_state \<Rightarrow> ('h, 'j) rts \<Rightarrow> ('h, 'j) rts" where
  "journalBranch g i b s =
     recordOcc g OccBranchUpdated (\<lambda>occ. occ\<lparr>o_node := scopeFork i (r_ctx s), o_branch := Some b\<rparr>)
       (modify_ctx (put_branch i b) s)"

definition branchReachedJoin :: "('h, 'j) cfg \<Rightarrow> nat \<Rightarrow> branch_state \<Rightarrow> string \<Rightarrow> ('h, 'j) rts \<Rightarrow> ('h, 'j) rts" where
  "branchReachedJoin g i b joinNode s =
     (let (t, s1) = now g s;
          b' = b\<lparr>b_done := True, b_arrived := joinNode, b_status := StatusCompleted, b_finished := t\<rparr>;
          s2 = modify_ctx (put_branch i b') s1
      in case scopeOfBranch (b_id b) (r_ctx s2) of
           None \<Rightarrow> s2
         | Some j \<Rightarrow>
             recordOcc g OccBranchUpdated
               (\<lambda>occ. occ\<lparr>o_node := scopeFork j (r_ctx s2), o_branch := Some b'\<rparr>)
               (modify_ctx (set_join j joinNode) s2))"

subsection \<open>Facts on the counts\<close>

lemma successCount_le: "successCount sc \<le> length (ps_branches sc)"
  by (simp add: successCount_def branches_def)

lemma doneCount_le: "doneCount sc \<le> length (ps_branches sc)"
  by (simp add: doneCount_def branches_def)

lemma doneCount_all_iff:
  "doneCount sc = length (ps_branches sc) \<longleftrightarrow> (\<forall>b \<in> set (branches sc). b_done b)"
proof -
  have "length (ps_branches sc) = length (branches sc)" by (simp add: branches_def)
  then show ?thesis
    by (metis (no_types, lifting) doneCount_def filter_True length_filter_less nat_less_le)
qed

end
