(* ===== verification/Journal.thy ===== *)
theory Journal
  imports Parallel
begin

text \<open>
  The deterministic kernel (\<open>src/dsl/journal.go\<close>): the in-memory journal, the fold of a log
  into a context, time travel, the incremental replay after a snapshot, and the outbox and
  dead-letter views of a log. The interface \<open>Journal\<close>/\<open>JournalReader\<close>/\<open>JournalProgress\<close> is
  the locale \<open>fact_log\<close>, interpreted on the in-memory journal at the end.
\<close>

subsection \<open>The in-memory journal\<close>

record memory_journal =
  mj_occs :: "occurrence list"
  mj_next :: int
  mj_maxSeq :: "int dict"

definition NewMemoryJournal :: memory_journal where
  "NewMemoryJournal = \<lparr>mj_occs = [], mj_next = 0, mj_maxSeq = []\<rparr>"

definition memMaxSeq :: "memory_journal \<Rightarrow> string \<Rightarrow> int" where
  "memMaxSeq m iid = (case dget (mj_maxSeq m) iid of None \<Rightarrow> 0 | Some n \<Rightarrow> n)"

definition memAppend :: "memory_journal \<Rightarrow> occurrence \<Rightarrow> memory_journal \<times> err option" where
  "memAppend m occ =
     (let n = mj_next m + 1;
          occ' = occ\<lparr>o_seq := n\<rparr>;
          ms = (if n > memMaxSeq m (o_instance occ) then dput (o_instance occ) n (mj_maxSeq m)
                else mj_maxSeq m)
      in (m\<lparr>mj_occs := mj_occs m @ [occ'], mj_next := n, mj_maxSeq := ms\<rparr>, None))"

definition memOccurrences :: "memory_journal \<Rightarrow> occurrence list" where
  "memOccurrences m = mj_occs m"

definition memLoad :: "memory_journal \<Rightarrow> string \<Rightarrow> occurrence list" where
  "memLoad m iid = filter (\<lambda>occ. o_instance occ = iid) (mj_occs m)"

definition memLen :: "memory_journal \<Rightarrow> nat" where
  "memLen m = length (mj_occs m)"

subsection \<open>Folding a log\<close>

definition applyStatus :: "status \<Rightarrow> int \<Rightarrow> ctx \<Rightarrow> ctx" where
  "applyStatus st t c =
     (let c1 = c\<lparr>c_status := st, c_updated := t\<rparr>
      in if isTerminalStatus st then c1\<lparr>c_completed := t\<rparr> else c1)"

definition findScopeByFork :: "string \<Rightarrow> ctx \<Rightarrow> nat option" where
  "findScopeByFork fork c = index_of (\<lambda>sc. ps_fork sc = fork) (c_scopes c)"

definition applyEventConsumed :: "occurrence \<Rightarrow> ctx \<Rightarrow> ctx" where
  "applyEventConsumed occ c =
     (case o_event occ of
        None \<Rightarrow> c
      | Some e \<Rightarrow>
          let c1 = (if ev_id e \<noteq> '''' then c\<lparr>c_processed := dput (ev_id e) (o_time occ) (c_processed c)\<rparr> else c)
          in if ev_name e \<noteq> '''' then c1\<lparr>c_event := Some e\<rparr> else c1)"

definition applyBranchUpdated :: "occurrence \<Rightarrow> ctx \<Rightarrow> err + ctx" where
  "applyBranchUpdated occ c =
     (case o_branch occ of
        None \<Rightarrow> Inl (EBranchSnapshotMissing (o_seq occ))
      | Some b \<Rightarrow>
          (case findScopeByFork (o_node occ) c of
             None \<Rightarrow> Inl (EUnknownScope (o_seq occ) (b_id b) (o_node occ))
           | Some i \<Rightarrow>
               if getBranch i (b_id b) c = None
               then Inl (EUnknownBranch (o_seq occ) (b_id b) (o_node occ))
               else let c1 = put_branch i b c
                    in Inr (if b_arrived b \<noteq> '''' then set_join i (b_arrived b) c1 else c1)))"

definition fold_result :: "occurrence \<Rightarrow> effect_result" where
  "fold_result occ = \<lparr>sr_command = o_cmdid occ, sr_status = o_result occ,
     sr_error = o_errtext occ, sr_outcome = o_outcome occ, sr_permanent = False\<rparr>"

definition fire_undo :: "string \<Rightarrow> undo_entry list \<Rightarrow> undo_entry list" where
  "fire_undo k = map (\<lambda>u. if u_key u = k then u\<lparr>u_done := True\<rparr> else u)"

definition applyOcc :: "ctx \<Rightarrow> occurrence \<Rightarrow> err + ctx" where
  "applyOcc c occ =
     (case o_kind occ of
        OccStarted \<Rightarrow> Inr (c\<lparr>c_instance := o_instance occ, c_execution := o_execution occ\<rparr>)
      | OccEventConsumed \<Rightarrow> Inr (applyEventConsumed occ c)
      | OccEventReleased \<Rightarrow>
          Inr (case o_event occ of None \<Rightarrow> c
               | Some e \<Rightarrow> c\<lparr>c_processed := ddel (ev_id e) (c_processed c)\<rparr>)
      | OccNodeVisited \<Rightarrow>
          Inr (c\<lparr>c_visits := dput (o_node occ) (Suc (VisitOf (o_node occ) c)) (c_visits c)\<rparr>)
      | OccTransition \<Rightarrow> Inr (applyStatus StatusRunning (o_time occ) (c\<lparr>c_node := o_to occ\<rparr>))
      | OccNodeSet \<Rightarrow> Inr (c\<lparr>c_node := o_node occ\<rparr>)
      | OccStatus \<Rightarrow> Inr (applyStatus (ParseExecutionStatus (o_status occ)) (o_time occ) c)
      | OccVariableSet \<Rightarrow> Inr (c\<lparr>c_vars := dput (o_varkey occ) (o_varvalue occ) (c_vars c)\<rparr>)
      | OccScopePushed \<Rightarrow>
          (case o_scope occ of
             None \<Rightarrow> Inl (EScopeSnapshotMissing (o_seq occ))
           | Some sc \<Rightarrow> Inr (c\<lparr>c_scopes := c_scopes c @ [sc]\<rparr>))
      | OccScopePopped \<Rightarrow> Inr (c\<lparr>c_scopes := butlast (c_scopes c)\<rparr>)
      | OccBranchUpdated \<Rightarrow> applyBranchUpdated occ c
      | OccWaitingSet \<Rightarrow>
          (case o_waiting occ of
             None \<Rightarrow> Inl (EWaitingSnapshotMissing (o_seq occ))
           | Some w \<Rightarrow> Inr (c\<lparr>c_waitings := dput (o_slot occ) w (c_waitings c)\<rparr>))
      | OccWaitingCleared \<Rightarrow> Inr (c\<lparr>c_waitings := ddel (o_slot occ) (c_waitings c)\<rparr>)
      | OccWoke \<Rightarrow> Inr (c\<lparr>c_event := None, c_waitings := ddel (o_slot occ) (c_waitings c)\<rparr>)
      | OccCommandIssued \<Rightarrow> Inr c
      | OccDefActivated \<Rightarrow> Inr c
      | OccCommandResult \<Rightarrow> Inr (c\<lparr>c_results := c_results c @ [fold_result occ]\<rparr>)
      | OccCompensationPushed \<Rightarrow>
          Inr (case o_undo occ of None \<Rightarrow> c | Some u \<Rightarrow> c\<lparr>c_undo := c_undo c @ [u]\<rparr>)
      | OccCompensationFired \<Rightarrow> Inr (c\<lparr>c_undo := fire_undo (o_key occ) (c_undo c)\<rparr>))"

fun foldOnto :: "ctx \<Rightarrow> occurrence list \<Rightarrow> err + ctx" where
  "foldOnto c [] = Inr c"
| "foldOnto c (occ # occs) =
     (case applyOcc c occ of Inl e \<Rightarrow> Inl e | Inr c' \<Rightarrow> foldOnto c' occs)"

text \<open>\<open>foldContext\<close>, also exported as \<open>Fold\<close>; \<open>t\<close> is the time of the call.\<close>

definition foldContext :: "process_def \<Rightarrow> int \<Rightarrow> occurrence list \<Rightarrow> err + ctx" where
  "foldContext def t occs = foldOnto (NewExecutionContext def '''' '''' t) occs"

fun prefix_upto :: "occurrence list \<Rightarrow> int \<Rightarrow> occurrence list" where
  "prefix_upto [] bound = []"
| "prefix_upto (occ # occs) bound = (if o_seq occ > bound then [] else occ # prefix_upto occs bound)"

definition FoldTo :: "process_def \<Rightarrow> int \<Rightarrow> occurrence list \<Rightarrow> int \<Rightarrow> err + ctx" where
  "FoldTo def t occs bound = foldContext def t (prefix_upto occs bound)"

fun occurrencesAfter :: "occurrence list \<Rightarrow> int \<Rightarrow> occurrence list" where
  "occurrencesAfter [] after = []"
| "occurrencesAfter (occ # occs) after =
     (if o_seq occ > after then occ # occs else occurrencesAfter occs after)"

lemma foldOnto_append:
  "foldOnto c (xs @ ys) = (case foldOnto c xs of Inl e \<Rightarrow> Inl e | Inr c' \<Rightarrow> foldOnto c' ys)"
  by (induction xs arbitrary: c) (auto split: sum.splits)

lemma foldContext_snoc:
  "foldContext def t (xs @ [occ]) =
     (case foldContext def t xs of Inl e \<Rightarrow> Inl e | Inr c \<Rightarrow> applyOcc c occ)"
  by (auto simp: foldContext_def foldOnto_append split: sum.splits)

lemma prefix_after: "prefix_upto occs n @ occurrencesAfter occs n = occs"
  by (induction occs) auto

lemma prefix_upto_all: "\<forall>occ \<in> set occs. o_seq occ \<le> n \<Longrightarrow> prefix_upto occs n = occs"
  by (induction occs) auto

subsection \<open>The outbox view\<close>

text \<open>The loop keeps the unresolved commands by ID and the order in which IDs were first seen.\<close>

fun pending_loop :: "occurrence list \<Rightarrow> command dict \<Rightarrow> string list \<Rightarrow> command dict \<times> string list" where
  "pending_loop [] pending order = (pending, order)"
| "pending_loop (occ # occs) pending order =
     (case o_kind occ of
        OccCommandIssued \<Rightarrow>
          (case o_command occ of
             None \<Rightarrow> pending_loop occs pending order
           | Some cmd \<Rightarrow>
               pending_loop occs (dput (cmd_id cmd) cmd pending)
                 (if dget pending (cmd_id cmd) = None then order @ [cmd_id cmd] else order))
      | OccCommandResult \<Rightarrow> pending_loop occs (ddel (o_cmdid occ) pending) order
      | _ \<Rightarrow> pending_loop occs pending order)"

definition PendingCommands :: "occurrence list \<Rightarrow> command list" where
  "PendingCommands occs =
     (let (pending, order) = pending_loop occs [] []
      in List.map_filter (\<lambda>k. dget pending k) order)"

text \<open>The dead-letter view: per command the last issue, with the status of the last result.\<close>

fun failed_loop :: "occurrence list \<Rightarrow> (command \<times> string \<times> err option) dict \<Rightarrow> string list
    \<Rightarrow> (command \<times> string \<times> err option) dict \<times> string list" where
  "failed_loop [] issued order = (issued, order)"
| "failed_loop (occ # occs) issued order =
     (case o_kind occ of
        OccCommandIssued \<Rightarrow>
          (case o_command occ of
             None \<Rightarrow> failed_loop occs issued order
           | Some cmd \<Rightarrow>
               failed_loop occs (dput (cmd_id cmd) (cmd, '''', None) issued)
                 (if dget issued (cmd_id cmd) = None then order @ [cmd_id cmd] else order))
      | OccCommandResult \<Rightarrow>
          (case dget issued (o_cmdid occ) of
             None \<Rightarrow> failed_loop occs issued order
           | Some (cmd, st, e) \<Rightarrow>
               failed_loop occs (dput (o_cmdid occ) (cmd, o_result occ, o_errtext occ) issued) order)
      | _ \<Rightarrow> failed_loop occs issued order)"

definition FailedCommands :: "occurrence list \<Rightarrow> (command \<times> string \<times> err option) list" where
  "FailedCommands occs =
     (let (issued, order) = failed_loop occs [] []
      in filter (\<lambda>(cmd, st, e). st = ''failed'') (List.map_filter (\<lambda>k. dget issued k) order))"

end
