(* ===== verification/Effects.thy ===== *)
theory Effects
  imports Journal
begin

text \<open>
  What happens at a node besides choosing the next one: the data contract
  (\<open>src/dsl/contract.go\<close>: input and output mappings, the \<open>when\<close> chain), the delivery of side
  effects with retry (\<open>sideeffect.go\<close>, \<open>deliver\<close> and its callers in \<open>runtime.go\<close>) and the
  undo stack (\<open>compensate.go\<close>).
\<close>

subsection \<open>Data contract\<close>

definition mergeEnv :: "env \<Rightarrow> env \<Rightarrow> env" where
  "mergeEnv glob local = foldl (\<lambda>e (k, v). dput k v e) glob local"

fun eval_inputs ::
  "(string \<Rightarrow> env \<Rightarrow> err + val) \<Rightarrow> string \<Rightarrow> string dict \<Rightarrow> env \<Rightarrow> string list \<Rightarrow> env \<Rightarrow> err + env" where
  "eval_inputs ev nid input vars [] local = Inr local"
| "eval_inputs ev nid input vars (k # ks) local =
     (case dget input k of
        None \<Rightarrow> eval_inputs ev nid input vars ks local
      | Some expr \<Rightarrow>
          (case ev expr vars of
             Inl e \<Rightarrow> Inl (EInput nid k e)
           | Inr v \<Rightarrow> eval_inputs ev nid input vars ks (dput k v local)))"

text \<open>
  The merged environment of the node's view; the local part is not read on its own. Without
  inputs the view holds the map of the variables itself, not a copy, so that it shows what is
  written later: \<open>None\<close> is that alias, \<open>Some env\<close> a merged copy.
\<close>

type_synonym view = "env option"

definition view_env :: "view \<Rightarrow> ctx \<Rightarrow> env" where
  "view_env v c = (case v of None \<Rightarrow> c_vars c | Some env \<Rightarrow> env)"

definition enterNode :: "('h, 'j) cfg \<Rightarrow> node \<Rightarrow> ('h, 'j) rts \<Rightarrow> (err + view) \<times> ('h, 'j) rts" where
  "enterNode g n s =
     (if n_input n = [] then (Inr None, s)
      else case g_evaluateAny g of
             None \<Rightarrow> (Inl (ENoValueEngine (n_id n) ''input''), s)
           | Some ev \<Rightarrow>
               let (ks, s1) = rangeKeys g (n_input n) s
               in (case eval_inputs ev (n_id n) (n_input n) (c_vars (r_ctx s1)) ks [] of
                     Inl e \<Rightarrow> Inl e
                   | Inr local \<Rightarrow> Inr (Some (mergeEnv (c_vars (r_ctx s1)) local)), s1))"

text \<open>Outputs are written one by one: a later failure keeps the earlier writes.\<close>

fun write_outputs ::
  "('h, 'j) cfg \<Rightarrow> (string \<Rightarrow> env \<Rightarrow> err + val) \<Rightarrow> string \<Rightarrow> string dict \<Rightarrow> view \<Rightarrow> string list
    \<Rightarrow> ('h, 'j) rts \<Rightarrow> err option \<times> ('h, 'j) rts" where
  "write_outputs g ev nid output view [] s = (None, s)"
| "write_outputs g ev nid output view (k # ks) s =
     (case dget output k of
        None \<Rightarrow> write_outputs g ev nid output view ks s
      | Some expr \<Rightarrow>
          (case ev expr (view_env view (r_ctx s)) of
             Inl e \<Rightarrow> (Some (EOutputEval nid k e), s)
           | Inr v \<Rightarrow>
               (case (case dget (pd_schema (g_def g)) k of
                        None \<Rightarrow> None | Some t \<Rightarrow> checkAssignable k (Some t) v) of
                  Some e \<Rightarrow> (Some (EOutput nid e), s)
                | None \<Rightarrow> write_outputs g ev nid output view ks (SetVariable g k v s))))"

definition leaveNode :: "('h, 'j) cfg \<Rightarrow> node \<Rightarrow> view \<Rightarrow> ('h, 'j) rts \<Rightarrow> err option \<times> ('h, 'j) rts" where
  "leaveNode g n view s =
     (if n_output n = [] then (None, s)
      else case g_evaluateAny g of
             None \<Rightarrow> (Some (ENoValueEngine (n_id n) ''output''), s)
           | Some ev \<Rightarrow>
               let (ks, s1) = rangeKeys g (n_output n) s
               in write_outputs g ev (n_id n) (n_output n) view ks s1)"

text \<open>Entering a node and leaving it again, as an end node and a deadline do.\<close>

definition passNode :: "('h, 'j) cfg \<Rightarrow> node \<Rightarrow> ('h, 'j) rts \<Rightarrow> err option \<times> ('h, 'j) rts" where
  "passNode g n s =
     (case enterNode g n s of
        (Inl e, s1) \<Rightarrow> (Some e, s1)
      | (Inr view, s1) \<Rightarrow> leaveNode g n view s1)"

fun when_loop ::
  "(string \<Rightarrow> env \<Rightarrow> err + bool) \<Rightarrow> env \<Rightarrow> transition list \<Rightarrow> string option \<Rightarrow> err + string" where
  "when_loop ev view [] default_next = Inr (case default_next of None \<Rightarrow> '''' | Some n \<Rightarrow> n)"
| "when_loop ev view (tr # trs) default_next =
     (if tr_when tr = '''' then
        when_loop ev view trs (case default_next of None \<Rightarrow> Some (tr_next tr) | Some d \<Rightarrow> Some d)
      else (case ev (tr_when tr) view of
              Inl e \<Rightarrow> Inl (ECondition (tr_when tr) e)
            | Inr True \<Rightarrow> Inr (tr_next tr)
            | Inr False \<Rightarrow> when_loop ev view trs default_next))"

definition evalWhenChain :: "('h, 'j) cfg \<Rightarrow> node \<Rightarrow> env \<Rightarrow> err + string" where
  "evalWhenChain g n view = when_loop (g_evaluate g) view (n_trans n) None"

subsection \<open>Commands\<close>

definition commandID :: "string \<Rightarrow> string \<Rightarrow> nat \<Rightarrow> nat \<Rightarrow> string" where
  "commandID xid nid visit i =
     xid @ '':'' @ nid @ '':'' @ show_nat visit @ '':'' @ show_nat i"

definition ToCommand :: "side_effect \<Rightarrow> ctx \<Rightarrow> string \<Rightarrow> nat \<Rightarrow> command" where
  "ToCommand se c nid i = \<lparr>
     cmd_id = commandID (c_execution c) nid (VisitOf nid c) i, cmd_node = nid,
     cmd_type = se_type se, cmd_target = se_target se, cmd_payload = se_payload se,
     cmd_critical = se_critical se, cmd_compensation = se_compensation se\<rparr>"

fun node_commands :: "side_effect list \<Rightarrow> ctx \<Rightarrow> string \<Rightarrow> nat \<Rightarrow> command list" where
  "node_commands [] c nid i = []"
| "node_commands (se # ses) c nid i = ToCommand se c nid i # node_commands ses c nid (Suc i)"

subsection \<open>The orchestrator: bounded retry\<close>

fun retry_loop ::
  "('h \<Rightarrow> command \<Rightarrow> 'h \<times> effect_result) \<Rightarrow> command \<Rightarrow> nat \<Rightarrow> nat \<Rightarrow> err option \<Rightarrow> 'h \<Rightarrow> 'h \<times> effect_result" where
  "retry_loop handle cmd attempts 0 lastErr h =
     (h, \<lparr>sr_command = cmd_id cmd, sr_status = ''failed'',
          sr_error = Some (ERetries (cmd_id cmd) attempts (case lastErr of None \<Rightarrow> EText '''' | Some e \<Rightarrow> e)),
          sr_outcome = [], sr_permanent = False\<rparr>)"
| "retry_loop handle cmd attempts (Suc n) lastErr h =
     (let (h', res) = handle h cmd
      in case sr_error res of
           None \<Rightarrow> (h', res)
         | Some e \<Rightarrow> if sr_permanent res then (h', res)
                     else retry_loop handle cmd attempts n (Some e) h')"

definition orchestratorExecute :: "('h, 'j) cfg \<Rightarrow> command \<Rightarrow> 'h \<Rightarrow> 'h \<times> effect_result" where
  "orchestratorExecute g cmd h =
     (let attempts = (if g_maxRetry g > 0 then nat (g_maxRetry g) + 1 else 1)
      in retry_loop (g_handle g) cmd attempts attempts None h)"

subsection \<open>The in-memory executor\<close>

record memory_executor =
  mx_known :: "string list"
  mx_executed :: "string list"
  mx_outcomes :: "effect_result list"

definition NewInMemoryExecutor :: "string list \<Rightarrow> memory_executor" where
  "NewInMemoryExecutor known = \<lparr>mx_known = known, mx_executed = [], mx_outcomes = []\<rparr>"

definition memHandle :: "memory_executor \<Rightarrow> command \<Rightarrow> memory_executor \<times> effect_result" where
  "memHandle e cmd =
     (let res = \<lparr>sr_command = cmd_id cmd, sr_status = '''', sr_error = None, sr_outcome = [],
                 sr_permanent = False\<rparr>
      in if cmd_id cmd \<in> set (mx_executed e) then (e, res\<lparr>sr_status := ''skipped''\<rparr>)
         else if cmd_type cmd \<notin> set (mx_known e) then
           let r = res\<lparr>sr_status := ''failed'', sr_permanent := True,
                       sr_error := Some (EUnsupportedEffect (cmd_type cmd))\<rparr>
           in (e\<lparr>mx_outcomes := mx_outcomes e @ [r]\<rparr>, r)
         else
           let r = res\<lparr>sr_status := ''completed''\<rparr>
           in (e\<lparr>mx_executed := cmd_id cmd # mx_executed e, mx_outcomes := mx_outcomes e @ [r]\<rparr>, r))"

subsection \<open>Delivery and the undo stack\<close>

definition undoKey :: "nat \<Rightarrow> string \<Rightarrow> string" where
  "undoKey i cid = ''undo:'' @ show_nat i @ '':'' @ cid"

definition pushUndo :: "('h, 'j) cfg \<Rightarrow> undo_entry \<Rightarrow> ('h, 'j) rts \<Rightarrow> ('h, 'j) rts" where
  "pushUndo g u s =
     recordOcc g OccCompensationPushed (\<lambda>occ. occ\<lparr>o_undo := Some u\<rparr>)
       (modify_ctx (\<lambda>c. c\<lparr>c_undo := c_undo c @ [u]\<rparr>) s)"

definition recordCompensation :: "('h, 'j) cfg \<Rightarrow> command \<Rightarrow> effect_result \<Rightarrow> ('h, 'j) rts \<Rightarrow> ('h, 'j) rts" where
  "recordCompensation g cmd res s =
     (case cmd_compensation cmd of
        None \<Rightarrow> s
      | Some eff \<Rightarrow>
          if sr_status res \<noteq> ''completed'' then s
          else pushUndo g \<lparr>u_node = cmd_node cmd, u_command = cmd_id cmd,
                 u_key = undoKey (length (c_undo (r_ctx s))) (cmd_id cmd),
                 u_effect = eff, u_done = False\<rparr> s)"

definition errText :: "err option \<Rightarrow> err option" where
  "errText e = (if e = Some (EText '''') then None else e)"

definition addResult :: "('h, 'j) cfg \<Rightarrow> command \<Rightarrow> effect_result \<Rightarrow> ('h, 'j) rts \<Rightarrow> ('h, 'j) rts" where
  "addResult g cmd res s =
     recordOcc g OccCommandResult
       (\<lambda>occ. occ\<lparr>o_cmdid := cmd_id cmd, o_result := sr_status res, o_outcome := sr_outcome res,
                  o_errtext := errText (sr_error res)\<rparr>)
       (modify_ctx (\<lambda>c. c\<lparr>c_results := c_results c @ [res]\<rparr>) s)"

definition deliver :: "('h, 'j) cfg \<Rightarrow> command \<Rightarrow> ('h, 'j) rts \<Rightarrow> effect_result \<times> ('h, 'j) rts" where
  "deliver g cmd s =
     (let s1 = recordOcc g OccCommandIssued (\<lambda>occ. occ\<lparr>o_command := Some cmd\<rparr>) s;
          (h, res) = orchestratorExecute g cmd (r_host s1);
          s2 = addResult g cmd res (s1\<lparr>r_host := h\<rparr>)
      in (res, recordCompensation g cmd res s2))"

fun dispatchSideEffects :: "('h, 'j) cfg \<Rightarrow> command list \<Rightarrow> ('h, 'j) rts \<Rightarrow> command list \<times> ('h, 'j) rts" where
  "dispatchSideEffects g [] s = ([], s)"
| "dispatchSideEffects g (c # cs) s =
     (let (res, s1) = deliver g c s;
          (failed, s2) = dispatchSideEffects g cs s1
      in (if cmd_critical c \<and> sr_status res \<noteq> ''completed'' \<and> sr_status res \<noteq> ''skipped''
          then c # failed else failed, s2))"

definition add_effects :: "command list \<Rightarrow> ('h, 'j) rts \<Rightarrow> ('h, 'j) rts" where
  "add_effects cs s = s\<lparr>r_res := (r_res s)\<lparr>er_effects := er_effects (r_res s) @ cs\<rparr>\<rparr>"

definition emitNodeSideEffects :: "('h, 'j) cfg \<Rightarrow> node \<Rightarrow> ('h, 'j) rts \<Rightarrow> command list \<times> ('h, 'j) rts" where
  "emitNodeSideEffects g n s =
     (if n_effects n = [] then ([], s)
      else let cmds = node_commands (n_effects n) (r_ctx s) (n_id n) 0
           in dispatchSideEffects g cmds (add_effects cmds s))"

definition criticalFailureError :: "command list \<Rightarrow> err" where
  "criticalFailureError failed =
     (case failed of [] \<Rightarrow> ECritical '''' '''' | c # cs \<Rightarrow> ECritical (cmd_id c) (cmd_node c))"

text \<open>Marking an entry done and recording that its compensation fires.\<close>

definition fireUndo :: "('h, 'j) cfg \<Rightarrow> nat \<Rightarrow> ('h, 'j) rts \<Rightarrow> ('h, 'j) rts" where
  "fireUndo g i s =
     (let u = c_undo (r_ctx s) ! i
      in recordOcc g OccCompensationFired (\<lambda>occ. occ\<lparr>o_key := u_key u\<rparr>)
           (modify_ctx (\<lambda>c. c\<lparr>c_undo := (c_undo c)[i := u\<lparr>u_done := True\<rparr>]\<rparr>) s))"

definition undo_command :: "undo_entry \<Rightarrow> command" where
  "undo_command u = \<lparr>cmd_id = u_key u, cmd_node = u_node u, cmd_type = se_type (u_effect u),
     cmd_target = se_target (u_effect u), cmd_payload = se_payload (u_effect u),
     cmd_critical = False, cmd_compensation = None\<rparr>"

text \<open>The loop of \<open>compensate\<close>, from the top of the stack down; the argument is the entries left.\<close>

fun compensate_loop :: "('h, 'j) cfg \<Rightarrow> nat \<Rightarrow> ('h, 'j) rts \<Rightarrow> ('h, 'j) rts" where
  "compensate_loop g 0 s = s"
| "compensate_loop g (Suc i) s =
     (let u = c_undo (r_ctx s) ! i
      in if u_done u then compensate_loop g i s
         else let s1 = add_effects [undo_command u] (fireUndo g i s);
                  (res, s2) = deliver g (undo_command u) s1
              in compensate_loop g i s2)"

definition compensate :: "('h, 'j) cfg \<Rightarrow> ('h, 'j) rts \<Rightarrow> ('h, 'j) rts" where
  "compensate g s = compensate_loop g (length (c_undo (r_ctx s))) s"

text \<open>The exported \<open>Compensate\<close> returns the results added by this call; its commands go into a
  result of its own.\<close>

definition Compensate :: "('h, 'j) cfg \<Rightarrow> ('h, 'j) rts \<Rightarrow> effect_result list \<times> ('h, 'j) rts" where
  "Compensate g s =
     (let before = length (c_results (r_ctx s));
          s1 = (compensate g (s\<lparr>r_res := no_result\<rparr>))\<lparr>r_res := r_res s\<rparr>
      in (drop before (c_results (r_ctx s1)), s1))"

definition onFailure :: "('h, 'j) cfg \<Rightarrow> ('h, 'j) rts \<Rightarrow> ('h, 'j) rts" where
  "onFailure g s =
     (if \<not> g_autoCompensate g \<or> c_status (r_ctx s) \<noteq> StatusFailed then s else compensate g s)"

subsection \<open>The contract of an executor\<close>

text \<open>
  What the runtime relies on: a result names its command. An idempotent executor also knows
  the commands it has completed, keeps that knowledge, and skips them from then on.
\<close>

text \<open>The results of a series of deliveries, and how often a command completes in it.\<close>

fun deliveries :: "('h \<Rightarrow> command \<Rightarrow> 'h \<times> effect_result) \<Rightarrow> 'h \<Rightarrow> command list \<Rightarrow> effect_result list" where
  "deliveries handle h [] = []"
| "deliveries handle h (c # cs) = (let (h', r) = handle h c in r # deliveries handle h' cs)"

definition completions :: "string \<Rightarrow> effect_result list \<Rightarrow> nat" where
  "completions k rs = length (filter (\<lambda>r. sr_command r = k \<and> sr_status r = ''completed'') rs)"

locale effect_executor =
  fixes handle :: "'h \<Rightarrow> command \<Rightarrow> 'h \<times> effect_result"
  assumes echo: "sr_command (snd (handle h cmd)) = cmd_id cmd"
begin

lemma retry_echo: "sr_command (snd (retry_loop handle cmd attempts n e h)) = cmd_id cmd"
  by (induction n arbitrary: e h) (auto simp: split_def Let_def echo split: option.splits)

end

locale idempotent_executor = effect_executor +
  fixes completed :: "'h \<Rightarrow> string \<Rightarrow> bool"
  assumes completes: "sr_status (snd (handle h cmd)) = ''completed'' \<Longrightarrow> completed (fst (handle h cmd)) (cmd_id cmd)"
    and keeps: "completed h k \<Longrightarrow> completed (fst (handle h cmd)) k"
    and skips: "completed h (cmd_id cmd) \<Longrightarrow>
      fst (handle h cmd) = h \<and> sr_status (snd (handle h cmd)) = ''skipped'' \<and> sr_error (snd (handle h cmd)) = None"
begin

lemma completed_never_again: "completed h k \<Longrightarrow> completions k (deliveries handle h cs) = 0"
proof (induction cs arbitrary: h)
  case (Cons c cs)
  from Cons.IH [OF keeps [OF Cons.prems, of c]] Cons.prems echo [of h c] skips [of h c]
  show ?case by (auto simp: completions_def split_def Let_def)
qed (simp add: completions_def)

lemma at_most_once: "completions k (deliveries handle h cs) \<le> 1"
proof (induction cs arbitrary: h)
  case (Cons c cs)
  show ?case
  proof (cases "sr_command (snd (handle h c)) = k \<and> sr_status (snd (handle h c)) = ''completed''")
    case True
    with completes [of h c] echo [of h c] have "completed (fst (handle h c)) k" by simp
    from completed_never_again [OF this, of cs] show ?thesis
      by (simp add: completions_def split_def Let_def)
  next
    case False
    with Cons.IH [of "fst (handle h c)"] show ?thesis by (auto simp: completions_def split_def Let_def)
  qed
qed (simp add: completions_def)

text \<open>A retry after completion never runs the command again either.\<close>

lemma retry_skips:
  assumes "completed h (cmd_id cmd)"
  shows "retry_loop handle cmd attempts (Suc n) e h = (h, snd (handle h cmd))"
  using skips [OF assms] by (simp add: split_def Let_def)

end

definition memCompleted :: "memory_executor \<Rightarrow> string \<Rightarrow> bool" where
  "memCompleted e k \<longleftrightarrow> k \<in> set (mx_executed e)"

interpretation mem_exec: idempotent_executor memHandle memCompleted
  by unfold_locales (auto simp: memHandle_def memCompleted_def Let_def split: if_splits)

end
