(* ===== verification/AI.thy ===== *)
theory AI
  imports Effects
begin

text \<open>
  The ai node (\<open>src/dsl/ai.go\<close>): the callback payload, the routing under bounded agency, the
  prompt template and the inference request. A function that dereferences \<open>node.Ai\<close> returns
  an option: \<open>None\<close> is the nil-pointer panic on an ai node without an ai block, which the
  validator rejects.
\<close>

subsection \<open>The callback payload\<close>

record ai_result =
  ar_choice :: string
  ar_output :: env
  ar_error :: string
  ar_request :: string
  ar_model :: string
  ar_version :: string
  ar_prompt :: string

definition str_field :: "env \<Rightarrow> string \<Rightarrow> string" where
  "str_field p k = (case dget p k of Some (VStr s) \<Rightarrow> s | _ \<Rightarrow> '''')"

definition parseAIResult :: "env option \<Rightarrow> ai_result" where
  "parseAIResult payload =
     (case payload of
        None \<Rightarrow> \<lparr>ar_choice = '''', ar_output = [], ar_error = '''', ar_request = '''',
                 ar_model = '''', ar_version = '''', ar_prompt = ''''\<rparr>
      | Some p \<Rightarrow> \<lparr>ar_choice = str_field p ''choice'',
                   ar_output = (case dget p ''output'' of Some (VObj o') \<Rightarrow> o' | _ \<Rightarrow> []),
                   ar_error = str_field p ''error'', ar_request = str_field p ''request_id'',
                   ar_model = str_field p ''model'', ar_version = str_field p ''model_version'',
                   ar_prompt = str_field p ''prompt_version''\<rparr>)"

subsection \<open>Routing of a result\<close>

text \<open>The \<open>onError\<close> closure: escalate where the target exists, else fail the node.\<close>

definition ai_onError_route :: "process_def \<Rightarrow> node \<Rightarrow> ai_config \<Rightarrow> err \<Rightarrow> err + string" where
  "ai_onError_route def n ai reason =
     (if ai_onError ai \<noteq> '''' \<and> dget (pd_nodes def) (ai_onError ai) \<noteq> None
      then Inr (ai_onError ai) else Inl (EAi (n_id n) reason))"

text \<open>Declared outputs are checked and written one by one, in the order of the map range.\<close>

fun ai_outputs ::
  "('h, 'j) cfg \<Rightarrow> ty dict \<Rightarrow> env \<Rightarrow> string list \<Rightarrow> ('h, 'j) rts \<Rightarrow> err option \<times> ('h, 'j) rts" where
  "ai_outputs g types out [] s = (None, s)"
| "ai_outputs g types out (k # ks) s =
     (case dget types k of
        None \<Rightarrow> ai_outputs g types out ks s
      | Some t \<Rightarrow>
          (case dget out k of
             None \<Rightarrow> (Some (EOutputMissing k), s)
           | Some v \<Rightarrow>
               (case checkAssignable k (Some t) v of
                  Some e \<Rightarrow> (Some e, s)
                | None \<Rightarrow> ai_outputs g types out ks (SetVariable g k v s))))"

definition case_target :: "node \<Rightarrow> string \<Rightarrow> string option" where
  "case_target n choice = map_option tr_next (find (\<lambda>tr. tr_case tr = choice) (n_trans n))"

definition ai_choose_route :: "process_def \<Rightarrow> node \<Rightarrow> ai_config \<Rightarrow> string \<Rightarrow> err + string" where
  "ai_choose_route def n ai choice =
     (if choice = '''' then ai_onError_route def n ai EEmptyChoice
      else if choice \<notin> set (ai_choose ai) then ai_onError_route def n ai (EChoiceOutside choice)
      else case case_target n choice of
             Some nxt \<Rightarrow> Inr nxt
           | None \<Rightarrow> ai_onError_route def n ai (ENoCase choice))"

definition resolveAINext ::
  "('h, 'j) cfg \<Rightarrow> node \<Rightarrow> ai_result \<Rightarrow> ('h, 'j) rts \<Rightarrow> ((err + string) \<times> ('h, 'j) rts) option" where
  "resolveAINext g n res s =
     (case n_ai n of
        None \<Rightarrow> None
      | Some ai \<Rightarrow>
          Some (if ar_error res \<noteq> ''''
            then (ai_onError_route (g_def g) n ai (EInference (ar_error res)), s)
            else
              let (ks, s1) = rangeKeys g (ai_types ai) s;
                  (bad, s2) = ai_outputs g (ai_types ai) (ar_output res) ks s1
              in case bad of
                   Some e \<Rightarrow> (ai_onError_route (g_def g) n ai e, s2)
                 | None \<Rightarrow>
                     if ai_choose ai \<noteq> []
                     then (ai_choose_route (g_def g) n ai (ar_choice res), s2)
                     else (case evalWhenChain g n (c_vars (r_ctx s2)) of
                             Inl e \<Rightarrow> Inl e
                           | Inr nxt \<Rightarrow> if nxt \<noteq> '''' then Inr nxt else Inl (EAi (n_id n) ENoRoute), s2)))"

subsection \<open>The prompt template\<close>

definition isSpace :: "char \<Rightarrow> bool" where
  "isSpace c \<longleftrightarrow> c \<in> {CHR 0x09, CHR 0x0A, CHR 0x0C, CHR 0x0D, CHR '' ''}"

definition isIdentStart :: "char \<Rightarrow> bool" where
  "isIdentStart c \<longleftrightarrow> c \<in> set ''ABCDEFGHIJKLMNOPQRSTUVWXYZabcdefghijklmnopqrstuvwxyz_''"

definition isIdentChar :: "char \<Rightarrow> bool" where
  "isIdentChar c \<longleftrightarrow> isIdentStart c \<or> isDigit c"

text \<open>
  The regular expression of \<open>promptVarRe\<close>: an identifier, then more after dots; \<open>None\<close> when the
  string does not start with an identifier. The recursion consumes the string.
\<close>

function match_path :: "string \<Rightarrow> (string list \<times> string) option" where
  "match_path s =
     (if s = [] \<or> \<not> isIdentStart (hd s) then None
      else let i = takeWhile isIdentChar s; r = dropWhile isIdentChar s
           in if r = [] \<or> hd r \<noteq> CHR ''.'' then Some ([i], r)
              else case match_path (tl r) of
                     None \<Rightarrow> Some ([i], r)
                   | Some (is, r') \<Rightarrow> Some (i # is, r'))"
  by pat_completeness auto
termination
proof (relation "measure length")
  show "wf (measure length)" by simp
  fix s :: string and i r
  assume s: "\<not> (s = [] \<or> \<not> isIdentStart (hd s))"
    and r: "r = dropWhile isIdentChar s" and ne: "\<not> (r = [] \<or> hd r \<noteq> CHR ''.'')"
  have "length r \<le> length s" unfolding r by (rule length_dropWhile_le)
  with ne show "(tl r, s) \<in> measure length" by (cases r) auto
qed

declare match_path.simps [simp del]

definition match_placeholder :: "string \<Rightarrow> (string list \<times> string) option" where
  "match_placeholder s =
     (if take 2 s \<noteq> ''{{'' then None
      else case match_path (dropWhile isSpace (drop 2 s)) of
             None \<Rightarrow> None
           | Some (path, r) \<Rightarrow>
               let r1 = dropWhile isSpace r
               in if take 2 r1 = ''}}'' then Some (path, drop 2 r1) else None)"

fun walk_path :: "val \<Rightarrow> string list \<Rightarrow> val option" where
  "walk_path v [] = Some v"
| "walk_path (VObj kvs) (p # ps) = (case dget kvs p of None \<Rightarrow> None | Some v \<Rightarrow> walk_path v ps)"
| "walk_path _ (p # ps) = None"

definition lookup_path :: "env \<Rightarrow> string list \<Rightarrow> val option" where
  "lookup_path vars path =
     (case path of [] \<Rightarrow> None
      | p # ps \<Rightarrow> (case dget vars p of None \<Rightarrow> None | Some v \<Rightarrow> walk_path v ps))"

text \<open>\<open>n\<close> bounds the characters left; each round consumes one at least.\<close>

fun render_loop :: "(val \<Rightarrow> string) \<Rightarrow> env \<Rightarrow> nat \<Rightarrow> string \<Rightarrow> string" where
  "render_loop render vars 0 s = s"
| "render_loop render vars (Suc n) s =
     (case s of
        [] \<Rightarrow> []
      | c # cs \<Rightarrow>
          (case match_placeholder s of
             None \<Rightarrow> c # render_loop render vars n cs
           | Some (path, rest) \<Rightarrow>
               (case lookup_path vars path of
                  None \<Rightarrow> take (length s - length rest) s
                | Some v \<Rightarrow> render v) @ render_loop render vars n rest))"

definition renderPrompt :: "(val \<Rightarrow> string) \<Rightarrow> string \<Rightarrow> env \<Rightarrow> string" where
  "renderPrompt render tpl vars = render_loop render vars (length tpl) tpl"

subsection \<open>The inference request\<close>

definition aiRequestCommandID :: "string \<Rightarrow> string \<Rightarrow> nat \<Rightarrow> string \<Rightarrow> string" where
  "aiRequestCommandID xid nid visit slot =
     (let k = commandID xid nid visit 0
      in if slot \<noteq> instanceSlot then k @ '':'' @ slot else k)"

text \<open>
  The encoding fails when a raw output schema is not valid JSON (its flag is False), which a
  parsed definition cannot hold.
\<close>

definition buildAIRequest :: "(val \<Rightarrow> string) \<Rightarrow> node \<Rightarrow> ai_config \<Rightarrow> env \<Rightarrow> string \<Rightarrow> err + payload" where
  "buildAIRequest render n ai vars req =
     (if list_ex (\<lambda>(k, txt, ok). \<not> ok) (ai_specs ai) then Inl EMarshal
      else Inr (InferRequest \<lparr>iq_node = n_id n, iq_prompt = renderPrompt render (ai_prompt ai) vars,
             iq_callback = aiEventName n, iq_request = req,
             iq_schema = map (\<lambda>(k, txt, ok). (k, txt)) (ai_specs ai),
             iq_candidates = ai_choose ai\<rparr>))"

subsection \<open>Bounded agency\<close>

text \<open>The targets a definition gives an ai node.\<close>

definition declared_targets :: "node \<Rightarrow> ai_config \<Rightarrow> string set" where
  "declared_targets n ai = tr_next ` set (n_trans n) \<union> {ai_onError ai}"

lemma case_target_declared: "case_target n c = Some nxt \<Longrightarrow> nxt \<in> tr_next ` set (n_trans n)"
  by (auto simp: case_target_def find_Some_iff)

lemma when_loop_declared:
  "when_loop ev view trs d = Inr nxt \<Longrightarrow> nxt \<noteq> '''' \<Longrightarrow>
   nxt \<in> tr_next ` set trs \<or> d = Some nxt"
proof (induction trs arbitrary: d)
  case Nil
  then show ?case by (auto split: option.splits)
next
  case (Cons tr trs)
  show ?case
  proof (cases "tr_when tr = ''''")
    case True
    with Cons.prems
    have "when_loop ev view trs (case d of None \<Rightarrow> Some (tr_next tr) | Some x \<Rightarrow> Some x) = Inr nxt"
      by simp
    from Cons.IH [OF this Cons.prems(2)] show ?thesis by (auto split: option.splits)
  next
    case False
    with Cons show ?thesis by (auto split: sum.splits bool.splits)
  qed
qed

lemma ai_onError_route_declared: "ai_onError_route def n ai e = Inr nxt \<Longrightarrow> nxt = ai_onError ai"
  by (auto simp: ai_onError_route_def split: if_splits)

lemma ai_choose_route_declared: "ai_choose_route def n ai c = Inr nxt \<Longrightarrow> nxt \<in> declared_targets n ai"
  by (auto simp: ai_choose_route_def declared_targets_def
      split: if_splits option.splits dest: ai_onError_route_declared case_target_declared)

end
