(* ===== verification/Executor.thy ===== *)
theory Executor
  imports AI
begin

text \<open>
  The pure decision of one node (\<open>src/dsl/executor.go\<close>): the legacy single step
  \<open>Execute\<close>, and \<open>Step\<close>, which decides the transition of the current node, raises its side
  effects to commands and writes the context. \<open>Step\<close> fills a result of its own, which the
  runtime merges; \<open>None\<close> is the panic of an ai node without an ai block.
\<close>

subsection \<open>The legacy single step\<close>

record execution_output =
  eo_next :: string
  eo_effects :: "side_effect list"
  eo_status :: string
  eo_error :: "err option"

definition running_output :: "node \<Rightarrow> string \<Rightarrow> execution_output" where
  "running_output n nxt = \<lparr>eo_next = nxt, eo_effects = n_effects n, eo_status = ''running'', eo_error = None\<rparr>"

definition error_output :: "err \<Rightarrow> execution_output" where
  "error_output e = \<lparr>eo_next = '''', eo_effects = [], eo_status = ''error'', eo_error = Some e\<rparr>"

text \<open>
  The scan of a condition node: \<open>Inl\<close> an evaluation error, \<open>Inr (Some nxt)\<close> a branch or the
  first transition without \<open>when\<close>, \<open>Inr None\<close> to fall back on the event.
\<close>

fun condition_scan ::
  "(string \<Rightarrow> env \<Rightarrow> err + bool) \<Rightarrow> env \<Rightarrow> transition list \<Rightarrow> string option \<Rightarrow> err + string option" where
  "condition_scan ev vars [] default_next = Inr default_next"
| "condition_scan ev vars (tr # trs) default_next =
     (if tr_when tr = '''' then
        condition_scan ev vars trs (case default_next of None \<Rightarrow> Some (tr_next tr) | Some d \<Rightarrow> Some d)
      else (case ev (tr_when tr) vars of
              Inl e \<Rightarrow> Inl (ECondition (tr_when tr) e)
            | Inr True \<Rightarrow> Inr (Some (tr_next tr))
            | Inr False \<Rightarrow> condition_scan ev vars trs default_next))"

definition Execute ::
  "(string \<Rightarrow> env \<Rightarrow> err + bool) \<Rightarrow> process_def \<Rightarrow> string \<Rightarrow> string \<Rightarrow> env \<Rightarrow> execution_output" where
  "Execute ev def cur e vars =
     (case dget (pd_nodes def) cur of
        None \<Rightarrow> error_output (ENodeNotFound cur)
      | Some n \<Rightarrow>
          if n_type n = ''end'' then
            \<lparr>eo_next = '''', eo_effects = n_effects n, eo_status = ''completed'', eo_error = None\<rparr>
          else
            (case (if n_type n = ''condition'' then condition_scan ev vars (n_trans n) None else Inr None) of
               Inl err \<Rightarrow> error_output err
             | Inr (Some nxt) \<Rightarrow> running_output n nxt
             | Inr None \<Rightarrow>
                 (case find (\<lambda>tr. tr_event tr = e) (n_trans n) of
                    Some tr \<Rightarrow> running_output n (tr_next tr)
                  | None \<Rightarrow> error_output (EEventNotDefined e cur))))"

definition ExecuteFirstStep ::
  "(string \<Rightarrow> env \<Rightarrow> err + bool) \<Rightarrow> process_def \<Rightarrow> env \<Rightarrow> execution_output" where
  "ExecuteFirstStep ev def vars = Execute ev def (pd_start def) ''submit'' vars"

definition ExecuteStep ::
  "(string \<Rightarrow> env \<Rightarrow> err + bool) \<Rightarrow> process_def \<Rightarrow> string \<Rightarrow> string \<Rightarrow> env \<Rightarrow> execution_output" where
  "ExecuteStep ev def cur e vars = Execute ev def cur e vars"

definition GetNextSteps :: "process_def \<Rightarrow> string \<Rightarrow> transition list" where
  "GetNextSteps def cur = (case dget (pd_nodes def) cur of None \<Rightarrow> [] | Some n \<Rightarrow> n_trans n)"

definition GetCurrentNode :: "process_def option \<Rightarrow> string \<Rightarrow> node option" where
  "GetCurrentNode def cur = (case def of None \<Rightarrow> None | Some d \<Rightarrow> dget (pd_nodes d) cur)"

definition IsEndNodeByDef :: "process_def option \<Rightarrow> string \<Rightarrow> bool" where
  "IsEndNodeByDef def nid =
     (case def of
        None \<Rightarrow> False
      | Some d \<Rightarrow> (case dget (pd_nodes d) nid of None \<Rightarrow> False | Some n \<Rightarrow> n_type n = ''end''))"

subsection \<open>Outcomes of a step\<close>

definition assignTransition ::
  "('h, 'j) cfg \<Rightarrow> string \<Rightarrow> string \<Rightarrow> string \<Rightarrow> exec_result \<Rightarrow> ('h, 'j) rts \<Rightarrow> exec_result \<times> ('h, 'j) rts" where
  "assignTransition g from to ev res s =
     (let s1 = modify_ctx (\<lambda>c. c\<lparr>c_node := to\<rparr>) (setStatus g StatusRunning s);
          s2 = recordOcc g OccTransition
                 (\<lambda>occ. let occ1 = occ\<lparr>o_from := from, o_to := to, o_tevent := ev\<rparr>
                        in if ev = ''deadline'' \<or> ev = ''timer'' \<or> ev = ''wake''
                           then occ1\<lparr>o_actor := Some systemPrincipal\<rparr> else occ1) s1
      in (res\<lparr>er_transition := Some \<lparr>st_from = from, st_to = to, st_event = ev, st_status = ''running''\<rparr>,
              er_actions := er_actions res @ [ActTransition to]\<rparr>, s2))"

text \<open>The step ends in failure: the error, status failed, and a transition that says so.\<close>

definition fail_step ::
  "('h, 'j) cfg \<Rightarrow> string \<Rightarrow> string \<Rightarrow> err \<Rightarrow> exec_result \<Rightarrow> ('h, 'j) rts \<Rightarrow> exec_result \<times> ('h, 'j) rts" where
  "fail_step g from ev e res s =
     (res\<lparr>er_errors := er_errors res @ [e],
          er_transition := Some \<lparr>st_from = from, st_to = '''', st_event = ev, st_status = ''failed''\<rparr>\<rparr>,
      setStatus g StatusFailed s)"

definition finishTransition ::
  "('h, 'j) cfg \<Rightarrow> node \<Rightarrow> view \<Rightarrow> string \<Rightarrow> string \<Rightarrow> exec_result \<Rightarrow> ('h, 'j) rts \<Rightarrow> exec_result \<times> ('h, 'j) rts" where
  "finishTransition g n view to ev res s =
     (case leaveNode g n view s of
        (Some e, s1) \<Rightarrow> fail_step g (n_id n) ev e res s1
      | (None, s1) \<Rightarrow> assignTransition g (n_id n) to ev res s1)"

definition currentEventName :: "ctx \<Rightarrow> string" where
  "currentEventName c = (case c_event c of None \<Rightarrow> '''' | Some e \<Rightarrow> ev_name e)"

text \<open>
  The transition by event name, then the automatic one: \<open>Some nxt\<close> when either applies. A
  condition or a waiting node has no automatic transition.
\<close>

definition event_or_auto :: "node \<Rightarrow> string \<Rightarrow> string option" where
  "event_or_auto n ev =
     (case find (\<lambda>tr. tr_event tr = ev) (n_trans n) of
        Some tr \<Rightarrow> Some (tr_next tr)
      | None \<Rightarrow>
          if n_type n \<noteq> ''condition'' \<and> \<not> isWaitingNode (Some n)
          then map_option tr_next (find (\<lambda>tr. tr_next tr \<noteq> '''') (n_trans n)) else None)"

definition routes_by_when :: "node \<Rightarrow> bool" where
  "routes_by_when n \<longleftrightarrow> n_type n = ''condition'' \<or> n_type n = ''join'' \<or> n_type n = ''timer''"

definition stepSelectTransition ::
  "('h, 'j) cfg \<Rightarrow> node \<Rightarrow> exec_result \<Rightarrow> ('h, 'j) rts \<Rightarrow> exec_result \<times> ('h, 'j) rts" where
  "stepSelectTransition g n res s =
     (let ev = currentEventName (r_ctx s)
      in case enterNode g n s of
           (Inl e, s1) \<Rightarrow> fail_step g (n_id n) ev e res s1
         | (Inr view, s1) \<Rightarrow>
             (case (if routes_by_when n then evalWhenChain g n (view_env view (r_ctx s1)) else Inr '''') of
                Inl e \<Rightarrow> fail_step g (n_id n) ev e res s1
              | Inr nxt \<Rightarrow>
                  if nxt \<noteq> '''' then finishTransition g n view nxt ev res s1
                  else (case event_or_auto n ev of
                          Some to \<Rightarrow> finishTransition g n view to ev res s1
                        | None \<Rightarrow> fail_step g (n_id n) ev (EEventNotDefined ev (n_id n)) res s1)))"

definition stepProcessAI ::
  "('h, 'j) cfg \<Rightarrow> node \<Rightarrow> exec_result \<Rightarrow> ('h, 'j) rts \<Rightarrow> (exec_result \<times> ('h, 'j) rts) option" where
  "stepProcessAI g n res s =
     (let ev = currentEventName (r_ctx s)
      in if ev \<noteq> aiEventName n
         then Some (fail_step g (n_id n) ev (ENotAICallback ev (aiEventName n) (n_id n)) res s)
         else (case c_event (r_ctx s) of
                 None \<Rightarrow> None
               | Some e \<Rightarrow>
                   do { (nxt, s1) \<leftarrow> resolveAINext g n (parseAIResult (ev_payload e)) s;
                        Some (case nxt of
                                Inl er \<Rightarrow> fail_step g (n_id n) ev er res s1
                              | Inr to \<Rightarrow> assignTransition g (n_id n) to ev res s1) }))"

definition stepEnd ::
  "('h, 'j) cfg \<Rightarrow> node \<Rightarrow> exec_result \<Rightarrow> ('h, 'j) rts \<Rightarrow> exec_result \<times> ('h, 'j) rts" where
  "stepEnd g n res s =
     (let (bad, s2) = passNode g n s
      in case bad of
           Some e \<Rightarrow> fail_step g (n_id n) '''' e res s2
         | None \<Rightarrow>
             (res\<lparr>er_transition := Some \<lparr>st_from = n_id n, st_to = '''', st_event = '''', st_status = ''completed''\<rparr>,
                  er_actions := er_actions res @ [ActComplete]\<rparr>,
              setStatus g StatusCompleted s2))"

definition stepFork ::
  "('h, 'j) cfg \<Rightarrow> node \<Rightarrow> exec_result \<Rightarrow> ('h, 'j) rts \<Rightarrow> exec_result \<times> ('h, 'j) rts" where
  "stepFork g n res s =
     (case stepParallel g n s of
        (Inl e, s2) \<Rightarrow> (res\<lparr>er_errors := er_errors res @ [e]\<rparr>, setStatus g StatusFailed s2)
      | (Inr (tr, actions), s2) \<Rightarrow> (res\<lparr>er_transition := Some tr, er_actions := actions\<rparr>, s2))"

subsection \<open>Step\<close>

definition Step :: "('h, 'j) cfg \<Rightarrow> ('h, 'j) rts \<Rightarrow> (exec_result \<times> ('h, 'j) rts) option" where
  "Step g s =
     (case dget (pd_nodes (g_def g)) (c_node (r_ctx s)) of
        None \<Rightarrow> Some (fail_step g (c_node (r_ctx s)) '''' (ENodeNotFound (c_node (r_ctx s))) no_result s)
      | Some n \<Rightarrow>
          let s1 = IncrVisit g (n_id n) s;
              res = no_result\<lparr>er_effects := node_commands (n_effects n) (r_ctx s1) (n_id n) 0\<rparr>
          in if n_type n = ''end'' then Some (stepEnd g n res s1)
             else if n_type n = ''parallel'' then
               Some (stepFork g n res s1)
             else if n_type n = ''ai'' then stepProcessAI g n res s1
             else Some (stepSelectTransition g n res s1))"

end
