(* ===== verification/Temporal.thy ===== *)
theory Temporal
  imports Executor
begin

text \<open>
  Waiting slots (\<open>src/dsl/temporal.go\<close>) and parking on a waiting node (\<open>parkInstance\<close> and
  \<open>emitAIRequest\<close> of \<open>runtime.go\<close>). The expressions \<open>for _, w := range r.Ctx.Waitings\<close> visit
  the slots in the order \<open>ks\<close>.
\<close>

subsection \<open>Registering and clearing\<close>

text \<open>
  What a node registers when it parks: the kind, the delay and the escalation target;
  \<open>None\<close> when nothing is registered.
\<close>

definition park_spec :: "node \<Rightarrow> (string \<times> int option \<times> string) option" where
  "park_spec n =
     (let deadline = (\<lambda>kind. case n_deadline n of
            None \<Rightarrow> None
          | Some dl \<Rightarrow>
              (case parseDurationStrict (dl_after dl) ''deadline after'' of
                 Inl e \<Rightarrow> None
               | Inr d \<Rightarrow> Some (kind, Some d, dl_next dl)))
      in if n_type n = ''timer'' then
           (case parseDurationStrict (n_duration n) ''timer duration'' of
              Inl e \<Rightarrow> None | Inr d \<Rightarrow> Some (''timer'', Some d, ''''))
         else if n_type n = ''ai'' then
           (if n_deadline n = None then Some (''ai_request'', None, '''') else deadline ''ai_request'')
         else if n_type n = ''approval'' \<or> n_type n = ''subprocess'' then deadline ''deadline''
         else None)"

definition parkWaiting :: "('h, 'j) cfg \<Rightarrow> string \<Rightarrow> node \<Rightarrow> ('h, 'j) rts \<Rightarrow> ('h, 'j) rts" where
  "parkWaiting g slot n s =
     (if (case dget (c_waitings (r_ctx s)) slot of None \<Rightarrow> False | Some w \<Rightarrow> w_node w = n_id n) then s
      else case park_spec n of
             None \<Rightarrow> s
           | Some (kind, delay, nxt) \<Rightarrow>
               let (until, s1) = (case delay of
                     None \<Rightarrow> (None, s)
                   | Some d \<Rightarrow> let (t, s1) = now g s in (Some (t + d), s1))
               in setWaiting g slot
                    \<lparr>w_kind = kind, w_actor = Some systemPrincipal, w_node = n_id n, w_until = until,
                     w_visit = VisitOf (n_id n) (r_ctx s), w_next = nxt, w_request = ''''\<rparr> s1)"

definition clearWaiting :: "('h, 'j) cfg \<Rightarrow> string \<Rightarrow> ('h, 'j) rts \<Rightarrow> ('h, 'j) rts" where
  "clearWaiting g slot s =
     (if dget (c_waitings (r_ctx s)) slot = None then s
      else recordOcc g OccWaitingCleared (\<lambda>occ. occ\<lparr>o_slot := slot\<rparr>)
             (modify_ctx (\<lambda>c. c\<lparr>c_waitings := ddel slot (c_waitings c)\<rparr>) s))"

subsection \<open>The time axis\<close>

fun wakeup_loop :: "string list \<Rightarrow> waiting_state dict \<Rightarrow> int option \<Rightarrow> int option" where
  "wakeup_loop [] ws best = best"
| "wakeup_loop (k # ks) ws best =
     wakeup_loop ks ws
       (case dget ws k of
          None \<Rightarrow> best
        | Some w \<Rightarrow>
            (case w_until w of
               None \<Rightarrow> best
             | Some u \<Rightarrow> (case best of None \<Rightarrow> Some u | Some b \<Rightarrow> if u < b then Some u else best)))"

definition NextWakeup :: "string list \<Rightarrow> ctx \<Rightarrow> int option" where
  "NextWakeup ks c = wakeup_loop ks (c_waitings c) None"

text \<open>The slot that is due first; among equal times the least slot name.\<close>

fun due_loop ::
  "string list \<Rightarrow> waiting_state dict \<Rightarrow> int \<Rightarrow> (string \<times> waiting_state \<times> int) option
    \<Rightarrow> (string \<times> waiting_state \<times> int) option" where
  "due_loop [] ws t best = best"
| "due_loop (k # ks) ws t best =
     due_loop ks ws t
       (case dget ws k of
          None \<Rightarrow> best
        | Some w \<Rightarrow>
            (case w_until w of
               None \<Rightarrow> best
             | Some u \<Rightarrow>
                 if u > t then best
                 else (case best of
                         None \<Rightarrow> Some (k, w, u)
                       | Some (bk, bw, bu) \<Rightarrow>
                           if u < bu \<or> (u = bu \<and> k < bk) then Some (k, w, u) else best)))"

definition nextDueWaiting :: "string list \<Rightarrow> int \<Rightarrow> ctx \<Rightarrow> (string \<times> waiting_state) option" where
  "nextDueWaiting ks t c =
     map_option (\<lambda>(k, w, u). (k, w)) (due_loop ks (c_waitings c) t None)"

definition wakeID :: "string \<Rightarrow> waiting_state \<Rightarrow> string" where
  "wakeID slot w = ''wake:'' @ slot @ '':'' @ w_kind w @ '':'' @ show_nat (w_visit w)"

text \<open>The innermost scope of a fork node.\<close>

definition scopeByFork :: "string \<Rightarrow> ctx \<Rightarrow> nat option" where
  "scopeByFork fork c =
     (let is = filter (\<lambda>i. ps_fork (c_scopes c ! i) = fork) [0..<length (c_scopes c)]
      in if is = [] then None else Some (last is))"

subsection \<open>Parking\<close>

text \<open>
  The request is delivered like any command, its ID first written into the slot. \<open>None\<close> is the
  panic on an ai node without an ai block.
\<close>

definition emitAIRequest :: "('h, 'j) cfg \<Rightarrow> node \<Rightarrow> string \<Rightarrow> ('h, 'j) rts \<Rightarrow> ('h, 'j) rts option" where
  "emitAIRequest g n slot s =
     (let cid = aiRequestCommandID (c_execution (r_ctx s)) (n_id n) (VisitOf (n_id n) (r_ctx s)) slot
      in case n_ai n of
           None \<Rightarrow> None
         | Some ai \<Rightarrow>
             Some (case buildAIRequest (g_render g) n ai (c_vars (r_ctx s)) cid of
                     Inl e \<Rightarrow> setStatus g StatusFailed (add_error (EBuildRequest (n_id n) e) s)
                   | Inr raw \<Rightarrow>
                       let s1 = (case dget (c_waitings (r_ctx s)) slot of
                             None \<Rightarrow> s
                           | Some w \<Rightarrow> setWaiting g slot (w\<lparr>w_request := cid\<rparr>) s)
                       in snd (deliver g \<lparr>cmd_id = cid, cmd_node = n_id n, cmd_type = aiCommandType n,
                                 cmd_target = aiCommandTarget n, cmd_payload = raw,
                                 cmd_critical = False, cmd_compensation = None\<rparr> s1)))"

text \<open>\<open>advanceBranch\<close> does for its branch slot, in line, what \<open>parkInstance\<close> does.\<close>

definition parkAt :: "('h, 'j) cfg \<Rightarrow> string \<Rightarrow> node \<Rightarrow> ('h, 'j) rts \<Rightarrow> ('h, 'j) rts option" where
  "parkAt g slot n s =
     (let s1 = (if n_type n = ''ai'' then IncrVisit g (n_id n) s else s);
          s2 = parkWaiting g slot n s1
      in if n_type n = ''ai'' then emitAIRequest g n slot s2 else Some s2)"

definition parkInstance :: "('h, 'j) cfg \<Rightarrow> node \<Rightarrow> ('h, 'j) rts \<Rightarrow> ('h, 'j) rts option" where
  "parkInstance g n s = parkAt g instanceSlot n s"

end
