(* ===== verification/Branch.thy ===== *)
theory Branch
  imports Temporal
begin

text \<open>
  The advance of one branch of a scope (\<open>src/dsl/runtime.go\<close>, from \<open>visitExceeded\<close> to
  \<open>cancelPendingBranches\<close>): automatic nodes up to a waiting node, a join or an end
  (\<open>advanceBranch\<close>), an event or an inference result that resumes a waiting branch
  (\<open>feedBranch\<close>, \<open>feedAI\<close>) and a timer that fires on it. A branch is named by the position
  of its scope and its ID; the pointer the code holds is read back from the context in
  every round. \<open>None\<close> is a Go panic.
\<close>

subsection \<open>The runaway breaker\<close>

definition defaultMaxNodeVisits :: int where
  "defaultMaxNodeVisits = 500"

definition maxNodeVisits :: "('h, 'j) cfg \<Rightarrow> int" where
  "maxNodeVisits g =
     (if g_maxNodeVisits g > 0 then g_maxNodeVisits g
      else if g_maxNodeVisits g < 0 then 2 ^ 63 - 1 else defaultMaxNodeVisits)"

definition visitExceeded :: "('h, 'j) cfg \<Rightarrow> string \<Rightarrow> ctx \<Rightarrow> bool" where
  "visitExceeded g nid c =
     (if nid = '''' \<or> g_maxNodeVisits g < 0 then False
      else int (VisitOf nid c) \<ge> maxNodeVisits g)"

definition maxBranchSteps :: nat where
  "maxBranchSteps = 200"

subsection \<open>Ends of a branch\<close>

definition failBranch :: "('h, 'j) cfg \<Rightarrow> nat \<Rightarrow> branch_state \<Rightarrow> err \<Rightarrow> ('h, 'j) rts \<Rightarrow> ('h, 'j) rts" where
  "failBranch g i b e s =
     (let s1 = journalBranch g i (b\<lparr>b_status := StatusFailed, b_done := True\<rparr>) s
      in if scopeOnFail i (r_ctx s1) = ''fail'' then add_error e s1 else s1)"

definition waitBranch :: "('h, 'j) cfg \<Rightarrow> nat \<Rightarrow> branch_state \<Rightarrow> ('h, 'j) rts \<Rightarrow> ('h, 'j) rts" where
  "waitBranch g i b s = journalBranch g i (b\<lparr>b_status := StatusWaiting\<rparr>) s"

definition endBranch :: "('h, 'j) cfg \<Rightarrow> nat \<Rightarrow> branch_state \<Rightarrow> status \<Rightarrow> ('h, 'j) rts \<Rightarrow> ('h, 'j) rts" where
  "endBranch g i b st s =
     (let (t, s1) = now g s
      in journalBranch g i (b\<lparr>b_done := True, b_status := st, b_finished := t\<rparr>) s1)"

definition moveBranch :: "('h, 'j) cfg \<Rightarrow> nat \<Rightarrow> branch_state \<Rightarrow> string \<Rightarrow> ('h, 'j) rts \<Rightarrow> ('h, 'j) rts" where
  "moveBranch g i b nxt s = journalBranch g i (b\<lparr>b_node := nxt\<rparr>) s"

text \<open>
  Leaving a node on a branch: outputs, side effects, then the move. \<open>Inl\<close> when the branch
  failed, \<open>Inr\<close> when it moved.
\<close>

definition departBranch ::
  "('h, 'j) cfg \<Rightarrow> nat \<Rightarrow> branch_state \<Rightarrow> node \<Rightarrow> view \<Rightarrow> string \<Rightarrow> ('h, 'j) rts
    \<Rightarrow> ('h, 'j) rts + ('h, 'j) rts" where
  "departBranch g i b n view nxt s =
     (case leaveNode g n view s of
        (Some e, s1) \<Rightarrow> Inl (failBranch g i b e s1)
      | (None, s1) \<Rightarrow>
          let (failed, s2) = emitNodeSideEffects g n s1
          in if failed \<noteq> [] then Inl (failBranch g i b (criticalFailureError failed) s2)
             else Inr (moveBranch g i b nxt s2))"

subsection \<open>The automatic advance\<close>

text \<open>A node that runs by itself: a condition by its \<open>when\<close> chain, any other by its first next.\<close>

definition advanceCondition ::
  "('h, 'j) cfg \<Rightarrow> nat \<Rightarrow> branch_state \<Rightarrow> node \<Rightarrow> ('h, 'j) rts \<Rightarrow> ('h, 'j) rts + ('h, 'j) rts" where
  "advanceCondition g i b n s =
     (case enterNode g n s of
        (Inl e, s1) \<Rightarrow> Inl (failBranch g i b e s1)
      | (Inr view, s1) \<Rightarrow>
          (case evalWhenChain g n (view_env view (r_ctx s1)) of
             Inl e \<Rightarrow> Inl (failBranch g i b e s1)
           | Inr nxt \<Rightarrow>
               if nxt = '''' then Inl (waitBranch g i b s1) else departBranch g i b n view nxt s1))"

definition advanceAutomatic ::
  "('h, 'j) cfg \<Rightarrow> nat \<Rightarrow> branch_state \<Rightarrow> node \<Rightarrow> ('h, 'j) rts \<Rightarrow> ('h, 'j) rts + ('h, 'j) rts" where
  "advanceAutomatic g i b n s =
     (let (view, s1) = enterNode g n s
      in case find (\<lambda>tr. tr_next tr \<noteq> '''') (n_trans n) of
           None \<Rightarrow> Inl (journalBranch g i (b\<lparr>b_done := True, b_status := StatusWaiting\<rparr>) s1)
         | Some tr \<Rightarrow>
             (case view of
                Inl e \<Rightarrow> Inl (failBranch g i b e s1)
              | Inr v \<Rightarrow> departBranch g i b n v (tr_next tr) s1))"

text \<open>One round of the loop: \<open>Inl\<close> when \<open>advanceBranch\<close> returns, \<open>Inr\<close> when it continues.\<close>

definition advanceRound ::
  "('h, 'j) cfg \<Rightarrow> nat \<Rightarrow> branch_state \<Rightarrow> ('h, 'j) rts \<Rightarrow> (('h, 'j) rts + ('h, 'j) rts) option" where
  "advanceRound g i b s =
     (case dget (pd_nodes (g_def g)) (b_node b) of
        None \<Rightarrow> Some (Inl (failBranch g i b (EBranchNodeNotFound (b_node b)) s))
      | Some n \<Rightarrow>
          let join = (case scopeAt i (r_ctx s) of None \<Rightarrow> '''' | Some sc \<Rightarrow> ps_join sc)
          in if visitExceeded g (n_id n) (r_ctx s) then
               Some (Inl (failBranch g i b (EVisits (n_id n) (maxNodeVisits g)) s))
             else if (join \<noteq> '''' \<and> n_id n = join) then Some (Inl (branchReachedJoin g i b (n_id n) s))
             else if n_type n = ''end'' then Some (Inl (endBranch g i b StatusCompleted s))
             else if n_type n = ''join'' then Some (Inl (branchReachedJoin g i b (n_id n) s))
             else if isWaitingNode (Some n) then
               do { s1 \<leftarrow> parkAt g (b_id b) n s; Some (Inl (waitBranch g i b s1)) }
             else let s1 = IncrVisit g (n_id n) s
                  in Some (if n_type n = ''condition'' then advanceCondition g i b n s1
                           else advanceAutomatic g i b n s1))"

fun advance_loop :: "('h, 'j) cfg \<Rightarrow> nat \<Rightarrow> string \<Rightarrow> nat \<Rightarrow> ('h, 'j) rts \<Rightarrow> ('h, 'j) rts option" where
  "advance_loop g i bid 0 s = Some s"
| "advance_loop g i bid (Suc k) s =
     (case getBranch i bid (r_ctx s) of
        None \<Rightarrow> Some s
      | Some b \<Rightarrow>
          do { r \<leftarrow> advanceRound g i b s;
               (case r of Inl s1 \<Rightarrow> Some s1 | Inr s1 \<Rightarrow> advance_loop g i bid k s1) })"

definition advanceBranch :: "('h, 'j) cfg \<Rightarrow> nat \<Rightarrow> string \<Rightarrow> ('h, 'j) rts \<Rightarrow> ('h, 'j) rts option" where
  "advanceBranch g i bid s =
     (case getBranch i bid (r_ctx s) of
        None \<Rightarrow> Some s
      | Some b \<Rightarrow> if b_done b then Some s else advance_loop g i bid maxBranchSteps s)"

text \<open>Leaving a node on a branch and advancing from there, as the three resumptions end.\<close>

definition departAdvance ::
  "('h, 'j) cfg \<Rightarrow> nat \<Rightarrow> branch_state \<Rightarrow> node \<Rightarrow> view \<Rightarrow> string \<Rightarrow> ('h, 'j) rts \<Rightarrow> ('h, 'j) rts option" where
  "departAdvance g i b n view nxt s =
     (case departBranch g i b n view nxt s of
        Inl s1 \<Rightarrow> Some s1
      | Inr s1 \<Rightarrow> advanceBranch g i (b_id b) s1)"

subsection \<open>A result or an event for a waiting branch\<close>

definition feedAI ::
  "('h, 'j) cfg \<Rightarrow> nat \<Rightarrow> branch_state \<Rightarrow> node \<Rightarrow> ('h, 'j) rts \<Rightarrow> (bool \<times> ('h, 'j) rts) option" where
  "feedAI g i b n s =
     (if currentEventName (r_ctx s) \<noteq> aiEventName n then Some (False, s)
      else case c_event (r_ctx s) of
             None \<Rightarrow> None
           | Some e \<Rightarrow>
               let res = parseAIResult (ev_payload e)
               in if ar_request res \<noteq> '''' \<and>
                     (case dget (c_waitings (r_ctx s)) (b_id b) of
                        None \<Rightarrow> True | Some w \<Rightarrow> w_request w \<noteq> ar_request res)
                  then Some (False, s)
                  else do { (nxt, s1) \<leftarrow> resolveAINext g n res (IncrVisit g (n_id n) s);
                            (case nxt of
                               Inl er \<Rightarrow> Some (True, failBranch g i b er s1)
                             | Inr to \<Rightarrow>
                                 do { s2 \<leftarrow> advanceBranch g i (b_id b)
                                        (moveBranch g i (b\<lparr>b_actor := ev_principal e\<rparr>) to
                                          (clearWaiting g (b_id b) s1));
                                      Some (True, s2) }) })"

text \<open>The target of the current event's transition; \<open>None\<close> dereferences a missing event.\<close>

definition event_target :: "node \<Rightarrow> event option \<Rightarrow> string option" where
  "event_target n ev =
     (if n_trans n = [] then Some ''''
      else case ev of
             None \<Rightarrow> None
           | Some e \<Rightarrow> Some (case find (\<lambda>tr. tr_event tr = ev_name e) (n_trans n) of
                               None \<Rightarrow> '''' | Some tr \<Rightarrow> tr_next tr))"

text \<open>
  A condition without a matching event evaluates its \<open>when\<close> chain on the view, which is nil
  when an input failed.
\<close>

definition feed_target ::
  "('h, 'j) cfg \<Rightarrow> node \<Rightarrow> err + view \<Rightarrow> ctx \<Rightarrow> (err + string) option" where
  "feed_target g n view c =
     do { nxt \<leftarrow> event_target n (c_event c);
          if n_type n = ''condition'' \<and> nxt = '''' then
            (case view of Inl e \<Rightarrow> None | Inr v \<Rightarrow> Some (evalWhenChain g n (view_env v c)))
          else Some (case view of Inl e \<Rightarrow> Inl e | Inr v \<Rightarrow> Inr nxt) }"

definition feedBranch ::
  "('h, 'j) cfg \<Rightarrow> nat \<Rightarrow> branch_state \<Rightarrow> ('h, 'j) rts \<Rightarrow> (bool \<times> ('h, 'j) rts) option" where
  "feedBranch g i b s =
     (case dget (pd_nodes (g_def g)) (b_node b) of
        None \<Rightarrow> Some (False, s)
      | Some n \<Rightarrow>
          if n_type n = ''timer'' then Some (False, s)
          else if n_type n = ''ai'' then feedAI g i b n s
          else
            let (view, s1) = enterNode g n (IncrVisit g (n_id n) s)
            in do { t \<leftarrow> feed_target g n view (r_ctx s1);
                    (case t of
                       Inl e \<Rightarrow> Some (True, failBranch g i b e s1)
                     | Inr nxt \<Rightarrow>
                         if nxt = '''' then Some (False, s1)
                         else (case (view, c_event (r_ctx s1)) of
                                 (Inr v, Some e) \<Rightarrow>
                                   do { s2 \<leftarrow> departAdvance g i (b\<lparr>b_actor := ev_principal e\<rparr>) n v nxt
                                          (clearWaiting g (b_id b) s1);
                                        Some (True, s2) }
                               | _ \<Rightarrow> None)) })"

subsection \<open>A timer that fires on a branch\<close>

definition advanceTimerBranch ::
  "('h, 'j) cfg \<Rightarrow> nat \<Rightarrow> branch_state \<Rightarrow> node \<Rightarrow> ('h, 'j) rts \<Rightarrow> ('h, 'j) rts option" where
  "advanceTimerBranch g i b n s =
     (case enterNode g n (IncrVisit g (n_id n) s) of
        (Inl e, s1) \<Rightarrow> Some (failBranch g i b e s1)
      | (Inr view, s1) \<Rightarrow>
          (case evalWhenChain g n (view_env view (r_ctx s1)) of
             Inl e \<Rightarrow> Some (failBranch g i b e s1)
           | Inr nxt \<Rightarrow>
               if nxt = '''' then Some (failBranch g i b (ETimerNoRoute (n_id n)) s1)
               else departAdvance g i b n view nxt s1))"

subsection \<open>Cancelling what is still open\<close>

fun cancel_loop :: "('h, 'j) cfg \<Rightarrow> nat \<Rightarrow> string list \<Rightarrow> ('h, 'j) rts \<Rightarrow> ('h, 'j) rts" where
  "cancel_loop g i [] s = s"
| "cancel_loop g i (k # ks) s =
     (case getBranch i k (r_ctx s) of
        None \<Rightarrow> cancel_loop g i ks s
      | Some b \<Rightarrow> cancel_loop g i ks (if b_done b then s else endBranch g i b StatusCanceled s))"

definition cancelPendingBranches :: "('h, 'j) cfg \<Rightarrow> nat \<Rightarrow> ('h, 'j) rts \<Rightarrow> ('h, 'j) rts" where
  "cancelPendingBranches g i s =
     (case scopeAt i (r_ctx s) of
        None \<Rightarrow> s
      | Some sc \<Rightarrow> let (ks, s1) = rangeKeys g (ps_branches sc) s in cancel_loop g i ks s1)"

end
