(* ===== verification/Runtime.thy ===== *)
theory Runtime
  imports Branch
begin

text \<open>
  The entry points of \<open>Runtime\<close> (\<open>src/dsl/runtime.go\<close>, and \<open>WakeDue\<close>/\<open>fireWaiting\<close> of
  \<open>temporal.go\<close>): \<open>drain\<close>, which advances an instance until it waits, ends or fails, the
  settlement of a parallel scope, \<open>Start\<close>, \<open>Run\<close>, \<open>Feed\<close>, \<open>WakeDue\<close> and \<open>Resume\<close>.

  \<open>drain\<close> and \<open>settleScope\<close> call each other: after a scope converges \<open>settleScope\<close> drains
  from the join node. \<open>drain\<close> takes the depth of this recursion as fuel and is \<open>None\<close> when it
  runs out; \<open>settleScope\<close> takes the drain it calls as an argument.
\<close>

definition maxDrainSteps :: nat where
  "maxDrainSteps = 2000"

subsection \<open>Settling a scope\<close>

definition popScope :: "('h, 'j) cfg \<Rightarrow> ('h, 'j) rts \<Rightarrow> parallel_scope option \<times> ('h, 'j) rts" where
  "popScope g s =
     (case PopScope g s of
        (None, s1) \<Rightarrow> (None, s1)
      | (Some sc, s1) \<Rightarrow> (Some sc, clearWaiting g (scopeSlotID (ps_fork sc)) s1))"

definition activeIndex :: "ctx \<Rightarrow> nat" where
  "activeIndex c = length (c_scopes c) - 1"

definition completeParallel :: "('h, 'j) cfg \<Rightarrow> ('h, 'j) rts \<Rightarrow> err option \<times> ('h, 'j) rts" where
  "completeParallel g s =
     (case ActiveScope (r_ctx s) of
        None \<Rightarrow> (Some ENoScopeToComplete, s)
      | Some sc \<Rightarrow>
          let i = activeIndex (r_ctx s);
              s1 = (if ps_mode sc = ''any'' \<or> ps_mode sc = ''n_of_m'' then cancelPendingBranches g i s else s);
              failed = (case scopeAt i (r_ctx s1) of None \<Rightarrow> 0 | Some sc1 \<Rightarrow> failedCount sc1);
              s2 = SetVariable g ''parallel_failed'' (VInt (int failed)) s1
          in case popScope g s2 of
               (None, s3) \<Rightarrow> (Some ENoScopeToComplete, s3)
             | (Some popped, s3) \<Rightarrow>
                 let j = ps_join popped
                 in if j = '''' \<or> (j = ''join'' \<and> dget (pd_nodes (g_def g)) ''join'' = None) then
                      let s4 = setStatus g StatusCompleted s3
                      in (None, s4\<lparr>r_res := (r_res s4)\<lparr>
                            er_transition := Some \<lparr>st_from = ps_fork popped, st_to = '''', st_event = '''',
                                                   st_status = ''joined''\<rparr>,
                            er_actions := er_actions (r_res s4) @ [ActComplete]\<rparr>\<rparr>)
                    else (None, setStatus g StatusRunning (setNode g j s3)))"

definition enforceScopeTimeout ::
  "('h, 'j) cfg \<Rightarrow> parallel_scope option \<Rightarrow> ('h, 'j) rts \<Rightarrow> bool \<times> ('h, 'j) rts" where
  "enforceScopeTimeout g sc s =
     (case sc of
        None \<Rightarrow> (False, s)
      | Some sc \<Rightarrow>
          if ps_timeout sc \<le> 0 \<or> satisfied sc then (False, s)
          else let (d, s1) = elapsed g sc s
               in if d > ps_timeout sc then (True, setStatus g StatusTimedOut s1) else (False, s1))"

definition failScope :: "('h, 'j) cfg \<Rightarrow> err \<Rightarrow> ('h, 'j) rts \<Rightarrow> ('h, 'j) rts" where
  "failScope g e s = onFailure g (add_error e (setStatus g StatusFailed (snd (popScope g s))))"

definition settleScope ::
  "(('h, 'j) rts \<Rightarrow> ('h, 'j) rts option) \<Rightarrow> ('h, 'j) cfg \<Rightarrow> nat \<Rightarrow> ('h, 'j) rts \<Rightarrow> ('h, 'j) rts option" where
  "settleScope dr g i s =
     (case scopeAt i (r_ctx s) of
        None \<Rightarrow> Some s
      | Some sc \<Rightarrow>
          if ps_onfail sc = ''fail'' \<and> failedCount sc > 0 then
            Some (failScope g (EScopeFailed (ps_id sc) (failedCount sc)) (cancelPendingBranches g i s))
          else if doneCount sc = length (ps_branches sc) \<and> \<not> satisfied sc then
            Some (failScope g (ECannotConverge (ps_id sc)) s)
          else if satisfied sc then
            (let (e, s1) = completeParallel g s
             in if e = None \<and> c_status (r_ctx s1) = StatusRunning then dr s1 else Some s1)
          else
            (let (late, s1) = enforceScopeTimeout g (Some sc) s
             in if late then Some (add_error (EScopeTimeout (ps_id sc)) s1)
                else Some (setStatus g StatusWaiting s1)))"

fun advance_all :: "('h, 'j) cfg \<Rightarrow> nat \<Rightarrow> string list \<Rightarrow> ('h, 'j) rts \<Rightarrow> ('h, 'j) rts option" where
  "advance_all g i [] s = Some s"
| "advance_all g i (k # ks) s = do { s1 \<leftarrow> advanceBranch g i k s; advance_all g i ks s1 }"

definition runParallelMode ::
  "(('h, 'j) rts \<Rightarrow> ('h, 'j) rts option) \<Rightarrow> ('h, 'j) cfg \<Rightarrow> ('h, 'j) rts \<Rightarrow> ('h, 'j) rts option" where
  "runParallelMode dr g s =
     (case ActiveScope (r_ctx s) of
        None \<Rightarrow> Some (setStatus g StatusFailed (add_error ENoScope s))
      | Some sc \<Rightarrow>
          let i = activeIndex (r_ctx s); (ks, s1) = rangeKeys g (ps_branches sc) s
          in do { s2 \<leftarrow> advance_all g i ks s1; settleScope dr g i s2 })"

subsection \<open>Draining\<close>

definition mergeResult :: "exec_result \<Rightarrow> ('h, 'j) rts \<Rightarrow> ('h, 'j) rts" where
  "mergeResult src s =
     s\<lparr>r_res := \<lparr>
         er_transition = (case er_transition src of None \<Rightarrow> er_transition (r_res s) | Some t \<Rightarrow> Some t),
         er_effects = er_effects (r_res s) @ er_effects src,
         er_errors = er_errors (r_res s) @ er_errors src,
         er_actions = er_actions (r_res s) @ er_actions src\<rparr>\<rparr>"

definition failDrain :: "('h, 'j) cfg \<Rightarrow> err \<Rightarrow> ('h, 'j) rts \<Rightarrow> ('h, 'j) rts" where
  "failDrain g e s = onFailure g (setStatus g StatusFailed (add_error e s))"

fun isRunBranch :: "next_action \<Rightarrow> bool" where
  "isRunBranch (ActRunBranch t b) = True"
| "isRunBranch _ = False"

definition isCompletion :: "exec_result \<Rightarrow> bool" where
  "isCompletion r = (case er_transition r of None \<Rightarrow> False | Some t \<Rightarrow> st_status t = ''completed'')"

text \<open>
  One round: \<open>Inl\<close> the final state of the drain, \<open>Inr\<close> the state the next round starts from.
  \<open>drainNext\<close> is its second half, after the step is taken, its commands delivered (\<open>failed\<close>
  the critical ones that failed) and its result merged.
\<close>

definition drainNext ::
  "(('h, 'j) rts \<Rightarrow> ('h, 'j) rts option) \<Rightarrow> ('h, 'j) cfg \<Rightarrow> exec_result \<Rightarrow> command list \<Rightarrow> ('h, 'j) rts
    \<Rightarrow> (('h, 'j) rts + ('h, 'j) rts) option" where
  "drainNext dr g step failed s =
     (if er_errors step \<noteq> [] then Some (Inl (onFailure g s))
      else if failed \<noteq> [] then Some (Inl (failDrain g (criticalFailureError failed) s))
      else if list_ex isRunBranch (er_actions step) then map_option Inl (runParallelMode dr g s)
      else if isCompletion step then Some (Inl s)
      else (case dget (pd_nodes (g_def g)) (c_node (r_ctx s)) of
              None \<Rightarrow> Some (Inr s)
            | Some n \<Rightarrow>
                if isWaitingNode (Some n) then
                  do { s1 \<leftarrow> parkInstance g n s; Some (Inl (setStatus g StatusWaiting s1)) }
                else Some (Inr s)))"

definition drainRound ::
  "(('h, 'j) rts \<Rightarrow> ('h, 'j) rts option) \<Rightarrow> ('h, 'j) cfg \<Rightarrow> ('h, 'j) rts
    \<Rightarrow> (('h, 'j) rts + ('h, 'j) rts) option" where
  "drainRound dr g s =
     (if visitExceeded g (c_node (r_ctx s)) (r_ctx s)
      then Some (Inl (failDrain g (EVisits (c_node (r_ctx s)) (maxNodeVisits g)) s))
      else
        do { (step, s1) \<leftarrow> Step g s;
             (let (failed, s2) = dispatchSideEffects g (er_effects step) s1
              in drainNext dr g step failed (mergeResult step s2)) })"

fun drain_loop ::
  "(('h, 'j) rts \<Rightarrow> ('h, 'j) rts option) \<Rightarrow> ('h, 'j) cfg \<Rightarrow> nat \<Rightarrow> ('h, 'j) rts \<Rightarrow> ('h, 'j) rts option" where
  "drain_loop dr g 0 s = Some (failDrain g (EDrainSteps maxDrainSteps) s)"
| "drain_loop dr g (Suc k) s =
     do { r \<leftarrow> drainRound dr g s;
          (case r of Inl s1 \<Rightarrow> Some s1 | Inr s1 \<Rightarrow> drain_loop dr g k s1) }"

fun drain :: "('h, 'j) cfg \<Rightarrow> nat \<Rightarrow> ('h, 'j) rts \<Rightarrow> ('h, 'j) rts option" where
  "drain g 0 s = None"
| "drain g (Suc f) s = drain_loop (drain g f) g maxDrainSteps s"

subsection \<open>Start and Run\<close>

fun set_variables :: "('h, 'j) cfg \<Rightarrow> env \<Rightarrow> string list \<Rightarrow> ('h, 'j) rts \<Rightarrow> ('h, 'j) rts" where
  "set_variables g vars [] s = s"
| "set_variables g vars (k # ks) s =
     set_variables g vars ks (case dget vars k of None \<Rightarrow> s | Some v \<Rightarrow> SetVariable g k v s)"

text \<open>The state of \<open>Start\<close> after it has recorded that the instance started.\<close>

definition started :: "('h, 'j) cfg \<Rightarrow> string \<Rightarrow> string \<Rightarrow> ('h, 'j) rts \<Rightarrow> ('h, 'j) rts" where
  "started g iid xid s =
     recordOcc g OccStarted (\<lambda>occ. occ\<lparr>o_instance := iid, o_execution := xid\<rparr>)
       (modify_ctx (\<lambda>c. c\<lparr>c_instance := iid, c_execution := xid\<rparr>) (s\<lparr>r_res := no_result\<rparr>))"

definition Start ::
  "('h, 'j) cfg \<Rightarrow> nat \<Rightarrow> string \<Rightarrow> string \<Rightarrow> env \<Rightarrow> event \<Rightarrow> ('h, 'j) rts \<Rightarrow> ('h, 'j) rts option" where
  "Start g f iid xid vars ev s =
     (let s2 = started g iid xid s;
          (ks, s3) = rangeKeys g vars s2;
          s4 = set_variables g vars ks s3;
          (ok, s5) = AcceptEvent g ev s4
      in if \<not> ok then Some (add_error (EDuplicateStart (ev_id ev)) s5)
         else drain g f (setStatus g StatusRunning (setNode g (pd_start (g_def g)) s5)))"

definition Run :: "('h, 'j) cfg \<Rightarrow> nat \<Rightarrow> ('h, 'j) rts \<Rightarrow> ('h, 'j) rts option" where
  "Run g f s = drain g f (s\<lparr>r_res := no_result\<rparr>)"

subsection \<open>Feed\<close>

definition awaitingAICallback :: "process_def \<Rightarrow> string \<Rightarrow> ctx \<Rightarrow> bool" where
  "awaitingAICallback def name c =
     (let hit = (\<lambda>nid. case dget (pd_nodes def) nid of
                         None \<Rightarrow> False | Some n \<Rightarrow> n_type n = ''ai'' \<and> name = aiEventName n)
      in (dget (c_waitings c) instanceSlot \<noteq> None \<and> hit (c_node c))
       \<or> list_ex (\<lambda>sc. list_ex (\<lambda>b. b_status b = StatusWaiting
              \<and> dget (c_waitings c) (b_id b) \<noteq> None \<and> hit (b_node b)) (branches sc)) (c_scopes c))"

definition attributeAICallback :: "process_def \<Rightarrow> ctx \<Rightarrow> event \<Rightarrow> event" where
  "attributeAICallback def c ev =
     (if ev_principal ev \<noteq> None then ev
      else let res = parseAIResult (ev_payload ev)
           in if ar_model res = '''' \<or> \<not> awaitingAICallback def (ev_name ev) c then ev
              else ev\<lparr>ev_principal := Some \<lparr>p_kind = ''model'', p_id = ar_model res, p_display = '''',
                        p_model = ar_model res, p_version = ar_version res, p_prompt = ar_prompt res\<rparr>\<rparr>)"

text \<open>The rejection, if any, of a waiting linear node.\<close>

definition linearRejection :: "process_def \<Rightarrow> event \<Rightarrow> ctx \<Rightarrow> err option" where
  "linearRejection def ev c =
     (if c_status c = StatusWaiting \<and> c_scopes c = [] then
        (case dget (pd_nodes def) (c_node c) of
           None \<Rightarrow> None
         | Some n \<Rightarrow>
             if \<not> isWaitingNode (Some n) then None
             else if \<not> nodeAcceptsEvent n (ev_name ev) then Some (ENotHandled (ev_name ev) (n_id n))
             else if n_requirePrincipal n \<and> \<not> validDecisionPrincipal n (ev_principal ev)
               then Some (EPrincipalRequired (n_id n) (principalRequirement n) (ev_name ev))
             else None)
      else None)"

text \<open>The first branch, in the order \<open>ks\<close> of the range, whose node needs a principal the event lacks.\<close>

fun branch_rejection :: "process_def \<Rightarrow> event \<Rightarrow> branch_state dict \<Rightarrow> string list \<Rightarrow> err option" where
  "branch_rejection def ev bs [] = None"
| "branch_rejection def ev bs (k # ks) =
     (case dget bs k of
        None \<Rightarrow> branch_rejection def ev bs ks
      | Some b \<Rightarrow>
          if b_status b \<noteq> StatusWaiting then branch_rejection def ev bs ks
          else (case dget (pd_nodes def) (b_node b) of
                  None \<Rightarrow> branch_rejection def ev bs ks
                | Some n \<Rightarrow>
                    if \<not> n_requirePrincipal n \<or> \<not> nodeAcceptsEvent n (ev_name ev)
                       \<or> validDecisionPrincipal n (ev_principal ev)
                    then branch_rejection def ev bs ks
                    else Some (EBranchPrincipalRequired (b_id b) (n_id n) (principalRequirement n) (ev_name ev))))"

fun scopes_rejection ::
  "('h, 'j) cfg \<Rightarrow> event \<Rightarrow> parallel_scope list \<Rightarrow> ('h, 'j) rts \<Rightarrow> err option \<times> ('h, 'j) rts" where
  "scopes_rejection g ev [] s = (None, s)"
| "scopes_rejection g ev (sc # scs) s =
     (let (ks, s1) = rangeKeys g (ps_branches sc) s
      in case branch_rejection (g_def g) ev (ps_branches sc) ks of
           Some e \<Rightarrow> (Some e, s1)
         | None \<Rightarrow> scopes_rejection g ev scs s1)"

definition validateBranchPrincipal ::
  "('h, 'j) cfg \<Rightarrow> event \<Rightarrow> ('h, 'j) rts \<Rightarrow> err option \<times> ('h, 'j) rts" where
  "validateBranchPrincipal g ev s = scopes_rejection g ev (c_scopes (r_ctx s)) s"

text \<open>The event goes to every branch that waits when its turn comes.\<close>

fun feed_all ::
  "('h, 'j) cfg \<Rightarrow> nat \<Rightarrow> string list \<Rightarrow> bool \<Rightarrow> ('h, 'j) rts \<Rightarrow> (bool \<times> ('h, 'j) rts) option" where
  "feed_all g i [] routed s = Some (routed, s)"
| "feed_all g i (k # ks) routed s =
     (case getBranch i k (r_ctx s) of
        None \<Rightarrow> feed_all g i ks routed s
      | Some b \<Rightarrow>
          if b_status b \<noteq> StatusWaiting then feed_all g i ks routed s
          else do { (hit, s1) \<leftarrow> feedBranch g i b s; feed_all g i ks (routed \<or> hit) s1 })"

text \<open>What follows once every waiting branch has seen the event.\<close>

definition feedSettle ::
  "('h, 'j) cfg \<Rightarrow> nat \<Rightarrow> event \<Rightarrow> nat \<Rightarrow> bool \<Rightarrow> ('h, 'j) rts \<Rightarrow> ('h, 'j) rts option" where
  "feedSettle g f ev i routed s =
     (case scopeAt i (r_ctx s) of
        None \<Rightarrow> Some s
      | Some sc \<Rightarrow>
          if satisfied sc \<or> doneCount sc = length (ps_branches sc)
             \<or> (ps_onfail sc = ''fail'' \<and> failedCount sc > 0)
          then settleScope (drain g f) g i s
          else
            (let (late, s1) = enforceScopeTimeout g (Some sc) s
             in if late then Some (add_error (EScopeTimeout (ps_id sc)) s1)
                else
                  let s2 = (if routed then s1
                            else ReleaseEvent g (ev_id ev) (add_error (ENotHandledByBranch (ev_name ev)) s1))
                  in Some (setStatus g StatusWaiting s2)))"

definition feedScope ::
  "('h, 'j) cfg \<Rightarrow> nat \<Rightarrow> event \<Rightarrow> parallel_scope \<Rightarrow> ('h, 'j) rts \<Rightarrow> ('h, 'j) rts option" where
  "feedScope g f ev sc s =
     (let i = activeIndex (r_ctx s); (ks, s1) = rangeKeys g (ps_branches sc) s
      in do { (routed, s2) \<leftarrow> feed_all g i ks False s1; feedSettle g f ev i routed s2 })"

definition feedAccepted :: "('h, 'j) cfg \<Rightarrow> nat \<Rightarrow> event \<Rightarrow> ('h, 'j) rts \<Rightarrow> ('h, 'j) rts option" where
  "feedAccepted g f ev s =
     (case ActiveScope (r_ctx s) of
        Some sc \<Rightarrow>
          if satisfied sc then drain g f (clearWaiting g instanceSlot s) else feedScope g f ev sc s
      | None \<Rightarrow> drain g f (clearWaiting g instanceSlot s))"

definition Feed :: "('h, 'j) cfg \<Rightarrow> nat \<Rightarrow> event \<Rightarrow> ('h, 'j) rts \<Rightarrow> ('h, 'j) rts option" where
  "Feed g f ev0 s0 =
     (let s = s0\<lparr>r_res := no_result\<rparr>
      in if isTerminalStatus (c_status (r_ctx s)) then
           Some (add_error (ETerminal (c_instance (r_ctx s)) (statusString (c_status (r_ctx s))) (ev_name ev0)) s)
         else
           let ev = attributeAICallback (g_def g) (r_ctx s) ev0
           in case linearRejection (g_def g) ev (r_ctx s) of
                Some e \<Rightarrow> Some (add_error e s)
              | None \<Rightarrow>
                  (case validateBranchPrincipal g ev s of
                     (Some e, s1) \<Rightarrow> Some (add_error e s1)
                   | (None, s1) \<Rightarrow>
                       (let (ok, s2) = AcceptEvent g ev s1
                        in if \<not> ok then Some (add_error (EDuplicate (ev_id ev)) s2)
                           else feedAccepted g f ev s2)))"

subsection \<open>Waking up\<close>

definition fireDeadline ::
  "('h, 'j) cfg \<Rightarrow> nat \<Rightarrow> string \<Rightarrow> waiting_state \<Rightarrow> node \<Rightarrow> ('h, 'j) rts \<Rightarrow> ('h, 'j) rts option" where
  "fireDeadline g f slot w n s =
     (if w_next w = '''' \<or> dget (pd_nodes (g_def g)) (w_next w) = None
      then Some (setStatus g StatusFailed (add_error (EDeadlineNoNext (w_node w)) s))
      else
        let (bad, s2) = passNode g n s
        in case bad of
             Some e \<Rightarrow> Some (setStatus g StatusFailed (add_error e s2))
           | None \<Rightarrow>
               if slot = instanceSlot then
                 let (res, s3) = assignTransition g (n_id n) (w_next w) ''deadline'' (r_res s2) s2;
                     s4 = s3\<lparr>r_res := res\<rparr>
                 in (case dget (pd_nodes (g_def g)) (w_next w) of
                       None \<Rightarrow> drain g f s4
                     | Some target \<Rightarrow>
                         if isWaitingNode (Some target) then
                           do { s5 \<leftarrow> parkInstance g target s4; Some (setStatus g StatusWaiting s5) }
                         else drain g f s4)
               else
                 (case scopeOfBranch slot (r_ctx s2) of
                    None \<Rightarrow> Some s2
                  | Some i \<Rightarrow>
                      (case getBranch i slot (r_ctx s2) of
                         None \<Rightarrow> Some s2
                       | Some b \<Rightarrow>
                           do { s3 \<leftarrow> advanceBranch g i slot
                                  (moveBranch g i (b\<lparr>b_actor := Some systemPrincipal\<rparr>) (w_next w) s2);
                                settleScope (drain g f) g i s3 })))"

definition fireTimer ::
  "('h, 'j) cfg \<Rightarrow> nat \<Rightarrow> string \<Rightarrow> node \<Rightarrow> ('h, 'j) rts \<Rightarrow> ('h, 'j) rts option" where
  "fireTimer g f slot n s =
     (if slot = instanceSlot then
        drain g f (setStatus g StatusRunning (modify_ctx (\<lambda>c. c\<lparr>c_node := n_id n\<rparr>) s))
      else
        (case scopeOfBranch slot (r_ctx s) of
           None \<Rightarrow> Some s
         | Some i \<Rightarrow>
             (case getBranch i slot (r_ctx s) of
                None \<Rightarrow> Some s
              | Some b \<Rightarrow>
                  do { s1 \<leftarrow> advanceTimerBranch g i b n s; settleScope (drain g f) g i s1 })))"

definition fireScope :: "('h, 'j) cfg \<Rightarrow> waiting_state \<Rightarrow> ('h, 'j) rts \<Rightarrow> ('h, 'j) rts" where
  "fireScope g w s =
     (case Option.bind (scopeByFork (w_node w) (r_ctx s)) (\<lambda>i. scopeAt i (r_ctx s)) of
        None \<Rightarrow> s
      | Some sc \<Rightarrow>
          if satisfied sc \<or> doneCount sc = length (ps_branches sc) then s
          else add_error (EScopeTimeout (ps_id sc)) (setStatus g StatusTimedOut s))"

text \<open>The slot is cleared and the event dropped before the slot's kind is looked at.\<close>

definition awake :: "('h, 'j) cfg \<Rightarrow> string \<Rightarrow> ('h, 'j) rts \<Rightarrow> ('h, 'j) rts" where
  "awake g slot s =
     recordOcc g OccWoke (\<lambda>occ. occ\<lparr>o_slot := slot, o_actor := Some systemPrincipal\<rparr>)
       (modify_ctx (\<lambda>c. c\<lparr>c_event := None\<rparr>) (clearWaiting g slot s))"

definition fireWaiting ::
  "('h, 'j) cfg \<Rightarrow> nat \<Rightarrow> string \<Rightarrow> waiting_state \<Rightarrow> ('h, 'j) rts \<Rightarrow> ('h, 'j) rts option" where
  "fireWaiting g f slot w s =
     (let s2 = awake g slot s
      in if w_kind w = ''scope_timeout'' then Some (fireScope g w s2)
         else case dget (pd_nodes (g_def g)) (w_node w) of
                None \<Rightarrow> Some (setStatus g StatusFailed (add_error (EWaitingNodeNotFound (w_node w)) s2))
              | Some n \<Rightarrow>
                  if w_kind w = ''deadline'' \<or> w_kind w = ''ai_request''
                  then fireDeadline g f slot w n s2 else fireTimer g f slot n s2)"

text \<open>The loop runs until no slot is due; \<open>k\<close> bounds its rounds, \<open>None\<close> when they run out.\<close>

fun wake_loop :: "('h, 'j) cfg \<Rightarrow> nat \<Rightarrow> nat \<Rightarrow> int \<Rightarrow> ('h, 'j) rts \<Rightarrow> ('h, 'j) rts option" where
  "wake_loop g f 0 t s = None"
| "wake_loop g f (Suc k) t s =
     (let (ks, s1) = rangeKeys g (c_waitings (r_ctx s)) s
      in case nextDueWaiting ks t (r_ctx s1) of
           None \<Rightarrow> Some s1
         | Some (slot, w) \<Rightarrow>
             let (fresh, s2) = TryConsumeEvent g (wakeID slot w) s1
             in if \<not> fresh then wake_loop g f k t (clearWaiting g slot s2)
                else do { s3 \<leftarrow> fireWaiting g f slot w s2; wake_loop g f k t s3 })"

definition WakeDue :: "('h, 'j) cfg \<Rightarrow> nat \<Rightarrow> int \<Rightarrow> ('h, 'j) rts \<Rightarrow> ('h, 'j) rts option" where
  "WakeDue g f t s = wake_loop g f f t (s\<lparr>r_res := no_result\<rparr>)"

subsection \<open>Resuming and reading\<close>

definition applyWaitingState :: "('h, 'j) cfg \<Rightarrow> ('h, 'j) rts \<Rightarrow> ('h, 'j) rts" where
  "applyWaitingState g s =
     (if c_status (r_ctx s) = StatusCompleted \<or> c_status (r_ctx s) = StatusFailed then s
      else if isWaitingNode (dget (pd_nodes (g_def g)) (c_node (r_ctx s)))
        then setStatus g StatusWaiting s else setStatus g StatusRunning s)"

definition NewRuntime :: "ctx \<Rightarrow> 'j option \<Rightarrow> 'h \<Rightarrow> nat \<Rightarrow> ('h, 'j) rts" where
  "NewRuntime c j h k = \<lparr>r_ctx = c, r_journal = j, r_journalErr = None, r_alerts = [],
     r_host = h, r_tick = k, r_res = no_result\<rparr>"

definition Resume ::
  "process_def \<Rightarrow> int \<Rightarrow> occurrence list \<Rightarrow> 'j option \<Rightarrow> 'h \<Rightarrow> nat \<Rightarrow> err + ('h, 'j) rts" where
  "Resume def t occs j h k =
     (case foldContext def t occs of Inl e \<Rightarrow> Inl e | Inr c \<Rightarrow> Inr (NewRuntime c j h k))"

definition SideEffectResults :: "('h, 'j) rts \<Rightarrow> effect_result list" where
  "SideEffectResults s = c_results (r_ctx s)"

end
