(* ===== verification/Facts.thy ===== *)
theory Facts
  imports Runtime
begin

text \<open>
  The engine as a fact-producing machine. \<open>fact_step\<close> is the step relation of everything the
  runtime does to a context: each step is one recorded fact with its effect on the live
  context, or a step that touches neither context nor journal. \<open>well_formed\<close> is the invariant
  of a context, and \<open>framed\<close> says that a call is a sequence of fact steps that leaves the
  scopes, the waiting slots and the position alone. That every operation decomposes into fact
  steps is shown in the theory \<open>Trace\<close>; what follows from the decomposition (replay, append-only
  journal, monotone counters) is proved by rule induction on the steps alone.
\<close>

subsection \<open>Well-formed contexts\<close>

definition scope_ok :: "parallel_scope \<Rightarrow> bool" where
  "scope_ok sc \<longleftrightarrow> (\<forall>k b. dget (ps_branches sc) k = Some b \<longrightarrow>
     b_id b = k \<and> k \<noteq> instanceSlot \<and> (b_arrived b \<noteq> '''' \<longrightarrow> ps_join sc \<noteq> ''''))"

definition undo_ok :: "undo_entry list \<Rightarrow> bool" where
  "undo_ok us \<longleftrightarrow> (\<forall>i < length us. u_key (us ! i) = undoKey i (u_command (us ! i)))"

definition slot_ok :: "ctx \<Rightarrow> bool" where
  "slot_ok c \<longleftrightarrow> (\<forall>w. dget (c_waitings c) instanceSlot = Some w \<longrightarrow> c_scopes c = [] \<and> w_node w = c_node c)"

definition well_formed :: "ctx \<Rightarrow> bool" where
  "well_formed c \<longleftrightarrow> length (c_scopes c) \<le> 1 \<and> (\<forall>sc \<in> set (c_scopes c). scope_ok sc)
     \<and> undo_ok (c_undo c) \<and> slot_ok c"

text \<open>No instance-level slot: the state in which a drain or a branch runs.\<close>

definition unparked :: "ctx \<Rightarrow> bool" where
  "unparked c \<longleftrightarrow> dget (c_waitings c) instanceSlot = None"

lemma undo_key_inj:
  assumes "undo_ok us" and "i < length us" and "j < length us" and "u_key (us ! i) = u_key (us ! j)"
  shows "i = j"
proof -
  have "show_nat i @ CHR '':'' # u_command (us ! i) = show_nat j @ CHR '':'' # u_command (us ! j)"
    using assms by (simp add: undo_ok_def undoKey_def)
  from colon_split [OF show_nat_no_colon show_nat_no_colon this] show ?thesis by simp
qed

lemma undo_ok_snoc:
  "undo_ok us \<Longrightarrow> u_key u = undoKey (length us) (u_command u) \<Longrightarrow> undo_ok (us @ [u])"
  by (auto simp: undo_ok_def nth_append less_Suc_eq)

lemma undo_ok_done: "undo_ok us \<Longrightarrow> undo_ok (us[i := (us ! i)\<lparr>u_done := True\<rparr>])"
  by (cases "i < length us") (auto simp: undo_ok_def nth_list_update)

lemma well_formedD:
  assumes "well_formed c"
  shows "length (c_scopes c) \<le> 1" "sc \<in> set (c_scopes c) \<Longrightarrow> scope_ok sc"
    "undo_ok (c_undo c)" "slot_ok c"
  using assms by (auto simp: well_formed_def)

subsection \<open>The step relation\<close>

inductive fact_step :: "('h, 'j) cfg \<Rightarrow> ('h, 'j) rts \<Rightarrow> ('h, 'j) rts \<Rightarrow> bool" for g where
  quiet: "r_ctx s' = r_ctx s \<Longrightarrow> r_journal s' = r_journal s \<Longrightarrow> r_journalErr s' = r_journalErr s
    \<Longrightarrow> r_alerts s' = r_alerts s \<Longrightarrow> fact_step g s s'"
| status: "fact_step g s (setStatus g st s)"
| variable: "fact_step g s (SetVariable g k v s)"
| node: "unparked (r_ctx s) \<Longrightarrow> fact_step g s (setNode g n s)"
| transition: "unparked (r_ctx s) \<Longrightarrow> fact_step g s (snd (assignTransition g from to ev res s))"
| consume: "fact_step g s (snd (TryConsumeEvent g k s))"
| accept: "ev_name ev \<noteq> '''' \<Longrightarrow> fact_step g s (snd (AcceptEvent g ev s))"
| release: "fact_step g s (ReleaseEvent g k s)"
| push: "unparked (r_ctx s) \<Longrightarrow> c_scopes (r_ctx s) = [] \<Longrightarrow> scope_ok sc \<Longrightarrow> fact_step g s (PushScope g sc s)"
| pop: "fact_step g s (snd (PopScope g s))"
| visit: "fact_step g s (IncrVisit g n s)"
| waiting: "(slot = instanceSlot \<Longrightarrow> c_scopes (r_ctx s) = [] \<and> w_node w = c_node (r_ctx s))
    \<Longrightarrow> fact_step g s (setWaiting g slot w s)"
| clear: "fact_step g s (clearWaiting g slot s)"
| woke: "dget (c_waitings (r_ctx s)) slot = None \<Longrightarrow>
    fact_step g s (recordOcc g OccWoke (\<lambda>occ. occ\<lparr>o_slot := slot, o_actor := Some systemPrincipal\<rparr>)
                     (modify_ctx (\<lambda>c. c\<lparr>c_event := None\<rparr>) s))"
| branch: "getBranch i (b_id b) (r_ctx s) = Some b0 \<Longrightarrow> b_arrived b = b_arrived b0 \<Longrightarrow>
    fact_step g s (journalBranch g i b s)"
| joined: "getBranch i (b_id b) (r_ctx s) = Some b0 \<Longrightarrow> fact_step g s (branchReachedJoin g i b j s)"
| issue: "fact_step g s (recordOcc g OccCommandIssued (\<lambda>occ. occ\<lparr>o_command := Some cmd\<rparr>) s)"
| result: "sr_command res = cmd_id cmd \<Longrightarrow> fact_step g s (addResult g cmd res s)"
| undo: "u_key u = undoKey (length (c_undo (r_ctx s))) (u_command u) \<Longrightarrow> fact_step g s (pushUndo g u s)"
| fire: "i < length (c_undo (r_ctx s)) \<Longrightarrow> fact_step g s (fireUndo g i s)"

inductive_cases fact_stepE: "fact_step g s s'"

abbreviation fact_steps :: "('h, 'j) cfg \<Rightarrow> ('h, 'j) rts \<Rightarrow> ('h, 'j) rts \<Rightarrow> bool" where
  "fact_steps g \<equiv> (fact_step g)\<^sup>*\<^sup>*"

subsection \<open>The context after each primitive\<close>

named_theorems ctx_simps \<open>the context after each recorded primitive\<close>

lemma setStatus_ctx:
  "\<exists>t t'. r_ctx (setStatus g st s) = (r_ctx s)\<lparr>c_status := st, c_updated := t, c_completed := t'\<rparr>"
proof (cases "isTerminalStatus st")
  case True
  then show ?thesis by (auto simp: setStatus_def now_def Let_def)
next
  case False
  then have "r_ctx (setStatus g st s) = (r_ctx s)
      \<lparr>c_status := st, c_updated := g_clock g (r_tick s), c_completed := c_completed (r_ctx s)\<rparr>"
    by (simp add: setStatus_def now_def Let_def)
  then show ?thesis by blast
qed

lemma setStatus_fields [simp]:
  "c_scopes (r_ctx (setStatus g st s)) = c_scopes (r_ctx s)"
  "c_waitings (r_ctx (setStatus g st s)) = c_waitings (r_ctx s)"
  "c_node (r_ctx (setStatus g st s)) = c_node (r_ctx s)"
  "c_undo (r_ctx (setStatus g st s)) = c_undo (r_ctx s)"
  "c_event (r_ctx (setStatus g st s)) = c_event (r_ctx s)"
  "c_visits (r_ctx (setStatus g st s)) = c_visits (r_ctx s)"
  "c_status (r_ctx (setStatus g st s)) = st"
  "c_vars (r_ctx (setStatus g st s)) = c_vars (r_ctx s)"
  "c_results (r_ctx (setStatus g st s)) = c_results (r_ctx s)"
  "c_processed (r_ctx (setStatus g st s)) = c_processed (r_ctx s)"
  "c_instance (r_ctx (setStatus g st s)) = c_instance (r_ctx s)"
  "c_execution (r_ctx (setStatus g st s)) = c_execution (r_ctx s)"
  using setStatus_ctx [of g st s] by auto

lemma primitive_ctx [simp]:
  "r_ctx (SetVariable g k v s) = (r_ctx s)\<lparr>c_vars := dput k v (c_vars (r_ctx s))\<rparr>"
  "r_ctx (setNode g n s) = (r_ctx s)\<lparr>c_node := n\<rparr>"
  "r_ctx (PushScope g sc s) = (r_ctx s)\<lparr>c_scopes := c_scopes (r_ctx s) @ [sc]\<rparr>"
  "r_ctx (IncrVisit g n s) = (r_ctx s)\<lparr>c_visits := dput n (Suc (VisitOf n (r_ctx s))) (c_visits (r_ctx s))\<rparr>"
  "r_ctx (setWaiting g slot w s) = (r_ctx s)\<lparr>c_waitings := dput slot w (c_waitings (r_ctx s))\<rparr>"
  "r_ctx (journalBranch g i b s) = put_branch i b (r_ctx s)"
  "r_ctx (addResult g cmd res s) = (r_ctx s)\<lparr>c_results := c_results (r_ctx s) @ [res]\<rparr>"
  "r_ctx (pushUndo g u s) = (r_ctx s)\<lparr>c_undo := c_undo (r_ctx s) @ [u]\<rparr>"
  "r_ctx (fireUndo g j s) =
     (r_ctx s)\<lparr>c_undo := (c_undo (r_ctx s))[j := (c_undo (r_ctx s) ! j)\<lparr>u_done := True\<rparr>]\<rparr>"
  "r_ctx (track g k s) = (r_ctx s)\<lparr>c_processed := c_processed (r_ctx (track g k s))\<rparr>"
  by (simp_all add: SetVariable_def setNode_def PushScope_def IncrVisit_def setWaiting_def
      journalBranch_def addResult_def pushUndo_def fireUndo_def track_def now_def Let_def)

declare primitive_ctx(10) [simp del]

lemma clearWaiting_ctx [simp]:
  "r_ctx (clearWaiting g slot s) = (r_ctx s)\<lparr>c_waitings := ddel slot (c_waitings (r_ctx s))\<rparr>"
proof (cases "dget (c_waitings (r_ctx s)) slot")
  case None
  then have "ddel slot (c_waitings (r_ctx s)) = c_waitings (r_ctx s)"
    by (simp add: dget_eq_None_iff delete_idem)
  with None show ?thesis by (simp add: clearWaiting_def)
qed (simp add: clearWaiting_def)

lemma PopScope_ctx [simp]:
  "r_ctx (snd (PopScope g s)) = (r_ctx s)\<lparr>c_scopes := butlast (c_scopes (r_ctx s))\<rparr>"
  by (auto simp: PopScope_def ActiveScope_def)

lemma assignTransition_fields [simp]:
  "c_scopes (r_ctx (snd (assignTransition g f t e r s))) = c_scopes (r_ctx s)"
  "c_waitings (r_ctx (snd (assignTransition g f t e r s))) = c_waitings (r_ctx s)"
  "c_node (r_ctx (snd (assignTransition g f t e r s))) = t"
  "c_undo (r_ctx (snd (assignTransition g f t e r s))) = c_undo (r_ctx s)"
  "c_visits (r_ctx (snd (assignTransition g f t e r s))) = c_visits (r_ctx s)"
  by (simp_all add: assignTransition_def)

lemma track_fields [simp]:
  "c_scopes (r_ctx (track g k s)) = c_scopes (r_ctx s)"
  "c_waitings (r_ctx (track g k s)) = c_waitings (r_ctx s)"
  "c_node (r_ctx (track g k s)) = c_node (r_ctx s)"
  "c_undo (r_ctx (track g k s)) = c_undo (r_ctx s)"
  "c_visits (r_ctx (track g k s)) = c_visits (r_ctx s)"
  "c_event (r_ctx (track g k s)) = c_event (r_ctx s)"
  by (simp_all add: track_def now_def)

lemma event_ops_fields [simp]:
  "c_scopes (r_ctx (snd (TryConsumeEvent g k s))) = c_scopes (r_ctx s)"
  "c_waitings (r_ctx (snd (TryConsumeEvent g k s))) = c_waitings (r_ctx s)"
  "c_node (r_ctx (snd (TryConsumeEvent g k s))) = c_node (r_ctx s)"
  "c_undo (r_ctx (snd (TryConsumeEvent g k s))) = c_undo (r_ctx s)"
  "c_visits (r_ctx (snd (TryConsumeEvent g k s))) = c_visits (r_ctx s)"
  "c_scopes (r_ctx (snd (AcceptEvent g ev s))) = c_scopes (r_ctx s)"
  "c_waitings (r_ctx (snd (AcceptEvent g ev s))) = c_waitings (r_ctx s)"
  "c_node (r_ctx (snd (AcceptEvent g ev s))) = c_node (r_ctx s)"
  "c_undo (r_ctx (snd (AcceptEvent g ev s))) = c_undo (r_ctx s)"
  "c_visits (r_ctx (snd (AcceptEvent g ev s))) = c_visits (r_ctx s)"
  "c_scopes (r_ctx (ReleaseEvent g k s)) = c_scopes (r_ctx s)"
  "c_waitings (r_ctx (ReleaseEvent g k s)) = c_waitings (r_ctx s)"
  "c_node (r_ctx (ReleaseEvent g k s)) = c_node (r_ctx s)"
  "c_undo (r_ctx (ReleaseEvent g k s)) = c_undo (r_ctx s)"
  "c_visits (r_ctx (ReleaseEvent g k s)) = c_visits (r_ctx s)"
  by (auto simp: TryConsumeEvent_def AcceptEvent_def ReleaseEvent_def Let_def)

text \<open>Writing a branch and naming a join touch the scopes alone.\<close>

lemma put_branch_scopes:
  "c_scopes (put_branch i b c) =
     (if i < length (c_scopes c)
      then (c_scopes c)[i := (c_scopes c ! i)\<lparr>ps_branches := dput (b_id b) b (ps_branches (c_scopes c ! i))\<rparr>]
      else c_scopes c)"
  by (simp add: put_branch_def scopeAt_def)

lemma put_branch_fields [simp]:
  "put_branch i b c = c\<lparr>c_scopes := c_scopes (put_branch i b c)\<rparr>"
  "set_join i j c = c\<lparr>c_scopes := c_scopes (set_join i j c)\<rparr>"
  by (simp_all add: put_branch_def set_join_def scopeAt_def)

declare put_branch_fields [simp del]

lemma scope_writes_frame [simp]:
  "c_waitings (put_branch i b c) = c_waitings c" "c_node (put_branch i b c) = c_node c"
  "c_undo (put_branch i b c) = c_undo c" "c_visits (put_branch i b c) = c_visits c"
  "c_event (put_branch i b c) = c_event c" "length (c_scopes (put_branch i b c)) = length (c_scopes c)"
  "c_waitings (set_join i j c) = c_waitings c" "c_node (set_join i j c) = c_node c"
  "c_undo (set_join i j c) = c_undo c" "c_visits (set_join i j c) = c_visits c"
  "c_event (set_join i j c) = c_event c" "length (c_scopes (set_join i j c)) = length (c_scopes c)"
  by (simp_all add: put_branch_def set_join_def scopeAt_def split: option.splits)

lemma branchReachedJoin_fields [simp]:
  "c_waitings (r_ctx (branchReachedJoin g i b j s)) = c_waitings (r_ctx s)"
  "c_node (r_ctx (branchReachedJoin g i b j s)) = c_node (r_ctx s)"
  "c_undo (r_ctx (branchReachedJoin g i b j s)) = c_undo (r_ctx s)"
  "c_visits (r_ctx (branchReachedJoin g i b j s)) = c_visits (r_ctx s)"
  "length (c_scopes (r_ctx (branchReachedJoin g i b j s))) = length (c_scopes (r_ctx s))"
  by (auto simp: branchReachedJoin_def now_def Let_def split: option.splits)

subsection \<open>The invariant\<close>

lemma one_scope:
  assumes "length (c_scopes c) \<le> 1" and "getBranch i k c = Some b"
  shows "i = 0 \<and> (\<exists>sc. c_scopes c = [sc] \<and> dget (ps_branches sc) k = Some b)"
  using assms by (cases "c_scopes c") (auto simp: getBranch_def scopeAt_def split: if_splits)

lemma scope_ok_put:
  "scope_ok sc \<Longrightarrow> dget (ps_branches sc) (b_id b) = Some b0 \<Longrightarrow> (b_arrived b \<noteq> '''' \<Longrightarrow> ps_join sc \<noteq> '''')
    \<Longrightarrow> scope_ok (sc\<lparr>ps_branches := dput (b_id b) b (ps_branches sc)\<rparr>)"
  by (auto simp: scope_ok_def)

lemma scope_ok_arrived:
  "scope_ok sc \<Longrightarrow> dget (ps_branches sc) k = Some b0 \<Longrightarrow> b_arrived b0 \<noteq> '''' \<Longrightarrow> ps_join sc \<noteq> ''''"
  by (auto simp: scope_ok_def)

text \<open>The one scope after a branch reached its join.\<close>

definition arrived_scope :: "parallel_scope \<Rightarrow> branch_state \<Rightarrow> string \<Rightarrow> int \<Rightarrow> parallel_scope" where
  "arrived_scope sc b j t =
     sc\<lparr>ps_branches := dput (b_id b) (b\<lparr>b_done := True, b_arrived := j, b_status := StatusCompleted,
           b_finished := t\<rparr>) (ps_branches sc),
        ps_join := (if ps_join sc = '''' then j else ps_join sc)\<rparr>"

lemma branchReachedJoin_ctx:
  assumes "c_scopes (r_ctx s) = [sc]"
  shows "r_ctx (branchReachedJoin g 0 b j s) =
    (r_ctx s)\<lparr>c_scopes := [arrived_scope sc b j (g_clock g (r_tick s))]\<rparr>"
  using assms
  by (simp add: branchReachedJoin_def now_def put_branch_def set_join_def scopeAt_def scopeOfBranch_def
      arrived_scope_def Let_def)

lemma scope_ok_arrive:
  "scope_ok sc \<Longrightarrow> dget (ps_branches sc) (b_id b) = Some b0 \<Longrightarrow> scope_ok (arrived_scope sc b j t)"
  by (auto simp: scope_ok_def arrived_scope_def)

lemma fact_step_well_formed:
  assumes "fact_step g s s'" and wf: "well_formed (r_ctx s)"
  shows "well_formed (r_ctx s')"
  using assms(1)
proof cases
  case (branch i b b0)
  from one_scope [OF well_formedD(1) [OF wf] branch(2)] obtain sc
    where sc: "i = 0" "c_scopes (r_ctx s) = [sc]" "dget (ps_branches sc) (b_id b) = Some b0" by blast
  with wf have ok: "scope_ok sc" by (simp add: well_formed_def)
  have "slot_ok (r_ctx s')" using wf sc by (auto simp: branch(1) well_formed_def slot_ok_def)
  with wf sc ok branch(3) show ?thesis
    by (auto simp: branch(1) well_formed_def put_branch_scopes
        intro!: scope_ok_put dest: scope_ok_arrived [OF ok sc(3)])
next
  case (joined i b b0 j)
  from one_scope [OF well_formedD(1) [OF wf] joined(2)] obtain sc
    where sc: "i = 0" "c_scopes (r_ctx s) = [sc]" "dget (ps_branches sc) (b_id b) = Some b0" by blast
  with wf have ok: "scope_ok sc" by (simp add: well_formed_def)
  with wf sc show ?thesis
    by (auto simp: joined(1) branchReachedJoin_ctx well_formed_def slot_ok_def intro: scope_ok_arrive)
next
  case (undo u)
  with wf show ?thesis by (auto simp: well_formed_def slot_ok_def intro: undo_ok_snoc)
next
  case (fire i)
  with wf show ?thesis by (auto simp: well_formed_def slot_ok_def intro: undo_ok_done)
qed (use wf in \<open>auto simp: well_formed_def slot_ok_def unparked_def dest: in_set_butlastD\<close>)

lemma fact_steps_well_formed: "fact_steps g s s' \<Longrightarrow> well_formed (r_ctx s) \<Longrightarrow> well_formed (r_ctx s')"
  by (induction rule: rtranclp_induct) (auto dest: fact_step_well_formed)

text \<open>Visit counters never decrease.\<close>

lemma fact_step_visits: "fact_step g s s' \<Longrightarrow> VisitOf n (r_ctx s) \<le> VisitOf n (r_ctx s')"
  by (erule fact_stepE) (auto simp: VisitOf_def)

lemma fact_steps_visits: "fact_steps g s s' \<Longrightarrow> VisitOf n (r_ctx s) \<le> VisitOf n (r_ctx s')"
  by (induction rule: rtranclp_induct) (auto dest: fact_step_visits intro: le_trans)

end
