(* ===== verification/Trace.thy ===== *)
theory Trace
  imports Facts
begin

text \<open>
  Every call of the runtime is a sequence of fact steps. \<open>framed\<close>: a call that leaves the
  scopes and the position alone and does not park the instance; \<open>leads P\<close>: a call that ends
  in a context with \<open>P\<close>. The states a runtime passes through are \<open>calm\<close> (no scope, not parked:
  a drain), \<open>inside\<close> (one scope, not parked: a branch) and \<open>resting\<close> (between two calls).
\<close>

subsection \<open>States between the steps\<close>

definition calm :: "ctx \<Rightarrow> bool" where
  "calm c \<longleftrightarrow> well_formed c \<and> unparked c \<and> c_scopes c = []"

definition inside :: "ctx \<Rightarrow> bool" where
  "inside c \<longleftrightarrow> well_formed c \<and> unparked c \<and> length (c_scopes c) = 1"

definition resting :: "ctx \<Rightarrow> bool" where
  "resting c \<longleftrightarrow> well_formed c \<and> (\<forall>sc \<in> set (c_scopes c). \<not> satisfied sc)"

definition lawful :: "('h, 'j) cfg \<Rightarrow> bool" where
  "lawful g \<longleftrightarrow> effect_executor (g_handle g) \<and> ids_match (g_def g)"

definition framed :: "('h, 'j) cfg \<Rightarrow> ('h, 'j) rts \<Rightarrow> ('h, 'j) rts \<Rightarrow> bool" where
  "framed g s s' \<longleftrightarrow> fact_steps g s s' \<and> c_scopes (r_ctx s') = c_scopes (r_ctx s)
     \<and> c_node (r_ctx s') = c_node (r_ctx s) \<and> (unparked (r_ctx s) \<longrightarrow> unparked (r_ctx s'))"

definition leads :: "('h, 'j) cfg \<Rightarrow> (ctx \<Rightarrow> bool) \<Rightarrow> ('h, 'j) rts \<Rightarrow> ('h, 'j) rts \<Rightarrow> bool" where
  "leads g P s s' \<longleftrightarrow> fact_steps g s s' \<and> P (r_ctx s')"

lemma framed_refl [simp]: "framed g s s"
  by (simp add: framed_def)

lemma framed_trans: "framed g s s1 \<Longrightarrow> framed g s1 s2 \<Longrightarrow> framed g s s2"
  by (auto simp: framed_def intro: rtranclp_trans)

lemma framed_stepI:
  "fact_step g s s' \<Longrightarrow> c_scopes (r_ctx s') = c_scopes (r_ctx s) \<Longrightarrow> c_node (r_ctx s') = c_node (r_ctx s)
    \<Longrightarrow> (unparked (r_ctx s) \<Longrightarrow> unparked (r_ctx s')) \<Longrightarrow> framed g s s'"
  by (auto simp: framed_def)

lemma framed_quiet:
  "r_ctx s' = r_ctx s \<Longrightarrow> r_journal s' = r_journal s \<Longrightarrow> r_journalErr s' = r_journalErr s
    \<Longrightarrow> r_alerts s' = r_alerts s \<Longrightarrow> framed g s s'"
  by (rule framed_stepI) (auto intro: fact_step.quiet)

lemma framed_scopes: "framed g s s' \<Longrightarrow> c_scopes (r_ctx s') = c_scopes (r_ctx s)"
  by (simp add: framed_def)

lemma framed_well_formed: "framed g s s' \<Longrightarrow> well_formed (r_ctx s) \<Longrightarrow> well_formed (r_ctx s')"
  by (auto simp: framed_def intro: fact_steps_well_formed)

lemma framed_states:
  assumes "framed g s s'"
  shows "calm (r_ctx s) \<Longrightarrow> calm (r_ctx s')" "inside (r_ctx s) \<Longrightarrow> inside (r_ctx s')"
    "resting (r_ctx s) \<Longrightarrow> resting (r_ctx s')"
  using assms framed_well_formed [OF assms] by (auto simp: framed_def calm_def inside_def resting_def)

lemma calm_resting: "calm c \<Longrightarrow> resting c"
  by (simp add: calm_def resting_def)

lemma leads_trans: "fact_steps g s s1 \<Longrightarrow> leads g P s1 s2 \<Longrightarrow> leads g P s s2"
  by (auto simp: leads_def intro: rtranclp_trans)

lemma framed_leads: "framed g s s1 \<Longrightarrow> leads g P s1 s2 \<Longrightarrow> leads g P s s2"
  by (auto simp: framed_def intro: leads_trans)

lemma leads_weaken: "leads g P s s' \<Longrightarrow> (P (r_ctx s') \<Longrightarrow> Q (r_ctx s')) \<Longrightarrow> leads g Q s s'"
  by (simp add: leads_def)

lemma leadsD: "leads g P s s' \<Longrightarrow> fact_steps g s s'" "leads g P s s' \<Longrightarrow> P (r_ctx s')"
  by (simp_all add: leads_def)

lemma leads_framed: "framed g s s' \<Longrightarrow> P (r_ctx s') \<Longrightarrow> leads g P s s'"
  by (simp add: leads_def framed_def)

subsection \<open>Framed primitives\<close>

lemma framed_now [simp]: "framed g s (snd (now g s))"
  by (rule framed_quiet) (simp_all add: now_def)

lemma framed_rangeKeys [simp]: "framed g s (snd (rangeKeys g d s))"
  by (rule framed_quiet) (simp_all add: rangeKeys_def)

lemma framed_add_error [simp]: "framed g s (add_error e s)"
  by (rule framed_quiet) (simp_all add: add_error_def)

lemma framed_add_effects [simp]: "framed g s (add_effects cs s)"
  by (rule framed_quiet) (simp_all add: add_effects_def)

lemma framed_host [simp]: "framed g s (s\<lparr>r_host := h\<rparr>)"
  by (rule framed_quiet) simp_all

lemma framed_res [simp]: "framed g s (s\<lparr>r_res := r\<rparr>)"
  by (rule framed_quiet) simp_all

lemma framed_merge [simp]: "framed g s (mergeResult r s)"
  unfolding mergeResult_def by (rule framed_res)

lemma framed_setStatus [simp]: "framed g s (setStatus g st s)"
  by (rule framed_stepI) (auto intro: fact_step.status simp: unparked_def)

lemma framed_SetVariable [simp]: "framed g s (SetVariable g k v s)"
  by (rule framed_stepI, rule fact_step.variable) (auto simp: unparked_def)

lemma framed_IncrVisit [simp]: "framed g s (IncrVisit g n s)"
  by (rule framed_stepI, rule fact_step.visit) (auto simp: unparked_def)

lemma framed_clearWaiting [simp]: "framed g s (clearWaiting g slot s)"
  by (rule framed_stepI, rule fact_step.clear) (auto simp: unparked_def)

lemma framed_setWaiting: "slot \<noteq> instanceSlot \<Longrightarrow> framed g s (setWaiting g slot w s)"
  by (rule framed_stepI, rule fact_step.waiting) (auto simp: unparked_def)

lemma framed_release [simp]: "framed g s (ReleaseEvent g k s)"
  by (rule framed_stepI, rule fact_step.release) (auto simp: unparked_def)

lemma framed_consume [simp]: "framed g s (snd (TryConsumeEvent g k s))"
  by (rule framed_stepI, rule fact_step.consume) (auto simp: unparked_def)

lemma framed_accept: "ev_name ev \<noteq> '''' \<Longrightarrow> framed g s (snd (AcceptEvent g ev s))"
  by (rule framed_stepI, erule fact_step.accept) (auto simp: unparked_def)

lemma framed_enterNode [simp]: "framed g s (snd (enterNode g n s))"
  by (auto simp: enterNode_def split_def Let_def split: option.splits)

lemma framed_write_outputs [simp]: "framed g s (snd (write_outputs g ev nid out view ks s))"
  by (induction ks arbitrary: s)
    (auto split: option.splits sum.splits intro: framed_trans [OF framed_SetVariable])

lemma framed_leaveNode [simp]: "framed g s (snd (leaveNode g n view s))"
  by (auto simp: leaveNode_def split_def Let_def split: option.splits
      intro: framed_trans [OF framed_rangeKeys framed_write_outputs])

lemma framed_passNode [simp]: "framed g s (snd (passNode g n s))"
proof -
  have "framed g s (snd (enterNode g n s))" by simp
  then show ?thesis
    by (auto simp: passNode_def split_def split: sum.splits intro: framed_trans [OF _ framed_leaveNode])
qed

lemma framed_ai_outputs [simp]: "framed g s (snd (ai_outputs g types out ks s))"
  by (induction ks arbitrary: s)
    (auto split: option.splits intro: framed_trans [OF framed_SetVariable])

lemma framed_resolveAINext: "resolveAINext g n res s = Some (r, s') \<Longrightarrow> framed g s s'"
  by (auto simp: resolveAINext_def split_def Let_def split: option.splits if_splits
      intro: framed_trans [OF framed_rangeKeys framed_ai_outputs])
lemma lawfulD:
  assumes "lawful g"
  shows "effect_executor (g_handle g)" "ids_match (g_def g)"
    "dget (pd_nodes (g_def g)) k = Some n \<Longrightarrow> n_id n = k"
  using assms by (auto simp: lawful_def ids_matchD)

lemma orchestrator_echo:
  assumes "lawful g"
  shows "sr_command (snd (orchestratorExecute g cmd h)) = cmd_id cmd"
  by (simp add: orchestratorExecute_def Let_def effect_executor.retry_echo [OF lawfulD(1) [OF assms]])

lemma framed_addResult: "sr_command res = cmd_id cmd \<Longrightarrow> framed g s (addResult g cmd res s)"
  by (rule framed_stepI, erule fact_step.result) (auto simp: unparked_def)

lemma framed_issue [simp]:
  "framed g s (recordOcc g OccCommandIssued (\<lambda>occ. occ\<lparr>o_command := Some cmd\<rparr>) s)"
  by (rule framed_stepI, rule fact_step.issue) auto

lemma framed_recordCompensation [simp]: "framed g s (recordCompensation g cmd res s)"
proof (cases "cmd_compensation cmd")
  case (Some eff)
  let ?u = "\<lparr>u_node = cmd_node cmd, u_command = cmd_id cmd,
    u_key = undoKey (length (c_undo (r_ctx s))) (cmd_id cmd), u_effect = eff, u_done = False\<rparr>"
  have "framed g s (pushUndo g ?u s)"
    by (rule framed_stepI, rule fact_step.undo) (auto simp: unparked_def)
  with Some show ?thesis by (simp add: recordCompensation_def)
qed (simp add: recordCompensation_def)

lemma framed_fireUndo: "i < length (c_undo (r_ctx s)) \<Longrightarrow> framed g s (fireUndo g i s)"
  by (rule framed_stepI, erule fact_step.fire) (auto simp: unparked_def)

lemma framed_deliver:
  assumes "lawful g"
  shows "framed g s (snd (deliver g cmd s))"
proof -
  let ?s1 = "recordOcc g OccCommandIssued (\<lambda>occ. occ\<lparr>o_command := Some cmd\<rparr>) s"
  obtain h res where hr: "orchestratorExecute g cmd (r_host ?s1) = (h, res)" by fastforce
  with orchestrator_echo [OF assms, of cmd "r_host ?s1"] have "sr_command res = cmd_id cmd" by simp
  then have "framed g (?s1\<lparr>r_host := h\<rparr>) (addResult g cmd res (?s1\<lparr>r_host := h\<rparr>))"
    by (rule framed_addResult)
  then have "framed g s (recordCompensation g cmd res (addResult g cmd res (?s1\<lparr>r_host := h\<rparr>)))"
    by (rule framed_trans [OF framed_trans [OF framed_trans [OF framed_issue framed_host]]
          framed_recordCompensation])
  with hr show ?thesis by (simp add: deliver_def)
qed

lemma framed_dispatch: "lawful g \<Longrightarrow> framed g s (snd (dispatchSideEffects g cs s))"
proof (induction cs arbitrary: s)
  case (Cons c cs)
  from framed_trans [OF framed_deliver [OF Cons.prems] Cons.IH [OF Cons.prems], of s c]
  show ?case by (auto simp: split_def Let_def)
qed simp

lemma framed_emit: "lawful g \<Longrightarrow> framed g s (snd (emitNodeSideEffects g n s))"
  by (auto simp: emitNodeSideEffects_def Let_def intro: framed_trans [OF framed_add_effects framed_dispatch])

lemma deliver_undo_length: "length (c_undo (r_ctx s)) \<le> length (c_undo (r_ctx (snd (deliver g cmd s))))"
  by (auto simp: deliver_def recordCompensation_def split_def Let_def split: option.splits)

lemma framed_compensate_loop:
  "lawful g \<Longrightarrow> n \<le> length (c_undo (r_ctx s)) \<Longrightarrow> framed g s (compensate_loop g n s)"
proof (induction n arbitrary: s)
  case (Suc i)
  show ?case
  proof (cases "u_done (c_undo (r_ctx s) ! i)")
    case True
    with Suc show ?thesis by simp
  next
    case False
    let ?u = "c_undo (r_ctx s) ! i"
    let ?s1 = "add_effects [undo_command ?u] (fireUndo g i s)"
    let ?s2 = "snd (deliver g (undo_command ?u) ?s1)"
    have len: "i \<le> length (c_undo (r_ctx ?s2))"
      using Suc.prems(2) deliver_undo_length [of ?s1 g "undo_command ?u"]
      by (simp add: add_effects_def)
    have "framed g s ?s2"
      using Suc.prems(2) by (intro framed_trans [OF framed_trans [OF framed_fireUndo framed_add_effects]
            framed_deliver [OF Suc.prems(1)]]) simp
    with Suc.IH [OF Suc.prems(1) len] False show ?thesis
      by (auto simp: split_def Let_def intro: framed_trans)
  qed
qed simp

lemma framed_compensate: "lawful g \<Longrightarrow> framed g s (compensate g s)"
  by (simp add: compensate_def framed_compensate_loop)

lemma framed_onFailure: "lawful g \<Longrightarrow> framed g s (onFailure g s)"
  by (simp add: onFailure_def framed_compensate)

lemma framed_failDrain: "lawful g \<Longrightarrow> framed g s (failDrain g e s)"
  unfolding failDrain_def
  by (rule framed_trans [OF framed_trans [OF framed_add_error framed_setStatus] framed_onFailure])

subsection \<open>Parking\<close>

text \<open>A slot may be registered for the instance only where it then waits.\<close>

definition may_park :: "string \<Rightarrow> string \<Rightarrow> ctx \<Rightarrow> bool" where
  "may_park slot nid c \<longleftrightarrow> (slot = instanceSlot \<longrightarrow> c_scopes c = [] \<and> nid = c_node c)"

definition parks :: "('h, 'j) cfg \<Rightarrow> string \<Rightarrow> ('h, 'j) rts \<Rightarrow> ('h, 'j) rts \<Rightarrow> bool" where
  "parks g slot s s' \<longleftrightarrow> fact_steps g s s' \<and> c_scopes (r_ctx s') = c_scopes (r_ctx s)
     \<and> c_node (r_ctx s') = c_node (r_ctx s)
     \<and> (slot \<noteq> instanceSlot \<longrightarrow> unparked (r_ctx s) \<longrightarrow> unparked (r_ctx s'))"

lemma framed_parks: "framed g s s' \<Longrightarrow> parks g slot s s'"
  by (simp add: framed_def parks_def)

lemma parks_trans: "parks g slot s s1 \<Longrightarrow> parks g slot s1 s2 \<Longrightarrow> parks g slot s s2"
  by (auto simp: parks_def intro: rtranclp_trans)

lemma parks_setWaiting: "may_park slot (w_node w) (r_ctx s) \<Longrightarrow> parks g slot s (setWaiting g slot w s)"
  by (auto simp: parks_def may_park_def unparked_def intro!: r_into_rtranclp fact_step.waiting)

lemma parks_parkWaiting:
  assumes "may_park slot (n_id n) (r_ctx s)"
  shows "parks g slot s (parkWaiting g slot n s)"
proof -
  have "parks g slot s (setWaiting g slot w s1)"
    if "framed g s s1" and "w_node w = n_id n" for w s1
  proof -
    from that assms have "may_park slot (w_node w) (r_ctx s1)"
      by (auto simp: may_park_def framed_def)
    from parks_trans [OF framed_parks [OF that(1)] parks_setWaiting [OF this]] show ?thesis .
  qed
  then show ?thesis
    by (auto simp: parkWaiting_def split_def Let_def intro: framed_parks split: option.splits)
qed

lemma parks_emitAIRequest:
  assumes "lawful g" and "emitAIRequest g n slot s = Some s'"
    and "slot = instanceSlot \<Longrightarrow> slot_ok (r_ctx s)"
  shows "parks g slot s s'"
proof -
  have "parks g slot s (setWaiting g slot (w\<lparr>w_request := r\<rparr>) s)"
    if "dget (c_waitings (r_ctx s)) slot = Some w" for w r
    using that assms(3) by (intro parks_setWaiting) (auto simp: may_park_def slot_ok_def)
  then show ?thesis using assms(2)
    by (auto simp: emitAIRequest_def Let_def split: option.splits sum.splits
        intro: framed_parks framed_deliver [OF assms(1)] parks_trans
          [OF _ framed_parks [OF framed_deliver [OF assms(1)]]]
          framed_trans [OF framed_add_error framed_setStatus])
qed

lemma parks_parkAt:
  assumes "lawful g" and "parkAt g slot n s = Some s'" and "may_park slot (n_id n) (r_ctx s)"
    and "slot = instanceSlot \<Longrightarrow> well_formed (r_ctx s)"
  shows "parks g slot s s'"
proof -
  define s1 where "s1 = (if n_type n = ''ai'' then IncrVisit g (n_id n) s else s)"
  have f: "framed g s s1" by (simp add: s1_def)
  have p: "parks g slot s (parkWaiting g slot n s1)"
    using assms(3) f by (intro parks_trans [OF framed_parks [OF f] parks_parkWaiting])
      (auto simp: may_park_def framed_def)
  show ?thesis
  proof (cases "n_type n = ''ai''")
    case True
    with assms(2) have e: "emitAIRequest g n slot (parkWaiting g slot n s1) = Some s'"
      by (simp add: parkAt_def s1_def Let_def)
    have "slot = instanceSlot \<Longrightarrow> slot_ok (r_ctx (parkWaiting g slot n s1))"
      using p assms(4) fact_steps_well_formed [of g s] by (auto simp: parks_def well_formed_def)
    from parks_trans [OF p parks_emitAIRequest [OF assms(1) e this]] show ?thesis .
  next
    case False
    with assms(2) p show ?thesis by (simp add: parkAt_def s1_def Let_def)
  qed
qed

subsection \<open>Branches\<close>

definition has_branch :: "nat \<Rightarrow> branch_state \<Rightarrow> ctx \<Rightarrow> bool" where
  "has_branch i b c \<longleftrightarrow> (\<exists>b0. getBranch i (b_id b) c = Some b0 \<and> b_arrived b0 = b_arrived b)"

abbreviation stays :: "('h, 'j) cfg \<Rightarrow> ('h, 'j) rts \<Rightarrow> ('h, 'j) rts \<Rightarrow> bool" where
  "stays g \<equiv> leads g inside"

lemma getBranch_cong: "c_scopes c' = c_scopes c \<Longrightarrow> getBranch i k c' = getBranch i k c"
  by (simp add: getBranch_def scopeAt_def)

lemma has_branch_framed: "framed g s s' \<Longrightarrow> has_branch i b (r_ctx s) \<Longrightarrow> has_branch i b (r_ctx s')"
  using getBranch_cong [OF framed_scopes, of g s s' i "b_id b"] by (simp add: has_branch_def)

lemma getBranch_has:
  assumes "well_formed c" and "getBranch i k c = Some b"
  shows "b_id b = k \<and> k \<noteq> instanceSlot \<and> has_branch i b c"
proof -
  from one_scope [OF well_formedD(1) [OF assms(1)] assms(2)] obtain sc
    where sc: "c_scopes c = [sc]" "dget (ps_branches sc) k = Some b" by blast
  with assms(1) have "b_id b = k \<and> k \<noteq> instanceSlot" by (auto simp: well_formed_def scope_ok_def)
  with assms(2) show ?thesis by (auto simp: has_branch_def)
qed

lemma inside_stepI:
  assumes "inside (r_ctx s)" and "fact_step g s s'"
    and "unparked (r_ctx s) \<Longrightarrow> unparked (r_ctx s')"
    and "length (c_scopes (r_ctx s')) = length (c_scopes (r_ctx s))"
  shows "stays g s s'"
  using assms fact_step_well_formed [OF assms(2)] by (auto simp: inside_def leads_def)

lemma stays_trans: "stays g s s1 \<Longrightarrow> stays g s1 s2 \<Longrightarrow> stays g s s2"
  by (erule leads_trans [OF leadsD(1)])

lemma stays_then: "stays g s s1 \<Longrightarrow> (inside (r_ctx s1) \<Longrightarrow> stays g s1 s2) \<Longrightarrow> stays g s s2"
  by (auto intro: stays_trans dest: leadsD)

lemma framed_stays: "framed g s s' \<Longrightarrow> inside (r_ctx s) \<Longrightarrow> stays g s s'"
  by (rule leads_framed) (auto intro: framed_states)

lemma stays_refl [simp]: "inside (r_ctx s) \<Longrightarrow> stays g s s"
  by (simp add: leads_def)

lemma stays_journalBranch:
  assumes "inside (r_ctx s)" and "has_branch i b (r_ctx s)"
  shows "stays g s (journalBranch g i b s)"
  using assms by (intro inside_stepI) (auto simp: has_branch_def unparked_def intro: fact_step.branch)

lemma has_branch_upd [simp]:
  "has_branch i (b\<lparr>b_status := st\<rparr>) c = has_branch i b c" "has_branch i (b\<lparr>b_done := d\<rparr>) c = has_branch i b c"
  "has_branch i (b\<lparr>b_node := n\<rparr>) c = has_branch i b c" "has_branch i (b\<lparr>b_actor := a\<rparr>) c = has_branch i b c"
  "has_branch i (b\<lparr>b_finished := t\<rparr>) c = has_branch i b c"
  by (simp_all add: has_branch_def)

lemma stays_failBranch:
  assumes "inside (r_ctx s)" and "has_branch i b (r_ctx s)"
  shows "stays g s (failBranch g i b e s)"
proof -
  have w: "stays g s (journalBranch g i (b\<lparr>b_status := StatusFailed, b_done := True\<rparr>) s)"
    by (rule stays_journalBranch) (use assms in simp_all)
  from stays_trans [OF w framed_stays [OF framed_add_error leadsD(2) [OF w]]] w
  show ?thesis by (auto simp: failBranch_def Let_def)
qed

lemma stays_ends:
  assumes "inside (r_ctx s)" and "has_branch i b (r_ctx s)"
  shows "stays g s (waitBranch g i b s)" "stays g s (endBranch g i b st s)" "stays g s (moveBranch g i b nxt s)"
proof -
  show "stays g s (waitBranch g i b s)" "stays g s (moveBranch g i b nxt s)"
    unfolding waitBranch_def moveBranch_def by (rule stays_journalBranch; use assms in simp)+
  have f: "framed g s (snd (now g s))" by simp
  have "stays g (snd (now g s)) (endBranch g i b st s)"
    unfolding endBranch_def split_def Let_def
    by (rule stays_journalBranch) (use assms framed_states(2) [OF f] has_branch_framed [OF f] in simp_all)
  with f show "stays g s (endBranch g i b st s)" by (rule framed_leads)
qed

lemma stays_branchReachedJoin:
  assumes "inside (r_ctx s)" and "has_branch i b (r_ctx s)"
  shows "stays g s (branchReachedJoin g i b j s)"
  using assms by (intro inside_stepI) (auto simp: has_branch_def unparked_def intro: fact_step.joined)

text \<open>After a framed part, the rest runs from a state that still holds the branch.\<close>

lemma framed_then:
  assumes "framed g s s1" and "inside (r_ctx s)" and "has_branch i b (r_ctx s)"
    and "inside (r_ctx s1) \<Longrightarrow> has_branch i b (r_ctx s1) \<Longrightarrow> stays g s1 s2"
  shows "stays g s s2"
  using assms by (blast intro: framed_leads framed_states has_branch_framed)

definition merged :: "'a + 'a \<Rightarrow> 'a" where
  "merged r = (case r of Inl x \<Rightarrow> x | Inr x \<Rightarrow> x)"

lemma merged_simps [simp]: "merged (Inl x) = x" "merged (Inr x) = x"
  by (simp_all add: merged_def)

lemma stays_departBranch:
  assumes "lawful g" and "inside (r_ctx s)" and "has_branch i b (r_ctx s)"
  shows "stays g s (merged (departBranch g i b n view nxt s))"
proof -
  obtain bad s1 where l: "leaveNode g n view s = (bad, s1)" by fastforce
  with framed_leaveNode [of g s n view] have f1: "framed g s s1" by simp
  obtain failed s2 where m: "emitNodeSideEffects g n s1 = (failed, s2)" by fastforce
  with framed_emit [OF assms(1), of s1 n] have f2: "framed g s s2" by (auto intro: framed_trans [OF f1])
  show ?thesis
    using l m by (auto simp: departBranch_def split: option.splits
        intro: framed_then [OF f1 assms(2,3)] framed_then [OF f2 assms(2,3)] stays_failBranch stays_ends)
qed

lemma stays_advanceCondition:
  assumes "lawful g" and "inside (r_ctx s)" and "has_branch i b (r_ctx s)"
  shows "stays g s (merged (advanceCondition g i b n s))"
proof -
  obtain view s1 where v: "enterNode g n s = (view, s1)" by fastforce
  with framed_enterNode [of g s n] have f1: "framed g s s1" by simp
  show ?thesis
    using v by (auto simp: advanceCondition_def split: sum.splits
        intro: framed_then [OF f1 assms(2,3)] stays_failBranch stays_ends stays_departBranch [OF assms(1)])
qed

lemma stays_advanceAutomatic:
  assumes "lawful g" and "inside (r_ctx s)" and "has_branch i b (r_ctx s)"
  shows "stays g s (merged (advanceAutomatic g i b n s))"
proof -
  obtain view s1 where v: "enterNode g n s = (view, s1)" by fastforce
  with framed_enterNode [of g s n] have f1: "framed g s s1" by simp
  have "stays g s1 (journalBranch g i (b\<lparr>b_done := True, b_status := StatusWaiting\<rparr>) s1)"
    if "inside (r_ctx s1)" "has_branch i b (r_ctx s1)"
    by (rule stays_journalBranch) (use that in simp_all)
  then show ?thesis
    using v by (auto simp: advanceAutomatic_def split: sum.splits option.splits
        intro: framed_then [OF f1 assms(2,3)] stays_failBranch stays_departBranch [OF assms(1)])
qed

lemma stays_parkAt:
  assumes "lawful g" and "inside (r_ctx s)" and "slot \<noteq> instanceSlot" and "parkAt g slot n s = Some s'"
  shows "framed g s s'"
  using parks_parkAt [OF assms(1,4)] assms(2,3) by (auto simp: may_park_def parks_def framed_def)

lemma stays_advanceRound:
  assumes g: "lawful g" and s: "inside (r_ctx s)" and b: "getBranch i (b_id b) (r_ctx s) = Some b"
    and r: "advanceRound g i b s = Some r"
  shows "stays g s (merged r)"
proof -
  from s b have h: "has_branch i b (r_ctx s)" "b_id b \<noteq> instanceSlot"
    using getBranch_has [of "r_ctx s" i "b_id b" b] by (auto simp: inside_def)
  have p: "stays g s (waitBranch g i b s1)" if "parkAt g (b_id b) n s = Some s1" for n s1
    using framed_then [OF stays_parkAt [OF g s h(2) that] s h(1)] by (blast intro: stays_ends)
  have v: "stays g s (merged (advanceCondition g i b n (IncrVisit g k s)))"
    "stays g s (merged (advanceAutomatic g i b n (IncrVisit g k s)))" for n k
    by (rule framed_then [OF framed_IncrVisit s h(1)],
        erule (1) stays_advanceCondition [OF g] stays_advanceAutomatic [OF g])+
  show ?thesis
    using r p v s h(1)
    by (auto simp: advanceRound_def Let_def bind_eq_Some_conv split: option.splits if_splits
        intro: stays_failBranch stays_ends stays_branchReachedJoin)
qed

lemma stays_advance_loop:
  "lawful g \<Longrightarrow> inside (r_ctx s) \<Longrightarrow> advance_loop g i bid k s = Some s' \<Longrightarrow> stays g s s'"
proof (induction k arbitrary: s)
  case (Suc k)
  show ?case
  proof (cases "getBranch i bid (r_ctx s)")
    case None
    with Suc.prems show ?thesis by simp
  next
    case (Some b)
    with Suc.prems(2) have b: "getBranch i (b_id b) (r_ctx s) = Some b"
      using getBranch_has by (auto simp: inside_def)
    from Some Suc.prems(3) obtain r where r: "advanceRound g i b s = Some r"
      and k: "(case r of Inl s1 \<Rightarrow> Some s1 | Inr s1 \<Rightarrow> advance_loop g i bid k s1) = Some s'"
      by (auto simp: bind_eq_Some_conv)
    from stays_advanceRound [OF Suc.prems(1,2) b r] have w: "stays g s (merged r)" .
    with k Suc.IH [OF Suc.prems(1) leadsD(2) [OF w]] show ?thesis
      by (auto split: sum.splits intro: stays_trans)
  qed
qed simp

lemma stays_advanceBranch:
  "lawful g \<Longrightarrow> inside (r_ctx s) \<Longrightarrow> advanceBranch g i bid s = Some s' \<Longrightarrow> stays g s s'"
  by (auto simp: advanceBranch_def split: option.splits if_splits intro: stays_advance_loop)

lemma stays_departAdvance:
  assumes "lawful g" and "inside (r_ctx s)" and "has_branch i b (r_ctx s)"
    and "departAdvance g i b n view nxt s = Some s'"
  shows "stays g s s'"
proof -
  from stays_departBranch [OF assms(1-3)] have w: "stays g s (merged (departBranch g i b n view nxt s))" .
  show ?thesis
    using assms(4) w stays_advanceBranch [OF assms(1) leadsD(2) [OF w]]
    by (auto simp: departAdvance_def split: sum.splits intro: stays_trans)
qed

lemma stays_feedAI:
  assumes g: "lawful g" and s: "inside (r_ctx s)" and h: "has_branch i b (r_ctx s)"
    and r: "feedAI g i b n s = Some (hit, s')"
  shows "stays g s s'"
proof -
  have res: "stays g s s2"
    if "resolveAINext g n res (IncrVisit g (n_id n) s) = Some (nxt, s1)"
      "(case nxt of Inl er \<Rightarrow> Some (True, failBranch g i b er s1)
        | Inr to \<Rightarrow> do { s2 \<leftarrow> advanceBranch g i (b_id b)
                            (moveBranch g i (b\<lparr>b_actor := a\<rparr>) to (clearWaiting g (b_id b) s1));
                          Some (True, s2) }) = Some (hit, s2)" for res nxt s1 a s2
  proof -
    from that(1) have f: "framed g s s1" by (rule framed_trans [OF framed_IncrVisit framed_resolveAINext])
    have m: "stays g s (moveBranch g i (b\<lparr>b_actor := a\<rparr>) to (clearWaiting g (b_id b) s1))" for to
      by (rule framed_then [OF framed_trans [OF f framed_clearWaiting] s h]) (rule stays_ends; simp)
    have e: "stays g s (failBranch g i b er s1)" for er
      by (rule framed_then [OF f s h]) (rule stays_failBranch)
    from that(2) show ?thesis
      by (auto simp: bind_eq_Some_conv split: sum.splits
          intro: e stays_trans [OF m stays_advanceBranch [OF g leadsD(2) [OF m]]])
  qed
  show ?thesis
    using r s by (auto simp: feedAI_def Let_def bind_eq_Some_conv split: if_splits option.splits
        intro: res)
qed

lemma stays_feedBranch:
  assumes g: "lawful g" and s: "inside (r_ctx s)" and h: "has_branch i b (r_ctx s)"
    and r: "feedBranch g i b s = Some (hit, s')"
  shows "stays g s s'"
proof -
  have ev: "stays g s s2"
    if "(view, s1) = enterNode g n (IncrVisit g k s)"
      "(case t of Inl e \<Rightarrow> Some (True, failBranch g i b e s1)
        | Inr nxt \<Rightarrow> if nxt = '''' then Some (False, s1)
            else (case (view, c_event (r_ctx s1)) of
                    (Inr v, Some e) \<Rightarrow> do { s2 \<leftarrow> departAdvance g i (b\<lparr>b_actor := ev_principal e\<rparr>) n v nxt
                                                 (clearWaiting g (b_id b) s1);
                                           Some (True, s2) }
                  | _ \<Rightarrow> None)) = Some (hit, s2)" for view s1 n k t s2
  proof -
    from framed_trans [OF framed_IncrVisit [of g s k] framed_enterNode [of g _ n]]
    have f: "framed g s s1" by (simp add: that(1) [symmetric])
    have d: "stays g s x" if "departAdvance g i (b\<lparr>b_actor := a\<rparr>) n v nxt (clearWaiting g (b_id b) s1) = Some x"
      for a v nxt x
      by (rule framed_then [OF framed_trans [OF f framed_clearWaiting] s h])
        (rule stays_departAdvance [OF g _ _ that]; simp)
    have e: "stays g s (failBranch g i b er s1)" for er
      by (rule framed_then [OF f s h]) (rule stays_failBranch)
    from that(2) framed_stays [OF f s] show ?thesis
      by (auto simp: bind_eq_Some_conv split: sum.splits if_splits option.splits intro: e d)
  qed
  show ?thesis
    using r s stays_feedAI [OF g s h]
    by (auto simp: feedBranch_def Let_def bind_eq_Some_conv split: if_splits option.splits prod.splits
        intro: ev [OF sym])
qed

lemma stays_advanceTimerBranch:
  assumes g: "lawful g" and s: "inside (r_ctx s)" and h: "has_branch i b (r_ctx s)"
    and r: "advanceTimerBranch g i b n s = Some s'"
  shows "stays g s s'"
proof -
  obtain view s1 where v: "enterNode g n (IncrVisit g (n_id n) s) = (view, s1)" by fastforce
  with framed_trans [OF framed_IncrVisit framed_enterNode] have f: "framed g s s1"
    by (metis snd_conv)
  show ?thesis
    using r v by (auto simp: advanceTimerBranch_def split: sum.splits if_splits
        intro: framed_then [OF f s h] stays_failBranch stays_departAdvance [OF g])
qed

lemma stays_cancel_loop: "inside (r_ctx s) \<Longrightarrow> stays g s (cancel_loop g i ks s)"
proof (induction ks arbitrary: s)
  case (Cons k ks)
  have "stays g s (if b_done b then s else endBranch g i b StatusCanceled s)"
    if "getBranch i k (r_ctx s) = Some b" for b
    using getBranch_has [OF _ that] Cons.prems by (auto simp: inside_def intro: stays_ends)
  then show ?case
    using Cons.IH Cons.prems by (auto split: option.splits intro: stays_then)
qed simp

lemma stays_cancelPending:
  assumes "inside (r_ctx s)"
  shows "stays g s (cancelPendingBranches g i s)"
proof (cases "scopeAt i (r_ctx s)")
  case (Some sc)
  have f: "framed g s (snd (rangeKeys g (ps_branches sc) s))" by simp
  from framed_leads [OF f stays_cancel_loop [OF framed_states(2) [OF f assms]]] Some
  show ?thesis by (simp add: cancelPendingBranches_def split_def Let_def)
qed (use assms in \<open>simp add: cancelPendingBranches_def\<close>)

subsection \<open>Leaving a scope\<close>

lemma calm_setNode: "calm (r_ctx s) \<Longrightarrow> leads g calm s (setNode g n s)"
  by (auto simp: calm_def leads_def unparked_def well_formed_def slot_ok_def
      intro!: r_into_rtranclp fact_step.node)

lemma calm_framed: "framed g s s' \<Longrightarrow> calm (r_ctx s) \<Longrightarrow> leads g calm s s'"
  by (rule leads_framed) (auto intro: framed_states)

lemma popScope_calm:
  assumes "inside (r_ctx s)" and "popScope g s = (r, s')"
  shows "leads g calm s s' \<and> (\<exists>sc. r = Some sc)"
proof -
  from assms(1) obtain sc where sc: "c_scopes (r_ctx s) = [sc]" by (auto simp: inside_def length_Suc_conv)
  have st: "fact_step g s (snd (PopScope g s))" by (rule fact_step.pop)
  have "calm (r_ctx (snd (PopScope g s)))"
    using assms(1) sc fact_step_well_formed [OF st] by (auto simp: calm_def inside_def unparked_def)
  with st have "leads g calm s (snd (PopScope g s))" by (auto simp: leads_def)
  from leads_trans [OF leadsD(1) [OF this] calm_framed [OF framed_clearWaiting leadsD(2) [OF this]]]
  show ?thesis using assms(2) sc
    by (auto simp: popScope_def PopScope_def ActiveScope_def split: prod.splits option.splits)
qed

lemma completeParallel_calm:
  assumes s: "inside (r_ctx s)" and c: "completeParallel g s = (e, s')"
  shows "leads g calm s s' \<and> e = None"
proof -
  from s obtain sc where sc: "c_scopes (r_ctx s) = [sc]" by (auto simp: inside_def length_Suc_conv)
  define s1 where "s1 = (if ps_mode sc = ''any'' \<or> ps_mode sc = ''n_of_m''
    then cancelPendingBranches g 0 s else s)"
  have "stays g s s1" using s by (simp add: s1_def stays_cancelPending)
  then have v: "stays g s (SetVariable g k x s1)" for k x
    by (meson framed_SetVariable framed_stays leadsD(2) stays_trans)
  have fin: "leads g calm s t"
    if "popScope g (SetVariable g k x s1) = (r, s3)" "leads g calm s3 t" for k x r s3 t
  proof -
    from popScope_calm [OF leadsD(2) [OF v] that(1)] have "leads g calm (SetVariable g k x s1) s3" by simp
    then show ?thesis using v that(2) by (meson leadsD(1) leads_trans)
  qed
  have q: "leads g calm s3 ((setStatus g st s3)\<lparr>r_res := r\<rparr>)"
    "leads g calm s3 (setStatus g st (setNode g j s3))" if "calm (r_ctx s3)" for s3 st r j
  proof -
    show "leads g calm s3 ((setStatus g st s3)\<lparr>r_res := r\<rparr>)"
      by (rule calm_framed [OF framed_trans [OF framed_setStatus framed_res] that])
    show "leads g calm s3 (setStatus g st (setNode g j s3))"
      using calm_setNode [OF that] calm_framed [OF framed_setStatus] by (meson leadsD leads_trans)
  qed
  obtain n r s3 where p: "popScope g (SetVariable g ''parallel_failed'' (VInt (int n)) s1) = (r, s3)"
    and n: "n = (case scopeAt 0 (r_ctx s1) of None \<Rightarrow> 0 | Some sc1 \<Rightarrow> failedCount sc1)" by fastforce
  from popScope_calm [OF leadsD(2) [OF v] p] obtain pp where "r = Some pp" "calm (r_ctx s3)"
    by (auto simp: leads_def)
  with c sc p show ?thesis
    by (auto simp: completeParallel_def ActiveScope_def activeIndex_def s1_def [symmetric] n [symmetric]
        Let_def split: if_splits intro!: fin [OF p] q)
qed

lemma failScope_calm:
  assumes "lawful g" and "inside (r_ctx s)"
  shows "leads g calm s (failScope g e s)"
proof -
  from popScope_calm [OF assms(2), of g] have p: "leads g calm s (snd (popScope g s))"
    by (cases "popScope g s") auto
  have "framed g (snd (popScope g s)) (failScope g e s)" unfolding failScope_def
    by (rule framed_trans [OF framed_trans [OF framed_setStatus framed_add_error] framed_onFailure [OF assms(1)]])
  with p show ?thesis by (meson calm_framed leadsD leads_trans)
qed

subsection \<open>Settling\<close>

text \<open>What \<open>settleScope\<close> needs of the drain it continues with.\<close>

definition drains :: "('h, 'j) cfg \<Rightarrow> (('h, 'j) rts \<Rightarrow> ('h, 'j) rts option) \<Rightarrow> bool" where
  "drains g dr \<longleftrightarrow> (\<forall>s s'. calm (r_ctx s) \<longrightarrow> dr s = Some s' \<longrightarrow> leads g resting s s')"

lemma leads_calm_resting: "leads g calm s s' \<Longrightarrow> leads g resting s s'"
  by (erule leads_weaken) (rule calm_resting)

lemma inside_scope: "inside c \<Longrightarrow> scopeAt i c = Some sc \<Longrightarrow> i = 0 \<and> c_scopes c = [sc]"
  by (cases "c_scopes c") (auto simp: inside_def scopeAt_def split: if_splits)

lemma framed_enforce [simp]: "framed g s (snd (enforceScopeTimeout g sc s))"
  by (auto simp: enforceScopeTimeout_def elapsed_def now_def Let_def
      intro: framed_trans [OF framed_quiet framed_setStatus] framed_quiet split: option.splits)

lemma settleScope_resting:
  assumes g: "lawful g" and dr: "drains g dr" and s: "inside (r_ctx s)"
    and r: "settleScope dr g 0 s = Some s'"
  shows "leads g resting s s'"
proof -
  from s obtain sc where sc: "c_scopes (r_ctx s) = [sc]" "scopeAt 0 (r_ctx s) = Some sc"
    by (auto simp: inside_def length_Suc_conv scopeAt_def)
  have c: "stays g s (cancelPendingBranches g 0 s)" by (rule stays_cancelPending [OF s])
  have f1: "leads g resting s (failScope g e (cancelPendingBranches g 0 s))" for e
    by (rule leads_trans [OF leadsD(1) [OF c] leads_calm_resting [OF failScope_calm [OF g leadsD(2) [OF c]]]])
  have f2: "leads g resting s (failScope g e s)" for e
    by (rule leads_calm_resting [OF failScope_calm [OF g s]])
  have done_: "leads g resting s t"
    if "completeParallel g s = (e, s1)" "t = s1 \<or> dr s1 = Some t" for e s1 t
    using completeParallel_calm [OF s that(1)] that(2) dr
    by (auto simp: drains_def leads_def intro: calm_resting rtranclp_trans)
  have w: "leads g resting s t" if "\<not> satisfied sc" "framed g s t" for t
    by (rule leads_framed [OF that(2)])
      (use that s sc framed_well_formed [OF that(2)] in \<open>auto simp: resting_def inside_def framed_def\<close>)
  have late: "framed g s s1" if "enforceScopeTimeout g (Some sc) s = (b, s1)" for b s1
    using framed_enforce [of g s "Some sc"] that by simp
  show ?thesis
    using r sc by (auto simp: settleScope_def split: if_splits prod.splits
        intro: f1 f2 done_ w framed_trans [OF late framed_add_error] framed_trans [OF late framed_setStatus])
qed

lemma stays_advance_all:
  "lawful g \<Longrightarrow> inside (r_ctx s) \<Longrightarrow> advance_all g i ks s = Some s' \<Longrightarrow> stays g s s'"
proof (induction ks arbitrary: s)
  case (Cons k ks)
  then obtain s1 where "advanceBranch g i k s = Some s1" "advance_all g i ks s1 = Some s'"
    by (auto simp: bind_eq_Some_conv)
  with Cons stays_advanceBranch show ?case by (metis leadsD(2) stays_trans)
qed simp

lemma runParallelMode_resting:
  assumes g: "lawful g" and dr: "drains g dr" and s: "inside (r_ctx s)"
    and r: "runParallelMode dr g s = Some s'"
  shows "leads g resting s s'"
proof -
  from s obtain sc where sc: "c_scopes (r_ctx s) = [sc]" by (auto simp: inside_def length_Suc_conv)
  have f: "framed g s (snd (rangeKeys g (ps_branches sc) s))" by simp
  from r sc obtain ks s2 where "advance_all g 0 ks (snd (rangeKeys g (ps_branches sc) s)) = Some s2"
    "settleScope dr g 0 s2 = Some s'"
    by (auto simp: runParallelMode_def ActiveScope_def activeIndex_def Let_def bind_eq_Some_conv
        split: prod.splits)
  with stays_advance_all [OF g framed_states(2) [OF f s]] settleScope_resting [OF g dr] f
  show ?thesis by (meson framed_leads leadsD leads_trans)
qed

subsection \<open>The step of a node\<close>

definition forked :: "ctx \<Rightarrow> bool" where
  "forked c \<longleftrightarrow> inside c \<and> (\<forall>sc \<in> set (c_scopes c). \<not> satisfied sc)"

lemma forked_resting: "forked c \<Longrightarrow> resting c"
  by (simp add: forked_def inside_def resting_def)

lemma forked_framed: "framed g s s' \<Longrightarrow> forked (r_ctx s) \<Longrightarrow> forked (r_ctx s')"
  using framed_states(2) [of g s s'] by (auto simp: forked_def framed_def)

lemma fork_branches_new:
  "fork_branches fork i trs = Inr bs \<Longrightarrow> length bs = length trs \<and> (\<forall>b \<in> set bs. \<exists>k n. b = new_branch fork k n)"
  by (induction trs arbitrary: i bs) (fastforce split: if_splits sum.splits)+

lemma last_show_nat: "(\<exists>d < 10. last (show_nat n) = ''0123456789'' ! d) \<and> show_nat n \<noteq> []"
  by (cases "n < 10") (auto simp: show_nat.simps [of n] intro: exI [of _ "n mod 10"])

lemma branchID_not_instance: "branchID fork i \<noteq> instanceSlot"
proof
  assume "branchID fork i = instanceSlot"
  then have "last (branchID fork i) = last instanceSlot" by simp
  then have "last (show_nat i) = CHR ''e''"
    using last_show_nat [of i] by (simp add: branchID_def instanceSlot_def)
  with last_show_nat [of i] show False by (auto dest!: less_10_cases)
qed

lemma new_branch_fresh:
  "\<not> b_done (new_branch fork k n)" "b_status (new_branch fork k n) = StatusRunning"
  "b_arrived (new_branch fork k n) = ''''" "b_id (new_branch fork k n) \<noteq> instanceSlot"
  by (simp_all add: new_branch_def branchID_not_instance)

lemma new_scope:
  assumes "\<forall>b \<in> set bs. \<exists>k n. b = new_branch fork k n" and "bs \<noteq> []"
    and "ps_branches sc = map (\<lambda>b. (b_id b, b)) bs"
  shows "scope_ok sc \<and> \<not> satisfied sc"
proof -
  have fresh: "\<not> b_done b \<and> b_status b = StatusRunning \<and> b_arrived b = '''' \<and> b_id b \<noteq> instanceSlot"
    if "b \<in> set bs" for b using assms(1) that new_branch_fresh by fastforce
  have br: "branches sc = bs" using assms(3) by (simp add: branches_def comp_def)
  have "filter b_done bs = []" "filter (\<lambda>b. b_status b = StatusCompleted) bs = []"
    using fresh by (simp_all add: filter_empty_conv)
  then have "doneCount sc = 0" "successCount sc = 0" by (simp_all add: doneCount_def successCount_def br)
  then have "\<not> satisfied sc" using assms(2,3) by (simp add: satisfied_def)
  moreover have "scope_ok sc"
    unfolding scope_ok_def assms(3) using fresh by (fastforce dest!: map_of_SomeD)
  ultimately show ?thesis by simp
qed

lemma PushScope_forked:
  assumes "calm (r_ctx s)" and "scope_ok sc" and "\<not> satisfied sc"
  shows "leads g forked s (PushScope g sc s)"
proof -
  have st: "fact_step g s (PushScope g sc s)"
    using assms by (intro fact_step.push) (auto simp: calm_def)
  with fact_step_well_formed [OF st] assms show ?thesis
    by (auto simp: leads_def forked_def inside_def calm_def unparked_def)
qed

lemma scopeSlot_not_instance: "scopeSlotID fork \<noteq> instanceSlot"
  by (simp add: scopeSlotID_def instanceSlot_def)

lemma stepParallel_forked:
  assumes s: "calm (r_ctx s)" and n: "n_id n = c_node (r_ctx s)"
    and r: "stepParallel g n s = (Inr (tr, acts), s')"
  shows "leads g forked s s' \<and> list_ex isRunBranch acts"
proof -
  obtain mode onfail declared req tmo where pc: "parallel_config n = (mode, onfail, declared, req, tmo)"
    by (metis prod_cases5)
  from r pc obtain bs where ne: "n_trans n \<noteq> []" and bs: "fork_branches (n_id n) 0 (n_trans n) = Inr bs"
    by (auto simp: stepParallel_def split: if_splits sum.splits prod.splits)
  from fork_branches_new [OF bs] ne have new: "\<forall>b \<in> set bs. \<exists>k n. b = new_branch fork k n" "bs \<noteq> []"
    if "fork = n_id n" for fork using that by auto
  have fr: "framed g s (s\<lparr>r_tick := k\<rparr>)"
    "framed g s (setWaiting g (scopeSlotID fork) w (s\<lparr>r_tick := k\<rparr>))" for k fork w
    by (auto intro: framed_quiet framed_trans [OF framed_quiet framed_setWaiting [OF scopeSlot_not_instance]])
  have push: "leads g forked s (modify_ctx (\<lambda>c. c\<lparr>c_node := n_id n\<rparr>) (PushScope g sc s2))"
    if sc: "ps_branches sc = map (\<lambda>b. (b_id b, b)) bs" and f: "framed g s s2" for sc s2
  proof -
    from new_scope [OF new(1) new(2) sc] have "leads g forked s2 (PushScope g sc s2)"
      by (intro PushScope_forked framed_states(1) [OF f s]) auto
    moreover have "modify_ctx (\<lambda>c. c\<lparr>c_node := n_id n\<rparr>) (PushScope g sc s2) = PushScope g sc s2"
      using f n by (simp add: modify_ctx_def framed_def)
    ultimately show ?thesis using f by (simp add: framed_leads)
  qed
  have acts: "list_ex isRunBranch acts"
    using r pc ne bs new(2) by (auto simp: stepParallel_def Let_def list_ex_iff neq_Nil_conv split: prod.splits)
  moreover have "leads g forked s s'"
    using r pc ne bs
    by (auto simp: stepParallel_def Let_def now_def split: prod.splits intro!: push fr)
  ultimately show ?thesis by simp
qed

text \<open>A transition of a drain, and what a step does to a drain.\<close>

lemma calm_assignTransition:
  assumes "calm (r_ctx s)"
  shows "leads g calm s (snd (assignTransition g f to ev res s))"
proof -
  have st: "fact_step g s (snd (assignTransition g f to ev res s))"
    using assms by (intro fact_step.transition) (simp add: calm_def)
  with fact_step_well_formed [OF st] assms show ?thesis
    by (auto simp: leads_def calm_def unparked_def)
qed

definition quiet_result :: "exec_result \<Rightarrow> bool" where
  "quiet_result r \<longleftrightarrow> \<not> list_ex isRunBranch (er_actions r)"

lemma step_outcomes:
  assumes "calm (r_ctx s)" and "quiet_result res"
  shows "leads g calm s (snd (fail_step g f ev e res s)) \<and> quiet_result (fst (fail_step g f ev e res s))"
    "leads g calm s (snd (assignTransition g f to ev res s)) \<and> quiet_result (fst (assignTransition g f to ev res s))"
    "leads g calm s (snd (finishTransition g n view to ev res s)) \<and>
       quiet_result (fst (finishTransition g n view to ev res s))"
proof -
  have f: "leads g calm s (snd (fail_step g f ev e res s)) \<and> quiet_result (fst (fail_step g f ev e res s))"
    if "calm (r_ctx s)" for s f e
    using assms(2) that by (simp add: fail_step_def quiet_result_def calm_framed)
  have a: "leads g calm s (snd (assignTransition g f to ev res s)) \<and>
      quiet_result (fst (assignTransition g f to ev res s))" if "calm (r_ctx s)" for s f
    using calm_assignTransition [OF that, of g f to ev res] assms(2)
    by (auto simp: assignTransition_def quiet_result_def)
  obtain bad s1 where l: "leaveNode g n view s = (bad, s1)" by fastforce
  with framed_leaveNode [of g s n view] have fr: "framed g s s1" by simp
  from l f [OF framed_states(1) [OF fr assms(1)]] a [OF framed_states(1) [OF fr assms(1)]] framed_leads [OF fr]
  show "leads g calm s (snd (finishTransition g n view to ev res s)) \<and>
       quiet_result (fst (finishTransition g n view to ev res s))"
    by (auto simp: finishTransition_def split: option.splits)
  show "leads g calm s (snd (fail_step g f ev e res s)) \<and> quiet_result (fst (fail_step g f ev e res s))"
    by (rule f [OF assms(1)])
  show "leads g calm s (snd (assignTransition g f to ev res s)) \<and> quiet_result (fst (assignTransition g f to ev res s))"
    by (rule a [OF assms(1)])
qed

lemma stepSelect_calm:
  assumes "calm (r_ctx s)" and "quiet_result res"
  shows "leads g calm s (snd (stepSelectTransition g n res s)) \<and>
    quiet_result (fst (stepSelectTransition g n res s))"
proof -
  obtain view s1 where v: "enterNode g n s = (view, s1)" by fastforce
  with framed_enterNode [of g s n] have fr: "framed g s s1" by simp
  from step_outcomes [OF framed_states(1) [OF fr assms(1)] assms(2)] framed_leads [OF fr] v
  show ?thesis by (auto simp: stepSelectTransition_def Let_def split: sum.splits option.splits)
qed

lemma stepEnd_calm:
  assumes "calm (r_ctx s)" and "quiet_result res"
  shows "leads g calm s (snd (stepEnd g n res s)) \<and> quiet_result (fst (stepEnd g n res s))"
proof -
  obtain bad s2 where b: "passNode g n s = (bad, s2)" by fastforce
  with framed_passNode [of g s n] have f: "framed g s s2" by simp
  from calm_framed [OF framed_trans [OF f framed_setStatus] assms(1)] assms(2)
    step_outcomes(1) [OF framed_states(1) [OF f assms(1)] assms(2)] framed_leads [OF f]
  show ?thesis using b by (auto simp: stepEnd_def quiet_result_def split: option.splits)
qed

lemma stepProcessAI_calm:
  assumes s: "calm (r_ctx s)" and q: "quiet_result res" and r: "stepProcessAI g n res s = Some x"
  shows "leads g calm s (snd x) \<and> quiet_result (fst x)"
proof (cases "currentEventName (r_ctx s) = aiEventName n")
  case False
  with r step_outcomes(1) [OF s q] show ?thesis by (auto simp: stepProcessAI_def Let_def)
next
  case True
  with r obtain e :: event and nxt s1 where
    a: "resolveAINext g n (parseAIResult (ev_payload e)) s = Some (nxt, s1)" and
    x: "x = (case nxt of Inl er \<Rightarrow> fail_step g (n_id n) (aiEventName n) er res s1
             | Inr to \<Rightarrow> assignTransition g (n_id n) to (aiEventName n) res s1)"
    by (auto simp: stepProcessAI_def Let_def bind_eq_Some_conv split: option.splits)
  from a have f: "framed g s s1" by (rule framed_resolveAINext)
  from step_outcomes(1,2) [OF framed_states(1) [OF f s] q] framed_leads [OF f] x
  show ?thesis by (auto split: sum.splits)
qed

lemma stepFork_leads:
  assumes s: "calm (r_ctx s)" and q: "quiet_result res" and id: "n_id n = c_node (r_ctx s)"
  shows "leads g calm s (snd (stepFork g n res s)) \<and> quiet_result (fst (stepFork g n res s)) \<or>
    leads g forked s (snd (stepFork g n res s)) \<and> \<not> quiet_result (fst (stepFork g n res s))"
proof (cases "stepParallel g n s")
  case (Pair x s2)
  show ?thesis
  proof (cases x)
    case (Inl e)
    with Pair have "framed g s s2"
      by (auto simp: stepParallel_def Let_def now_def intro: framed_quiet split: if_splits prod.splits sum.splits)
    from calm_framed [OF framed_trans [OF this framed_setStatus] s] Inl Pair q
    show ?thesis by (simp add: stepFork_def quiet_result_def)
  next
    case (Inr y)
    with stepParallel_forked [OF s id] Pair show ?thesis
      by (cases y) (simp add: stepFork_def quiet_result_def)
  qed
qed

lemma Step_leads:
  assumes g: "lawful g" and s: "calm (r_ctx s)" and r: "Step g s = Some (step, s')"
  shows "leads g calm s s' \<and> quiet_result step \<or> leads g forked s s' \<and> \<not> quiet_result step"
proof (cases "dget (pd_nodes (g_def g)) (c_node (r_ctx s))")
  case None
  have "quiet_result no_result" by (simp add: quiet_result_def no_result_def)
  with None r step_outcomes(1) [OF s this, of g] show ?thesis
    by (simp add: Step_def) (metis fst_conv snd_conv)
next
  case (Some n)
  define s1 where "s1 = IncrVisit g (n_id n) s"
  define res where "res = no_result\<lparr>er_effects := node_commands (n_effects n) (r_ctx s1) (n_id n) 0\<rparr>"
  have q: "quiet_result res" by (simp add: res_def quiet_result_def no_result_def)
  have f: "framed g s s1" by (simp add: s1_def)
  have c: "calm (r_ctx s1)" by (rule framed_states(1) [OF f s])
  from lawfulD(3) [OF g Some] f have id: "n_id n = c_node (r_ctx s1)" by (simp add: framed_def)
  have "Step g s = (if n_type n = ''end'' then Some (stepEnd g n res s1)
      else if n_type n = ''parallel'' then Some (stepFork g n res s1)
      else if n_type n = ''ai'' then stepProcessAI g n res s1
      else Some (stepSelectTransition g n res s1))"
    using Some by (simp add: Step_def Let_def s1_def res_def)
  with r stepEnd_calm [OF c q, of g n] stepSelect_calm [OF c q, of g n] stepProcessAI_calm [OF c q]
    stepFork_leads [OF c q id, of g]
  have "leads g calm s1 s' \<and> quiet_result step \<or> leads g forked s1 s' \<and> \<not> quiet_result step"
    by (auto split: if_splits)
  with framed_leads [OF f] show ?thesis by blast
qed

subsection \<open>Draining\<close>

lemma framed_dispatch_result:
  "lawful g \<Longrightarrow> dispatchSideEffects g cs s = (failed, s') \<Longrightarrow> framed g s s'"
  using framed_dispatch [of g s cs] by simp

lemma park_resting:
  assumes g: "lawful g" and s: "calm (r_ctx s)" and n: "n_id n = c_node (r_ctx s)"
    and p: "parkInstance g n s = Some s'"
  shows "leads g resting s (setStatus g st s')"
proof -
  from p have "parkAt g instanceSlot n s = Some s'" by (simp add: parkInstance_def)
  from parks_parkAt [OF g this] s n have "parks g instanceSlot s s'"
    by (simp add: may_park_def calm_def)
  with s have l: "leads g resting s s'"
    using fact_steps_well_formed [of g s s'] by (auto simp: parks_def leads_def resting_def calm_def)
  from framed_states(3) [OF framed_setStatus leadsD(2) [OF l]] leads_trans [OF leadsD(1) [OF l]]
  show ?thesis by (meson framed_setStatus leads_framed)
qed

lemma drainRound_leads:
  assumes g: "lawful g" and dr: "drains g dr" and s: "calm (r_ctx s)" and r: "drainRound dr g s = Some r"
  shows "(case r of Inl s' \<Rightarrow> leads g resting s s' | Inr s' \<Rightarrow> leads g calm s s')"
proof (cases "visitExceeded g (c_node (r_ctx s)) (r_ctx s)")
  case True
  with r show ?thesis
    by (auto simp: drainRound_def intro: leads_calm_resting [OF calm_framed [OF framed_failDrain [OF g] s]])
next
  case False
  with r obtain step s1 where st: "Step g s = Some (step, s1)"
    by (auto simp: drainRound_def bind_eq_Some_conv)
  obtain failed s2 where d: "dispatchSideEffects g (er_effects step) s1 = (failed, s2)" by fastforce
  define s3 where "s3 = mergeResult step s2"
  from framed_dispatch_result [OF g d] have f: "framed g s1 s3"
    unfolding s3_def by (rule framed_trans) simp
  have r: "drainNext dr g step failed s3 = Some r"
    using r False st d by (simp add: drainRound_def s3_def)
  from Step_leads [OF g s st] show ?thesis
  proof
    assume "leads g calm s s1 \<and> quiet_result step"
    then have l: "leads g calm s s3" and q: "\<not> list_ex isRunBranch (er_actions step)"
      using calm_framed [OF f] by (auto simp: quiet_result_def leads_def intro: rtranclp_trans)
    have fin: "leads g resting s t" if "framed g s3 t" for t
      using l that by (meson calm_framed leadsD leads_calm_resting leads_trans)
    have park: "leads g resting s (setStatus g StatusWaiting t)"
      if "dget (pd_nodes (g_def g)) (c_node (r_ctx s3)) = Some n" "parkInstance g n s3 = Some t" for n t
      by (rule leads_trans [OF leadsD(1) [OF l] park_resting [OF g leadsD(2) [OF l] _ that(2)]])
        (rule lawfulD(3) [OF g that(1)])
    from r q l show ?thesis
      by (auto simp: drainNext_def bind_eq_Some_conv split: if_splits option.splits
          intro: fin [OF framed_onFailure [OF g]] fin [OF framed_failDrain [OF g]] park leads_calm_resting)
  next
    assume "leads g forked s s1 \<and> \<not> quiet_result step"
    then have l: "fact_steps g s s3" "forked (r_ctx s3)" and q: "list_ex isRunBranch (er_actions step)"
      using f forked_framed [OF f] by (auto simp: quiet_result_def leads_def framed_def)
    have fin: "leads g resting s t" if "framed g s3 t" for t
      using that l forked_resting [OF forked_framed [OF that l(2)]]
      by (auto simp: leads_def framed_def)
    have par: "leads g resting s t" if "runParallelMode dr g s3 = Some t" for t
      using runParallelMode_resting [OF g dr _ that] l by (auto simp: forked_def intro: leads_trans)
    from r q show ?thesis
      by (auto simp: drainNext_def split: if_splits intro: fin [OF framed_onFailure [OF g]] fin [OF framed_failDrain [OF g]] par)
  qed
qed

lemma drain_loop_resting:
  "lawful g \<Longrightarrow> drains g dr \<Longrightarrow> calm (r_ctx s) \<Longrightarrow> drain_loop dr g k s = Some s' \<Longrightarrow> leads g resting s s'"
proof (induction k arbitrary: s)
  case 0
  then show ?case using calm_framed [OF framed_failDrain] by (auto intro: leads_calm_resting)
next
  case (Suc k)
  from Suc.prems(4) obtain r where r: "drainRound dr g s = Some r"
    and k: "(case r of Inl s1 \<Rightarrow> Some s1 | Inr s1 \<Rightarrow> drain_loop dr g k s1) = Some s'"
    by (auto simp: bind_eq_Some_conv)
  from drainRound_leads [OF Suc.prems(1-3) r] k Suc.IH [OF Suc.prems(1,2)] show ?case
    by (auto split: sum.splits intro: leads_trans dest: leadsD)
qed

lemma drain_drains: "lawful g \<Longrightarrow> drains g (drain g f)"
proof (induction f)
  case 0
  then show ?case by (simp add: drains_def)
next
  case (Suc f)
  then show ?case using drain_loop_resting [OF Suc.prems Suc.IH [OF Suc.prems]]
    by (simp add: drains_def)
qed

lemma drain_resting: "lawful g \<Longrightarrow> calm (r_ctx s) \<Longrightarrow> drain g f s = Some s' \<Longrightarrow> leads g resting s s'"
  using drain_drains [of g f] by (auto simp: drains_def)

subsection \<open>The entry points\<close>

lemma resting_cases:
  assumes "resting c"
  obtains "well_formed c" "c_scopes c = []"
  | sc where "inside c" "c_scopes c = [sc]" "\<not> satisfied sc"
proof (cases "c_scopes c")
  case Nil
  with assms that(1) show thesis by (simp add: resting_def)
next
  case (Cons sc scs)
  with assms have "scs = []" "unparked c"
    by (auto simp: resting_def well_formed_def unparked_def slot_ok_def)
  with Cons assms that(2) [of sc] show thesis by (simp add: resting_def inside_def)
qed

lemma clear_instance_calm:
  assumes "well_formed (r_ctx s)" and "c_scopes (r_ctx s) = []"
  shows "calm (r_ctx (clearWaiting g instanceSlot s))"
  using framed_well_formed [OF framed_clearWaiting assms(1), of g instanceSlot] assms(2)
  by (auto simp: calm_def unparked_def)

lemma framed_set_variables [simp]: "framed g s (set_variables g vars ks s)"
  by (induction ks arbitrary: s)
    (auto split: option.splits intro: framed_trans [OF framed_SetVariable])

lemma stays_feed_all:
  "lawful g \<Longrightarrow> inside (r_ctx s) \<Longrightarrow> feed_all g i ks routed s = Some (r, s') \<Longrightarrow> stays g s s'"
proof (induction ks arbitrary: s routed)
  case (Cons k ks)
  show ?case
  proof (cases "getBranch i k (r_ctx s)")
    case None
    with Cons show ?thesis by simp
  next
    case (Some b)
    with Cons.prems(2) have h: "has_branch i b (r_ctx s)" using getBranch_has by (auto simp: inside_def)
    from Some Cons.prems Cons.IH stays_feedBranch [OF Cons.prems(1,2) h] show ?thesis
      by (auto simp: bind_eq_Some_conv split: if_splits intro: stays_then)
  qed
qed simp

lemma feedSettle_resting:
  assumes g: "lawful g" and s: "inside (r_ctx s)" and r: "feedSettle g f ev 0 routed s = Some s'"
  shows "leads g resting s s'"
proof -
  from s obtain sc where sc: "c_scopes (r_ctx s) = [sc]" "scopeAt 0 (r_ctx s) = Some sc"
    by (auto simp: inside_def length_Suc_conv scopeAt_def)
  have wait: "leads g resting s t" if "\<not> satisfied sc" "framed g s t" for t
    using that s sc framed_well_formed [OF that(2)] by (auto simp: leads_def resting_def inside_def framed_def)
  obtain late s3 where en: "enforceScopeTimeout g (Some sc) s = (late, s3)" by fastforce
  with framed_enforce [of g s "Some sc"] have f3: "framed g s s3" by simp
  from r sc en settleScope_resting [OF g drain_drains [OF g] s] show ?thesis
    by (auto simp: feedSettle_def Let_def split: if_splits intro!: wait framed_trans [OF f3]
        intro: framed_trans [OF framed_add_error framed_trans [OF framed_release framed_setStatus]])
qed

lemma feedScope_resting:
  assumes g: "lawful g" and s: "inside (r_ctx s)" and r: "feedScope g f ev sc s = Some s'"
  shows "leads g resting s s'"
proof -
  have i: "activeIndex (r_ctx s) = 0" using s by (simp add: activeIndex_def inside_def)
  let ?s1 = "snd (rangeKeys g (ps_branches sc) s)"
  have f1: "framed g s ?s1" by simp
  from r i obtain ks routed s2 where fa: "feed_all g 0 ks False ?s1 = Some (routed, s2)"
    and fs: "feedSettle g f ev 0 routed s2 = Some s'"
    by (auto simp: feedScope_def Let_def bind_eq_Some_conv split: prod.splits)
  from framed_leads [OF f1 stays_feed_all [OF g framed_states(2) [OF f1 s] fa]] have st: "stays g s s2" .
  show ?thesis by (rule leads_trans [OF leadsD(1) [OF st] feedSettle_resting [OF g leadsD(2) [OF st] fs]])
qed

lemma feedAccepted_resting:
  assumes g: "lawful g" and s: "resting (r_ctx s)" and r: "feedAccepted g f ev s = Some s'"
  shows "leads g resting s s'"
  using s
proof (cases rule: resting_cases)
  case 1
  with r have "drain g f (clearWaiting g instanceSlot s) = Some s'"
    by (simp add: feedAccepted_def ActiveScope_def)
  from framed_leads [OF framed_clearWaiting drain_resting [OF g clear_instance_calm [OF 1] this]]
  show ?thesis .
next
  case (2 sc)
  with r feedScope_resting [OF g 2(1)] show ?thesis by (simp add: feedAccepted_def ActiveScope_def)
qed

lemma framed_scopes_rejection: "framed g s (snd (scopes_rejection g ev scs s))"
proof (induction scs arbitrary: s)
  case (Cons sc scs)
  have "framed g s (snd (rangeKeys g (ps_branches sc) s))" by simp
  with framed_trans [OF this Cons.IH] show ?case by (auto simp: split_def Let_def split: option.splits)
qed simp

lemma attribute_name [simp]: "ev_name (attributeAICallback def c ev) = ev_name ev"
  by (simp add: attributeAICallback_def Let_def)

lemma Feed_resting:
  assumes g: "lawful g" and s: "resting (r_ctx s)" and ev: "ev_name ev \<noteq> ''''"
    and r: "Feed g f ev s = Some s'"
  shows "leads g resting s s'"
proof -
  define s0 where "s0 = s\<lparr>r_res := no_result\<rparr>"
  have f0: "framed g s s0" by (simp add: s0_def)
  define e where "e = attributeAICallback (g_def g) (r_ctx s0) ev"
  have en: "ev_name e \<noteq> ''''" using ev by (simp add: e_def)
  obtain x s1 where v: "validateBranchPrincipal g e s0 = (x, s1)" by fastforce
  with framed_scopes_rejection [of g s0 e "c_scopes (r_ctx s0)"] have f1: "framed g s0 s1"
    by (simp add: validateBranchPrincipal_def)
  obtain ok s2 where a: "AcceptEvent g e s1 = (ok, s2)" by fastforce
  with framed_accept [OF en, of g s1] have f2: "framed g s s2" by (metis f0 f1 framed_trans snd_conv)
  have fr: "leads g resting s t" if "framed g s t" for t
    using framed_states(3) [OF that s] that by (auto simp: leads_def framed_def)
  have acc: "leads g resting s t" if "feedAccepted g f e s2 = Some t" for t
    by (rule leads_trans [OF leadsD(1) [OF fr [OF f2]] feedAccepted_resting [OF g framed_states(3) [OF f2 s] that]])
  have rej: "leads g resting s (add_error er s0)" "leads g resting s (add_error er s1)"
    "leads g resting s (add_error er s2)" for er
    using f0 f1 f2 by (blast intro: fr framed_trans framed_add_error)+
  from r v a show ?thesis
    by (auto simp: Feed_def Let_def s0_def [symmetric] e_def [symmetric] split: if_splits option.splits
        intro: rej acc)
qed

lemma due_loop_member:
  "due_loop ks ws t best = Some (k, w, u) \<Longrightarrow>
   best = Some (k, w, u) \<or> dget ws k = Some w \<and> w_until w = Some u \<and> u \<le> t"
  by (induction ks arbitrary: best) (fastforce split: option.splits if_splits prod.splits)+

lemma nextDue_member:
  "nextDueWaiting ks t c = Some (slot, w) \<Longrightarrow> dget (c_waitings c) slot = Some w"
  by (auto simp: nextDueWaiting_def dest: due_loop_member)

lemma branch_resting:
  assumes g: "lawful g" and s: "resting (r_ctx s)" and b: "getBranch i slot (r_ctx s) = Some b"
    and st: "inside (r_ctx s) \<Longrightarrow> has_branch i b (r_ctx s) \<Longrightarrow> stays g s s1"
    and r: "settleScope (drain g f) g i s1 = Some s'"
  shows "leads g resting s s'"
proof -
  from s have wf: "well_formed (r_ctx s)" by (simp add: resting_def)
  from one_scope [OF well_formedD(1) [OF wf] b] obtain sc where i: "i = 0" "c_scopes (r_ctx s) = [sc]" by blast
  with s have ins: "inside (r_ctx s)" by (auto elim: resting_cases)
  from getBranch_has [OF wf b] have l: "stays g s s1" by (intro st ins) simp
  from r i(1) have r0: "settleScope (drain g f) g 0 s1 = Some s'" by simp
  show ?thesis
    by (rule leads_trans [OF leadsD(1) [OF l] settleScope_resting [OF g drain_drains [OF g] leadsD(2) [OF l] r0]])
qed

lemma fireTimer_resting:
  assumes g: "lawful g" and s: "resting (r_ctx s)" and id: "slot = instanceSlot \<Longrightarrow>
      unparked (r_ctx s) \<and> c_scopes (r_ctx s) = [] \<and> n_id n = c_node (r_ctx s)"
    and r: "fireTimer g f slot n s = Some s'"
  shows "leads g resting s s'"
proof (cases "slot = instanceSlot")
  case True
  with id have "modify_ctx (\<lambda>c. c\<lparr>c_node := n_id n\<rparr>) s = s" by (simp add: modify_ctx_def)
  with True r have d: "drain g f (setStatus g StatusRunning s) = Some s'" by (simp add: fireTimer_def)
  from True id s have "calm (r_ctx s)" by (simp add: calm_def resting_def)
  from framed_leads [OF framed_setStatus drain_resting [OF g framed_states(1) [OF framed_setStatus this] d]]
  show ?thesis .
next
  case False
  have fr: "leads g resting s s" using s by (simp add: leads_def)
  have b: "leads g resting s s'" if "getBranch i slot (r_ctx s) = Some b"
    "advanceTimerBranch g i b n s = Some s1" "settleScope (drain g f) g i s1 = Some s'" for i b s1
    by (rule branch_resting [OF g s that(1) stays_advanceTimerBranch [OF g _ _ that(2)] that(3)])
  from False r fr show ?thesis
    by (auto simp: fireTimer_def bind_eq_Some_conv split: option.splits intro: b)
qed

lemma fireDeadline_resting:
  assumes g: "lawful g" and s: "resting (r_ctx s)"
    and id: "slot = instanceSlot \<Longrightarrow> unparked (r_ctx s) \<and> c_scopes (r_ctx s) = []"
    and r: "fireDeadline g f slot w n s = Some s'"
  shows "leads g resting s s'"
proof -
  obtain bad s2 where p: "passNode g n s = (bad, s2)" by fastforce
  with framed_passNode [of g s n] have f: "framed g s s2" by simp
  have fr: "leads g resting s t" if "framed g s t" for t
    using framed_states(3) [OF that s] that by (auto simp: leads_def framed_def)
  have errs: "leads g resting s (setStatus g st (add_error e s))" "leads g resting s (setStatus g st (add_error e s2))"
    "leads g resting s s2" for st e
    using f by (blast intro: fr framed_trans framed_add_error framed_setStatus)+
  show ?thesis
  proof (cases "slot = instanceSlot")
    case True
    with id s have "calm (r_ctx s)" by (simp add: calm_def resting_def)
    then have c2: "calm (r_ctx s2)" by (rule framed_states(1) [OF f])
    obtain res s3 where a: "assignTransition g (n_id n) (w_next w) ''deadline'' (r_res s2) s2 = (res, s3)" by fastforce
    let ?s4 = "s3\<lparr>r_res := res\<rparr>"
    from calm_assignTransition [OF c2, of g "n_id n" "w_next w" "''deadline''" "r_res s2"] a
    have l: "leads g calm s s3" by (auto intro: framed_leads [OF f])
    from calm_framed [OF framed_res leadsD(2) [OF l]] have l4: "leads g calm s ?s4"
      by (rule leads_trans [OF leadsD(1) [OF l]])
    from a assignTransition_fields(3) [of g "n_id n" "w_next w" "''deadline''" "r_res s2" s2]
    have nd: "c_node (r_ctx ?s4) = w_next w" by simp
    have dr: "leads g resting s t" if "drain g f ?s4 = Some t" for t
      by (rule leads_trans [OF leadsD(1) [OF l4] drain_resting [OF g leadsD(2) [OF l4] that]])
    have pk: "leads g resting s (setStatus g StatusWaiting t)"
      if "dget (pd_nodes (g_def g)) (w_next w) = Some target" "parkInstance g target ?s4 = Some t" for target t
      by (rule leads_trans [OF leadsD(1) [OF l4] park_resting [OF g leadsD(2) [OF l4] _ that(2)]])
        (use nd in \<open>simp add: lawfulD(3) [OF g that(1)]\<close>)
    from r True show ?thesis
      by (auto simp: fireDeadline_def p a Let_def bind_eq_Some_conv split: if_splits option.splits
          intro: errs dr pk)
  next
    case False
    have br: "leads g resting s s'"
      if "getBranch i slot (r_ctx s2) = Some b"
        "advanceBranch g i slot (moveBranch g i (b\<lparr>b_actor := Some systemPrincipal\<rparr>) (w_next w) s2) = Some s3"
        "settleScope (drain g f) g i s3 = Some s'" for i b s3
    proof -
      have "stays g s2 s3" if "inside (r_ctx s2)" "has_branch i b (r_ctx s2)"
      proof -
        from that have m: "stays g s2 (moveBranch g i (b\<lparr>b_actor := Some systemPrincipal\<rparr>) (w_next w) s2)"
          by (intro stays_ends) simp_all
        from stays_trans [OF m stays_advanceBranch [OF g leadsD(2) [OF m]]] \<open>advanceBranch _ _ _ _ = _\<close>
        show ?thesis .
      qed
      from branch_resting [OF g framed_states(3) [OF f s] that(1) this that(3)] show ?thesis
        by (rule framed_leads [OF f])
    qed
    from r False errs(3) show ?thesis
      by (auto simp: fireDeadline_def p Let_def bind_eq_Some_conv split: if_splits option.splits
          intro: errs br)
  qed
qed

lemma framed_fireScope [simp]: "framed g s (fireScope g w s)"
  by (auto simp: fireScope_def intro: framed_trans [OF framed_setStatus framed_add_error]
      split: option.splits Option.bind_splits)

lemma framed_awake: "framed g s (awake g slot s)"
proof -
  have "framed g (clearWaiting g slot s) (awake g slot s)"
    unfolding awake_def by (rule framed_stepI, rule fact_step.woke) (auto simp: unparked_def)
  with framed_clearWaiting show ?thesis by (rule framed_trans)
qed

lemma fireWaiting_resting:
  assumes g: "lawful g" and s: "resting (r_ctx s)" and w: "dget (c_waitings (r_ctx s)) slot = Some w"
    and r: "fireWaiting g f slot w s = Some s'"
  shows "leads g resting s s'"
proof -
  let ?t = "awake g slot s"
  have f: "framed g s ?t" by (rule framed_awake)
  then have t: "resting (r_ctx ?t)" using s by (rule framed_states)
  have id: "unparked (r_ctx ?t) \<and> c_scopes (r_ctx ?t) = [] \<and> w_node w = c_node (r_ctx ?t)"
    if "slot = instanceSlot"
    using that w s f by (auto simp: resting_def well_formed_def slot_ok_def framed_def)
      (simp add: awake_def unparked_def)
  have fr: "leads g resting s u" if "framed g ?t u" for u
    using framed_trans [OF f that] framed_states(3) [OF _ s] by (auto simp: leads_def framed_def)
  have nd: "leads g resting s s'" if "dget (pd_nodes (g_def g)) (w_node w) = Some n"
    "fireDeadline g f slot w n ?t = Some s'" for n
    by (rule framed_leads [OF f fireDeadline_resting [OF g t _ that(2)]]) (use id in blast)
  have nt: "leads g resting s s'" if "dget (pd_nodes (g_def g)) (w_node w) = Some n"
    "fireTimer g f slot n ?t = Some s'" for n
    by (rule framed_leads [OF f fireTimer_resting [OF g t _ that(2)]])
      (use id lawfulD(3) [OF g that(1)] in auto)
  have "fireWaiting g f slot w s =
      (if w_kind w = ''scope_timeout'' then Some (fireScope g w ?t)
       else case dget (pd_nodes (g_def g)) (w_node w) of
              None \<Rightarrow> Some (setStatus g StatusFailed (add_error (EWaitingNodeNotFound (w_node w)) ?t))
            | Some n \<Rightarrow> if w_kind w = ''deadline'' \<or> w_kind w = ''ai_request''
                then fireDeadline g f slot w n ?t else fireTimer g f slot n ?t)"
    by (simp add: fireWaiting_def Let_def)
  with r show ?thesis
    by (auto split: if_splits option.splits intro: fr nd nt framed_trans [OF framed_add_error framed_setStatus])
qed

lemma wake_loop_resting:
  "lawful g \<Longrightarrow> resting (r_ctx s) \<Longrightarrow> wake_loop g f k t s = Some s' \<Longrightarrow> leads g resting s s'"
proof (induction k arbitrary: s)
  case (Suc k)
  note g = Suc.prems(1) and s = Suc.prems(2)
  obtain ks s1 where k: "rangeKeys g (c_waitings (r_ctx s)) s = (ks, s1)" by fastforce
  with framed_rangeKeys [of g s "c_waitings (r_ctx s)"] have f1: "framed g s s1" by simp
  have r1: "resting (r_ctx s1)" by (rule framed_states(3) [OF f1 s])
  show ?case
  proof (cases "nextDueWaiting ks t (r_ctx s1)")
    case None
    with Suc.prems(3) k r1 f1 show ?thesis by (auto simp: leads_def framed_def)
  next
    case (Some sw)
    obtain slot w where sw: "sw = (slot, w)" by fastforce
    obtain fresh s2 where c: "TryConsumeEvent g (wakeID slot w) s1 = (fresh, s2)" by fastforce
    with framed_consume [of g s1 "wakeID slot w"] have f2: "framed g s s2" by (auto intro: framed_trans [OF f1])
    have r2: "resting (r_ctx s2)" by (rule framed_states(3) [OF f2 s])
    from c event_ops_fields(2) [of g "wakeID slot w" s1] nextDue_member [OF Some [unfolded sw]]
    have w: "dget (c_waitings (r_ctx s2)) slot = Some w" by simp
    have stale: "leads g resting s s'" if "wake_loop g f k t (clearWaiting g slot s2) = Some s'"
      by (rule framed_leads [OF framed_trans [OF f2 framed_clearWaiting]
            Suc.IH [OF g framed_states(3) [OF framed_clearWaiting r2] that]])
    have fired: "leads g resting s s'" if "fireWaiting g f slot w s2 = Some s3" "wake_loop g f k t s3 = Some s'" for s3
    proof -
      from fireWaiting_resting [OF g r2 w that(1)] have l: "leads g resting s s3" by (rule framed_leads [OF f2])
      from leads_trans [OF leadsD(1) [OF l] Suc.IH [OF g leadsD(2) [OF l] that(2)]] show ?thesis .
    qed
    from Suc.prems(3) k Some sw c show ?thesis
      by (auto simp: bind_eq_Some_conv split: if_splits intro: stale fired)
  qed
qed simp

lemma WakeDue_resting:
  "lawful g \<Longrightarrow> resting (r_ctx s) \<Longrightarrow> WakeDue g f t s = Some s' \<Longrightarrow> leads g resting s s'"
  unfolding WakeDue_def
  by (rule framed_leads [OF framed_res wake_loop_resting]) (auto intro: framed_states(3) [OF framed_res])

lemma Compensate_framed: "lawful g \<Longrightarrow> framed g s (snd (Compensate g s))"
  by (auto simp: Compensate_def Let_def
      intro: framed_trans [OF framed_trans [OF framed_res framed_compensate] framed_res])

subsection \<open>Starting\<close>

lemma Start_resting:
  assumes g: "lawful g" and s: "calm (r_ctx s)" and ev: "ev_name ev \<noteq> ''''"
    and r: "Start g f iid xid vars ev s = Some s'"
  shows "leads g resting (started g iid xid s) s'"
proof -
  let ?s2 = "started g iid xid s"
  have c2: "calm (r_ctx ?s2)"
    using s by (auto simp: started_def calm_def well_formed_def unparked_def slot_ok_def)
  obtain ks s3 where k: "rangeKeys g vars ?s2 = (ks, s3)" by fastforce
  obtain ok s5 where a: "AcceptEvent g ev (set_variables g vars ks s3) = (ok, s5)" by fastforce
  from k have "framed g ?s2 s3" using framed_rangeKeys [of g ?s2 vars] by simp
  then have f: "framed g ?s2 s5"
    using a framed_accept [OF ev, of g "set_variables g vars ks s3"]
    by (auto intro: framed_trans framed_trans [OF framed_set_variables])
  have c5: "calm (r_ctx s5)" by (rule framed_states(1) [OF f c2])
  have l: "leads g calm ?s2 (setStatus g StatusRunning (setNode g n s5))" for n
  proof -
    from calm_setNode [OF c5] have n: "leads g calm s5 (setNode g n s5)" .
    from leads_trans [OF leadsD(1) [OF n] calm_framed [OF framed_setStatus leadsD(2) [OF n]]]
    show ?thesis by (rule framed_leads [OF f])
  qed
  have dup: "leads g resting ?s2 (add_error e s5)" for e
    using calm_framed [OF framed_add_error c5] by (auto intro: framed_leads [OF f] leads_calm_resting)
  have dr: "leads g resting ?s2 s'" if "drain g f (setStatus g StatusRunning (setNode g n s5)) = Some s'" for n
    by (rule leads_trans [OF leadsD(1) [OF l] drain_resting [OF g leadsD(2) [OF l] that]])
  from r k a show ?thesis
    by (auto simp: Start_def Let_def split: if_splits intro: dup dr)
qed

end
