(* ===== verification/Replay.thy ===== *)
theory Replay
  imports Trace
begin

text \<open>
  Replay: the live context and the fold of its journal agree after every call. \<open>fact_log\<close> is
  the interface the runtime has to a journal (\<open>Journal\<close>, \<open>JournalReader\<close> and
  \<open>JournalProgress\<close> of \<open>src/dsl/journal.go\<close>), \<open>agree\<close> the part of the context that is
  folded, \<open>mirrors\<close> the refinement relation between a runtime and its journal. Agreement is
  proved for one fact step and lifted along the decomposition of \<open>Trace\<close>.
\<close>

subsection \<open>The interface of a journal\<close>

locale fact_log =
  fixes app :: "'j \<Rightarrow> occurrence \<Rightarrow> 'j \<times> err option"
    and load :: "'j \<Rightarrow> string \<Rightarrow> occurrence list"
    and max_seq :: "'j \<Rightarrow> string \<Rightarrow> int"
    and ok :: "'j \<Rightarrow> bool"
  assumes stored: "ok j \<Longrightarrow> app j occ = (j', None) \<Longrightarrow>
      ok j' \<and> load j' (o_instance occ) = load j (o_instance occ) @ [occ\<lparr>o_seq := max_seq j' (o_instance occ)\<rparr>]
      \<and> max_seq j (o_instance occ) < max_seq j' (o_instance occ)"
    and others: "ok j \<Longrightarrow> app j occ = (j', None) \<Longrightarrow> i \<noteq> o_instance occ \<Longrightarrow>
      load j' i = load j i \<and> max_seq j' i = max_seq j i"
    and refused: "ok j \<Longrightarrow> app j occ = (j', Some e) \<Longrightarrow>
      ok j' \<and> load j' i = load j i \<and> max_seq j' i = max_seq j i"
    and ascending: "ok j \<Longrightarrow> sorted_wrt (<) (map o_seq (load j i))"
    and newest: "ok j \<Longrightarrow> occ \<in> set (load j i) \<Longrightarrow> o_seq occ \<le> max_seq j i"
begin

lemma appended: "ok j \<Longrightarrow> app j occ = (j', r) \<Longrightarrow> \<exists>new. load j' i = load j i @ new"
  using stored [of j occ j'] others [of j occ j' i] refused [of j occ j' _ i]
  by (cases r) (auto, metis append_Nil2)

text \<open>What was read of a journal is what \<open>FoldTo\<close> sees of it later, up to the then newest number.\<close>

lemma prefix_of_later:
  assumes "ok j" and "load j i = old @ new" and "\<forall>occ \<in> set old. o_seq occ \<le> n"
    and "\<forall>occ \<in> set new. n < o_seq occ"
  shows "prefix_upto (load j i) n = old"
  using assms(3,4) unfolding assms(2)
  by (induction old) (cases new; auto)+

end

subsection \<open>The in-memory journal keeps the contract\<close>

definition mem_ok :: "memory_journal \<Rightarrow> bool" where
  "mem_ok m \<longleftrightarrow> sorted_wrt (<) (map o_seq (mj_occs m)) \<and> (\<forall>occ \<in> set (mj_occs m). o_seq occ \<le> mj_next m)
     \<and> (\<forall>i. memMaxSeq m i \<le> mj_next m) \<and> (\<forall>occ \<in> set (mj_occs m). o_seq occ \<le> memMaxSeq m (o_instance occ))"

lemma mem_append_load:
  "memLoad (fst (memAppend m occ)) i =
     memLoad m i @ (if i = o_instance occ then [occ\<lparr>o_seq := mj_next m + 1\<rparr>] else [])"
  by (simp add: memLoad_def memAppend_def Let_def)

lemma mem_append_max:
  "mem_ok m \<Longrightarrow> memMaxSeq (fst (memAppend m occ)) i = (if i = o_instance occ then mj_next m + 1 else memMaxSeq m i)"
  by (auto simp: mem_ok_def memMaxSeq_def memAppend_def Let_def dest: spec [of _ "o_instance occ"])

lemma mem_append_ok: "mem_ok m \<Longrightarrow> mem_ok (fst (memAppend m occ))"
proof -
  assume ok: "mem_ok m"
  note mx = mem_append_max [OF ok, of occ]
  have occs: "mj_occs (fst (memAppend m occ)) = mj_occs m @ [occ\<lparr>o_seq := mj_next m + 1\<rparr>]"
    and nx: "mj_next (fst (memAppend m occ)) = mj_next m + 1" by (simp_all add: memAppend_def Let_def)
  show ?thesis
    using ok unfolding mem_ok_def occs nx mx
    by (auto simp: sorted_wrt_append intro: order_trans)
qed

interpretation mem_log: fact_log memAppend memLoad memMaxSeq mem_ok
proof
  fix j j' :: memory_journal and occ :: occurrence and i e
  assume ok: "mem_ok j"
  { assume a: "memAppend j occ = (j', None)"
    then have j': "j' = fst (memAppend j occ)" by simp
    show "mem_ok j' \<and> memLoad j' (o_instance occ) =
        memLoad j (o_instance occ) @ [occ\<lparr>o_seq := memMaxSeq j' (o_instance occ)\<rparr>]
        \<and> memMaxSeq j (o_instance occ) < memMaxSeq j' (o_instance occ)"
      unfolding j' using mem_append_ok [OF ok] ok
      by (auto simp: mem_append_load mem_append_max [OF ok] mem_ok_def intro: le_less_trans)
    assume "i \<noteq> o_instance occ"
    then show "memLoad j' i = memLoad j i \<and> memMaxSeq j' i = memMaxSeq j i"
      unfolding j' by (simp add: mem_append_load mem_append_max [OF ok]) }
  show "mem_ok j' \<and> memLoad j' i = memLoad j i \<and> memMaxSeq j' i = memMaxSeq j i"
    if "memAppend j occ = (j', Some e)"
    using that by (simp add: memAppend_def Let_def)
  show "sorted_wrt (<) (map o_seq (memLoad j i))"
    using ok by (auto simp: mem_ok_def memLoad_def sorted_wrt_map intro: sorted_wrt_filter)
  show "o_seq occ \<le> memMaxSeq j i" if "occ \<in> set (memLoad j i)"
    using ok that by (auto simp: mem_ok_def memLoad_def)
qed

lemma NewMemoryJournal_ok: "mem_ok NewMemoryJournal"
  by (simp add: mem_ok_def NewMemoryJournal_def memMaxSeq_def)

subsection \<open>Agreement of a live context and a folded one\<close>

text \<open>
  Left out: the tenant and the metadata (never journaled), the attempt count (never written),
  the time stamps (a fact carries the time of its recording), whether a failure was permanent
  (not a field of a fact). The folded table of processed events keeps what the live one swept.
\<close>

definition folded_result :: "effect_result \<Rightarrow> effect_result" where
  "folded_result r = r\<lparr>sr_error := errText (sr_error r), sr_permanent := False\<rparr>"

definition agree :: "ctx \<Rightarrow> ctx \<Rightarrow> bool" where
  "agree c f \<longleftrightarrow>
     c_process c = c_process f \<and> c_definition c = c_definition f \<and>
     c_instance c = c_instance f \<and> c_execution c = c_execution f \<and>
     c_node c = c_node f \<and> c_status c = c_status f \<and> c_vars c = c_vars f \<and>
     c_event c = c_event f \<and> c_scopes c = c_scopes f \<and> c_waitings c = c_waitings f \<and>
     map folded_result (c_results c) = c_results f \<and> c_undo c = c_undo f \<and>
     c_visits c = c_visits f \<and> (\<forall>k. IsProcessedEvent k c \<longrightarrow> IsProcessedEvent k f)"

definition mirrors ::
  "('j \<Rightarrow> string \<Rightarrow> occurrence list) \<Rightarrow> ('j \<Rightarrow> bool) \<Rightarrow> process_def \<Rightarrow> int \<Rightarrow> ('h, 'j) rts \<Rightarrow> bool" where
  "mirrors load ok def t s \<longleftrightarrow> (\<exists>j. r_journal s = Some j \<and> ok j \<and>
     (r_journalErr s = None \<longrightarrow>
        (\<exists>f. foldContext def t (load j (c_instance (r_ctx s))) = Inr f \<and> agree (r_ctx s) f)))"

lemma mirrorsI:
  "r_journal s = Some j \<Longrightarrow> ok j \<Longrightarrow> (r_journalErr s = None \<Longrightarrow>
     \<exists>f. foldContext def t (load j (c_instance (r_ctx s))) = Inr f \<and> agree (r_ctx s) f)
   \<Longrightarrow> mirrors load ok def t s"
  by (auto simp: mirrors_def)

lemma mirrors_quiet:
  "mirrors load ok def t s \<Longrightarrow> r_ctx s' = r_ctx s \<Longrightarrow> r_journal s' = r_journal s
    \<Longrightarrow> r_journalErr s' = r_journalErr s \<Longrightarrow> mirrors load ok def t s'"
  by (simp add: mirrors_def)

context fact_log
begin

text \<open>Recording a fact whose fold does what the live context did keeps the mirror.\<close>

lemma mirrors_record:
  assumes g: "g_append g = app" and m: "mirrors load ok def t s"
    and j: "r_journal s1 = r_journal s" "r_journalErr s1 = r_journalErr s"
    and i: "c_instance (r_ctx s1) = c_instance (r_ctx s)"
    and fill: "\<And>x. o_instance (fill x) = o_instance x"
    and step: "\<And>f tm n. agree (r_ctx s) f \<Longrightarrow>
      \<exists>f'. applyOcc f ((fill ((blank_occ k)\<lparr>o_time := tm, o_instance := c_instance (r_ctx s1),
                                o_execution := c_execution (r_ctx s1)\<rparr>))\<lparr>o_seq := n\<rparr>) = Inr f' \<and> agree (r_ctx s1) f'"
  shows "mirrors load ok def t (recordOcc g k fill s1)"
proof -
  from m obtain j where js: "r_journal s = Some j" "ok j"
    and fold: "r_journalErr s = None \<Longrightarrow> \<exists>f. foldContext def t (load j (c_instance (r_ctx s))) = Inr f \<and> agree (r_ctx s) f"
    by (auto simp: mirrors_def)
  define occ where "occ = fill ((blank_occ k)\<lparr>o_time := g_clock g (r_tick s1), o_instance := c_instance (r_ctx s1),
    o_execution := c_execution (r_ctx s1)\<rparr>)"
  have oi: "o_instance occ = c_instance (r_ctx s)" by (simp add: occ_def fill i)
  obtain j' e where a: "app j occ = (j', e)" by fastforce
  have rec: "r_journal (recordOcc g k fill s1) = Some j'"
    "r_journalErr (recordOcc g k fill s1) =
      (case e of None \<Rightarrow> r_journalErr s | Some x \<Rightarrow> (case r_journalErr s of None \<Rightarrow> Some x | Some y \<Rightarrow> Some y))"
    using a j js g by (auto simp: recordOcc_def now_def occ_def Let_def split: option.splits)
  show ?thesis
  proof (cases e)
    case None
    from stored [OF js(2) a [unfolded None]] oi have ok': "ok j'" and ld: "load j' (c_instance (r_ctx s)) =
        load j (c_instance (r_ctx s)) @ [occ\<lparr>o_seq := max_seq j' (c_instance (r_ctx s))\<rparr>]" by auto
    show ?thesis
    proof (rule mirrorsI, rule rec(1), rule ok')
      assume "r_journalErr (recordOcc g k fill s1) = None"
      with rec(2) None fold obtain f where
        f: "foldContext def t (load j (c_instance (r_ctx s))) = Inr f" "agree (r_ctx s) f" by auto
      from step [OF f(2)] f(1) show "\<exists>f. foldContext def t (load j' (c_instance (r_ctx (recordOcc g k fill s1)))) = Inr f
          \<and> agree (r_ctx (recordOcc g k fill s1)) f"
        by (simp add: i ld foldContext_snoc occ_def)
    qed
  next
    case (Some x)
    with rec refused [OF js(2)] a show ?thesis
      by (auto simp: mirrors_def split: option.splits)
  qed
qed

end

lemmas fold_simps = applyOcc_def blank_occ_def agree_def IsProcessedEvent_def

text \<open>Tracking an event adds at most its own key.\<close>

lemma evict_keys: "dget (evict_oldest n ord d) k \<noteq> None \<Longrightarrow> dget d k \<noteq> None"
  by (induction n arbitrary: d) (force simp: Let_def split: if_splits)+

lemma sweep_keys:
  assumes "dget (sweepProcessedEvents ord tm d) k \<noteq> None"
  shows "dget d k \<noteq> None"
proof -
  from assms have "dget (filter (\<lambda>(k, ts). \<not> ts \<le> tm - processedEventTTL) d) k \<noteq> None"
    unfolding sweepProcessedEvents_def Let_def by (rule evict_keys)
  then have "k \<in> set (dkeys (filter (\<lambda>(k, ts). \<not> ts \<le> tm - processedEventTTL) d))"
    by (simp only: dget_eq_None_iff) simp
  then have "k \<in> set (dkeys d)" by auto
  then show ?thesis by (simp only: dget_eq_None_iff) simp
qed

lemma trackEvent_keys: "dget (trackEvent ord e tm d) k \<noteq> None \<Longrightarrow> k = e \<or> dget d k \<noteq> None"
  using sweep_keys [of ord tm d k] by (auto simp: trackEvent_def split: if_splits)

lemma track_processed: "IsProcessedEvent k (r_ctx (track g e s)) \<Longrightarrow> k = e \<or> IsProcessedEvent k (r_ctx s)"
  using trackEvent_keys by (simp add: IsProcessedEvent_def track_def now_def)

lemma track_other [simp]:
  "r_journal (track g e s) = r_journal s" "r_journalErr (track g e s) = r_journalErr s"
  "c_instance (r_ctx (track g e s)) = c_instance (r_ctx s)"
  by (simp_all add: track_def now_def)

text \<open>Consuming an event: the live table and the folded one both hold its ID.\<close>

lemma agree_consumed:
  assumes "agree (r_ctx s) f"
  shows "agree (r_ctx (track g e s)) (f\<lparr>c_processed := dput e tm (c_processed f)\<rparr>)"
  using assms track_processed [of _ g e s]
  by (subst primitive_ctx(10)) (auto simp: agree_def IsProcessedEvent_def)

lemma fire_undo_at:
  assumes "undo_ok us" and "i < length us"
  shows "fire_undo (u_key (us ! i)) us = us[i := (us ! i)\<lparr>u_done := True\<rparr>]"
  using assms undo_key_inj [OF assms(1)]
  by (intro nth_equalityI) (auto simp: fire_undo_def nth_list_update)

text \<open>The fold of a branch snapshot, at the one scope a context can have.\<close>

lemma fold_branch:
  assumes "agree c f" and "c_scopes c = [sc]" and "dget (ps_branches sc) (b_id b) = Some b0"
    and "o_kind occ = OccBranchUpdated" "o_branch occ = Some b" "o_node occ = ps_fork sc"
  shows "applyOcc f occ = Inr (f\<lparr>c_scopes := [sc\<lparr>ps_branches := dput (b_id b) b (ps_branches sc),
      ps_join := (if b_arrived b \<noteq> '''' \<and> ps_join sc = '''' then b_arrived b else ps_join sc)\<rparr>]\<rparr>)"
proof -
  from assms(1,2) have "c_scopes f = [sc]" by (simp add: agree_def)
  with assms(3-) show ?thesis
    by (simp add: applyOcc_def applyBranchUpdated_def findScopeByFork_def scopeAt_def getBranch_def
        put_branch_def set_join_def Let_def)
qed

lemma agree_scopes: "agree c f \<Longrightarrow> agree (c\<lparr>c_scopes := scs\<rparr>) (f\<lparr>c_scopes := scs\<rparr>)"
  by (simp add: agree_def IsProcessedEvent_def)

context fact_log
begin

lemma fact_step_mirrors:
  assumes g: "g_append g = app" and st: "fact_step g s s'" and wf: "well_formed (r_ctx s)"
    and m: "mirrors load ok def t s"
  shows "mirrors load ok def t s'"
  using st
proof cases
  case quiet
  with m show ?thesis by (auto intro: mirrors_quiet)
next
  case (status st)
  show ?thesis unfolding status setStatus_def Let_def split_def
    by (rule mirrors_record [OF g m])
      (auto simp: fold_simps applyStatus_def now_def Let_def)
next
  case (variable k v)
  show ?thesis unfolding variable SetVariable_def
    by (rule mirrors_record [OF g m]) (auto simp: fold_simps)
next
  case (node n)
  show ?thesis unfolding node setNode_def
    by (rule mirrors_record [OF g m]) (auto simp: fold_simps)
next
  case (visit n)
  show ?thesis unfolding visit IncrVisit_def
    by (rule mirrors_record [OF g m]) (auto simp: fold_simps VisitOf_def)
next
  case (waiting slot w)
  show ?thesis unfolding waiting(1) setWaiting_def
    by (rule mirrors_record [OF g m]) (auto simp: fold_simps)
next
  case (issue cmd)
  show ?thesis unfolding issue
    by (rule mirrors_record [OF g m]) (auto simp: fold_simps)
next
  case (result res cmd)
  show ?thesis unfolding result(1) addResult_def
    by (rule mirrors_record [OF g m])
      (auto simp: fold_simps fold_result_def folded_result_def result(2))
next
  case (undo u)
  show ?thesis unfolding undo(1) pushUndo_def
    by (rule mirrors_record [OF g m]) (auto simp: fold_simps)
next
  case (transition a b ev res)
  have st: "mirrors load ok def t (setStatus g StatusRunning s)"
    unfolding setStatus_def Let_def split_def
    by (rule mirrors_record [OF g m])
      (auto simp: fold_simps applyStatus_def now_def Let_def ParseExecutionStatus_def all_statuses_def)
  show ?thesis unfolding transition(1) assignTransition_def Let_def snd_conv
    by (rule mirrors_record [OF g st]) (auto simp: fold_simps applyStatus_def Let_def)
next
  case (consume k)
  have "mirrors load ok def t (recordOcc g OccEventConsumed (\<lambda>occ. occ\<lparr>o_event := Some (bare_event k)\<rparr>) (track g k s))"
    if "k \<noteq> ''''"
    using that by (intro mirrors_record [OF g m])
      (auto simp: applyOcc_def blank_occ_def applyEventConsumed_def bare_event_def intro: agree_consumed)
  then show ?thesis unfolding consume TryConsumeEvent_def using m by auto
next
  case (accept ev)
  let ?s1 = "if ev_id ev \<noteq> '''' then track g (ev_id ev) s else s"
  let ?h = "\<lambda>c. c\<lparr>c_event := Some ev\<rparr>"
  let ?fill = "\<lambda>occ. occ\<lparr>o_event := Some ev, o_actor := ev_principal ev\<rparr>"
  have sw: "modify_ctx ?h (recordOcc g OccEventConsumed ?fill ?s1) = recordOcc g OccEventConsumed ?fill (modify_ctx ?h ?s1)"
    by (simp add: recordOcc_def modify_ctx_def now_def Let_def split_def split: option.splits)
  have ag: "agree (r_ctx (modify_ctx ?h ?s1)) (applyEventConsumed occ f)"
    if "agree (r_ctx s) f" "o_event occ = Some ev" for f occ
    using agree_consumed [OF that(1), of g "ev_id ev" "o_time occ"] that accept(2)
    by (simp add: applyEventConsumed_def Let_def agree_def IsProcessedEvent_def)
  have "mirrors load ok def t (recordOcc g OccEventConsumed ?fill (modify_ctx ?h ?s1))"
    by (rule mirrors_record [OF g m])
      (use ag in \<open>auto simp: applyOcc_def blank_occ_def split: if_splits\<close>)
  then show ?thesis unfolding accept(1) AcceptEvent_def Let_def using m sw by auto
next
  case (release k)
  let ?s1 = "modify_ctx (\<lambda>c. c\<lparr>c_processed := ddel k (c_processed c)\<rparr>) s"
  have "mirrors load ok def t (recordOcc g OccEventReleased (\<lambda>occ. occ\<lparr>o_event := Some (bare_event k)\<rparr>) ?s1)"
    by (rule mirrors_record [OF g m]) (auto simp: fold_simps bare_event_def)
  moreover have "?s1 = s" if "\<not> IsProcessedEvent k (r_ctx s)"
    using that by (simp add: IsProcessedEvent_def dget_eq_None_iff delete_idem modify_ctx_def)
  ultimately show ?thesis unfolding release ReleaseEvent_def Let_def using m by auto
next
  case (push sc)
  show ?thesis unfolding push(1) PushScope_def
    by (rule mirrors_record [OF g m]) (auto simp: fold_simps)
next
  case pop
  show ?thesis unfolding pop PopScope_def using m
    by (auto split: option.splits intro!: mirrors_record [OF g m] simp: fold_simps)
next
  case (clear slot)
  show ?thesis unfolding clear clearWaiting_def using m
    by (auto intro!: mirrors_record [OF g m] simp: fold_simps)
next
  case (woke slot)
  then have "ddel slot (c_waitings (r_ctx s)) = c_waitings (r_ctx s)"
    by (simp add: dget_eq_None_iff delete_idem)
  then show ?thesis unfolding woke(1)
    by (intro mirrors_record [OF g m]) (auto simp: fold_simps)
next
  case (fire i)
  have "fire_undo (u_key (c_undo (r_ctx s) ! i)) (c_undo (r_ctx s)) =
      (c_undo (r_ctx s))[i := (c_undo (r_ctx s) ! i)\<lparr>u_done := True\<rparr>]"
    by (rule fire_undo_at) (use wf fire(2) in \<open>auto simp: well_formed_def\<close>)
  then show ?thesis unfolding fire(1) fireUndo_def Let_def
    by (intro mirrors_record [OF g m]) (auto simp: fold_simps)
next
  case (branch i b b0)
  from one_scope [OF well_formedD(1) [OF wf] branch(2)] obtain sc where
    sc: "i = 0" "c_scopes (r_ctx s) = [sc]" "dget (ps_branches sc) (b_id b) = Some b0" by blast
  with wf have "b_arrived b \<noteq> '''' \<Longrightarrow> ps_join sc \<noteq> ''''"
    using branch(3) by (auto simp: well_formed_def dest: scope_ok_arrived)
  with sc have put: "put_branch i b (r_ctx s) = (r_ctx s)\<lparr>c_scopes := [sc\<lparr>ps_branches := dput (b_id b) b (ps_branches sc),
      ps_join := (if b_arrived b \<noteq> '''' \<and> ps_join sc = '''' then b_arrived b else ps_join sc)\<rparr>]\<rparr>"
    by (auto simp: put_branch_def scopeAt_def)
  have fork: "scopeFork i (r_ctx s) = ps_fork sc" using sc by (simp add: scopeFork_def scopeAt_def)
  show ?thesis unfolding branch(1) journalBranch_def fork
    by (rule mirrors_record [OF g m]) (auto simp: put blank_occ_def fold_branch [OF _ sc(2,3)] intro: agree_scopes)
next
  case (joined i b b0 j)
  from one_scope [OF well_formedD(1) [OF wf] joined(2)] obtain sc where
    sc: "i = 0" "c_scopes (r_ctx s) = [sc]" "dget (ps_branches sc) (b_id b) = Some b0" by blast
  define b' where "b' = b\<lparr>b_done := True, b_arrived := j, b_status := StatusCompleted, b_finished := fst (now g s)\<rparr>"
  define s1 where "s1 = modify_ctx (set_join 0 j) (modify_ctx (put_branch 0 b') (snd (now g s)))"
  have eq: "s' = recordOcc g OccBranchUpdated (\<lambda>occ. occ\<lparr>o_node := ps_fork sc, o_branch := Some b'\<rparr>) s1"
    using sc by (simp add: joined(1) branchReachedJoin_def now_def b'_def s1_def put_branch_def set_join_def
        scopeAt_def scopeOfBranch_def scopeFork_def Let_def)
  have b': "b_id b' = b_id b" "b_arrived b' = j" by (simp_all add: b'_def)
  have ctx: "r_ctx s1 = (r_ctx s)\<lparr>c_scopes := [sc\<lparr>ps_branches := dput (b_id b') b' (ps_branches sc),
      ps_join := (if b_arrived b' \<noteq> '''' \<and> ps_join sc = '''' then b_arrived b' else ps_join sc)\<rparr>]\<rparr>"
    using sc b' by (auto simp: s1_def now_def put_branch_def set_join_def scopeAt_def)
  show ?thesis unfolding eq
    by (rule mirrors_record [OF g m])
      (auto simp: ctx b'(1) blank_occ_def fold_branch [OF _ sc(2), of f b' b0 for f] sc(3) intro: agree_scopes,
        simp_all add: s1_def now_def)
qed

lemma fact_steps_mirrors:
  assumes g: "g_append g = app"
  shows "fact_steps g s s' \<Longrightarrow> well_formed (r_ctx s) \<Longrightarrow> mirrors load ok def t s \<Longrightarrow> mirrors load ok def t s'"
proof (induction rule: rtranclp_induct)
  case (step y z)
  then show ?case by (auto intro: fact_step_mirrors [OF g] fact_steps_well_formed)
qed simp

end

subsection \<open>The journal only grows\<close>

inductive logged :: "('h, 'j) cfg \<Rightarrow> string \<Rightarrow> 'j \<Rightarrow> 'j \<Rightarrow> bool" for g i where
  logged_refl: "logged g i j j"
| logged_app: "logged g i j j1 \<Longrightarrow> o_instance occ = i \<Longrightarrow> g_append g j1 occ = (j2, e) \<Longrightarrow> logged g i j j2"

lemma logged_trans: "logged g i j1 j2 \<Longrightarrow> logged g i j0 j1 \<Longrightarrow> logged g i j0 j2"
  by (induction rule: logged.induct) (auto intro: logged.intros)

lemma recordOcc_logged:
  assumes "r_journal s = Some j" and "\<And>x. o_instance (fill x) = o_instance x"
  shows "\<exists>j'. r_journal (recordOcc g k fill s) = Some j' \<and> logged g (c_instance (r_ctx s)) j j'"
proof -
  define occ where "occ = fill ((blank_occ k)\<lparr>o_time := g_clock g (r_tick s), o_instance := c_instance (r_ctx s),
    o_execution := c_execution (r_ctx s)\<rparr>)"
  obtain j' e where a: "g_append g j occ = (j', e)" by fastforce
  have "o_instance occ = c_instance (r_ctx s)" by (simp add: occ_def assms(2))
  from logged_app [OF logged_refl this a] have "logged g (c_instance (r_ctx s)) j j'" .
  with assms(1) a show ?thesis
    by (auto simp: recordOcc_def now_def occ_def Let_def split: option.splits)
qed

lemma recordOcc_grows:
  assumes "r_journal s = Some j" and "r_journal s1 = r_journal s" and "c_instance (r_ctx s1) = c_instance (r_ctx s)"
    and "\<And>x. o_instance (fill x) = o_instance x"
  shows "c_instance (r_ctx (recordOcc g k fill s1)) = c_instance (r_ctx s) \<and>
    (\<exists>j'. r_journal (recordOcc g k fill s1) = Some j' \<and> logged g (c_instance (r_ctx s)) j j')"
  using recordOcc_logged [of s1 j fill g k] assms by simp

lemma scope_writes_instance [simp]:
  "c_instance (put_branch i b c) = c_instance c" "c_instance (set_join i j c) = c_instance c"
  by (simp_all add: put_branch_def set_join_def split: option.splits)

lemma fact_step_grows:
  assumes "fact_step g s s'" and j: "r_journal s = Some j"
  shows "c_instance (r_ctx s') = c_instance (r_ctx s) \<and>
    (\<exists>j'. r_journal s' = Some j' \<and> logged g (c_instance (r_ctx s)) j j')"
  using assms(1)
proof cases
  case (status st)
  show ?thesis unfolding status setStatus_def Let_def split_def
    by (rule recordOcc_grows [OF j]) (auto simp: now_def)
next
  case (transition a b ev res)
  have st: "c_instance (r_ctx (setStatus g StatusRunning s)) = c_instance (r_ctx s) \<and>
      (\<exists>j'. r_journal (setStatus g StatusRunning s) = Some j' \<and> logged g (c_instance (r_ctx s)) j j')"
    unfolding setStatus_def Let_def split_def by (rule recordOcc_grows [OF j]) (auto simp: now_def)
  then obtain j1 where j1: "r_journal (setStatus g StatusRunning s) = Some j1" "logged g (c_instance (r_ctx s)) j j1"
    by blast
  have "c_instance (r_ctx s') = c_instance (r_ctx (setStatus g StatusRunning s)) \<and>
    (\<exists>j'. r_journal s' = Some j' \<and> logged g (c_instance (r_ctx (setStatus g StatusRunning s))) j1 j')"
    unfolding transition(1) assignTransition_def Let_def snd_conv
    by (rule recordOcc_grows [OF j1(1)]) (auto simp: Let_def)
  with st j1(2) show ?thesis by (auto intro: logged_trans)
next
  case (consume k)
  show ?thesis unfolding consume TryConsumeEvent_def using j
    by (auto intro: logged_refl intro!: recordOcc_grows [OF j, THEN conjunct2])
next
  case (accept ev)
  show ?thesis unfolding accept(1) AcceptEvent_def Let_def using j
    by (auto intro: logged_refl intro!: recordOcc_grows [OF j, THEN conjunct2])
next
  case (release k)
  show ?thesis unfolding release ReleaseEvent_def Let_def using j
    by (auto intro: logged_refl intro!: recordOcc_grows [OF j, THEN conjunct2])
next
  case quiet
  with j show ?thesis by (auto intro: logged_refl)
next
  case pop
  show ?thesis unfolding pop PopScope_def using j
    by (auto intro: logged_refl intro!: recordOcc_grows [OF j, THEN conjunct2] split: option.splits)
next
  case (clear slot)
  show ?thesis unfolding clear clearWaiting_def using j
    by (auto intro: logged_refl intro!: recordOcc_grows [OF j, THEN conjunct2])
next
  case (joined i b b0 jn)
  show ?thesis unfolding joined(1) branchReachedJoin_def Let_def split_def using j
    by (auto simp: now_def intro!: recordOcc_grows [OF j, THEN conjunct2]
        intro: logged_refl split: option.splits)
qed (use j in \<open>auto simp: SetVariable_def setNode_def PushScope_def IncrVisit_def setWaiting_def
       journalBranch_def addResult_def pushUndo_def fireUndo_def Let_def
       intro!: recordOcc_grows [OF j, THEN conjunct2]\<close>)

lemma fact_steps_grow:
  assumes "fact_steps g s s'" and "r_journal s = Some j"
  shows "c_instance (r_ctx s') = c_instance (r_ctx s) \<and>
    (\<exists>j'. r_journal s' = Some j' \<and> logged g (c_instance (r_ctx s)) j j')"
  using assms(1)
proof (induction rule: rtranclp_induct)
  case (step y z)
  then obtain j1 where "r_journal y = Some j1" "logged g (c_instance (r_ctx s)) j j1"
    "c_instance (r_ctx y) = c_instance (r_ctx s)" by blast
  with fact_step_grows [OF step.hyps(2), of j1] show ?case by (auto intro: logged_trans)
qed (use assms(2) in \<open>auto intro: logged_refl\<close>)

context fact_log
begin

lemma logged_extends:
  assumes "g_append g = app"
  shows "logged g i j j' \<Longrightarrow> ok j \<Longrightarrow> ok j' \<and> max_seq j i \<le> max_seq j' i \<and>
    (\<exists>new. load j' i = load j i @ new \<and> (\<forall>occ \<in> set new. max_seq j i < o_seq occ))"
proof (induction rule: logged.induct)
  case (logged_app j j1 occ j2 e)
  then have ih: "ok j1" "max_seq j i \<le> max_seq j1 i" and
    new: "\<exists>new. load j1 i = load j i @ new \<and> (\<forall>occ \<in> set new. max_seq j i < o_seq occ)" by auto
  from logged_app assms have a: "app j1 occ = (j2, e)" by simp
  show ?case
  proof (cases e)
    case None
    from stored [OF ih(1) a [unfolded None]] logged_app(2) ih(2) new show ?thesis by fastforce
  next
    case (Some x)
    from refused [OF ih(1) a [unfolded Some], of i] ih new show ?thesis by auto
  qed
qed auto

end

subsection \<open>Sessions\<close>

text \<open>
  What a host does with an instance: it starts it on an empty log, feeds it named events, wakes
  it, compensates it, and after a crash resumes it from its log, in any order.
\<close>

inductive session ::
  "('j \<Rightarrow> string \<Rightarrow> occurrence list) \<Rightarrow> ('j \<Rightarrow> bool) \<Rightarrow> ('h, 'j) cfg \<Rightarrow> ('h, 'j) rts \<Rightarrow> bool"
  for load ok g where
  launch: "Start g f iid xid vars ev (NewRuntime (NewExecutionContext (g_def g) '''' '''' t) (Some j) h k) = Some s
    \<Longrightarrow> ev_name ev \<noteq> '''' \<Longrightarrow> ok j \<Longrightarrow> load j iid = [] \<Longrightarrow> session load ok g s"
| feed: "session load ok g s \<Longrightarrow> ev_name ev \<noteq> '''' \<Longrightarrow> Feed g f ev s = Some s' \<Longrightarrow> session load ok g s'"
| wake: "session load ok g s \<Longrightarrow> WakeDue g f t s = Some s' \<Longrightarrow> session load ok g s'"
| undo: "session load ok g s \<Longrightarrow> session load ok g (snd (Compensate g s))"
| resume: "session load ok g s \<Longrightarrow> r_journal s = Some j \<Longrightarrow> r_journalErr s = None
    \<Longrightarrow> Resume (g_def g) t (load j (c_instance (r_ctx s))) (Some j) h k = Inr s' \<Longrightarrow> session load ok g s'"

lemma no_tenant: "WithTenant '''' (NewExecutionContext def iid xid t) = NewExecutionContext def iid xid t"
  by (simp add: WithTenant_def NewExecutionContext_def)

lemma fresh_calm:
  "calm (NewExecutionContext def iid xid t)" "calm (WithTenant tn (NewExecutionContext def iid xid t))"
  by (simp_all add: WithTenant_def calm_def well_formed_def undo_ok_def slot_ok_def unparked_def NewExecutionContext_def)

lemma folded_twice: "folded_result (folded_result r) = folded_result r"
  by (simp add: folded_result_def errText_def)

lemma agree_folds:
  assumes "agree c f"
  shows "agree f f"
proof -
  from assms have "c_results f = map folded_result (c_results c)" by (simp add: agree_def)
  then have "map folded_result (c_results f) = c_results f" by (simp add: folded_twice)
  then show ?thesis by (simp add: agree_def)
qed

text \<open>The time of the call is all that two folds of one log can differ in.\<close>

lemma applyOcc_started:
  "applyOcc (c\<lparr>c_started := x\<rparr>) occ = map_sum id (\<lambda>c. c\<lparr>c_started := x\<rparr>) (applyOcc c occ)"
proof -
  have sw: "findScopeByFork k (c\<lparr>c_started := x\<rparr>) = findScopeByFork k c"
    "getBranch i k (c\<lparr>c_started := x\<rparr>) = getBranch i k c" "VisitOf k (c\<lparr>c_started := x\<rparr>) = VisitOf k c"
    "put_branch i b (c\<lparr>c_started := x\<rparr>) = (put_branch i b c)\<lparr>c_started := x\<rparr>"
    "set_join i k (c\<lparr>c_started := x\<rparr>) = (set_join i k c)\<lparr>c_started := x\<rparr>" for c :: ctx and i k b
    by (simp_all add: findScopeByFork_def getBranch_def scopeAt_def VisitOf_def put_branch_def set_join_def
        split: option.splits)
  show ?thesis
    by (cases "o_kind occ")
      (simp_all add: applyOcc_def applyEventConsumed_def applyStatus_def applyBranchUpdated_def sw Let_def
        split: option.splits)
qed

lemma foldOnto_started:
  "foldOnto (c\<lparr>c_started := x\<rparr>) occs = map_sum id (\<lambda>c. c\<lparr>c_started := x\<rparr>) (foldOnto c occs)"
  by (induction occs arbitrary: c) (simp_all add: applyOcc_started split: sum.splits)

lemma foldContext_time:
  "foldContext def t' occs = map_sum id (\<lambda>c. c\<lparr>c_started := t'\<rparr>) (foldContext def t occs)"
proof -
  have "NewExecutionContext def '''' '''' t' = (NewExecutionContext def '''' '''' t)\<lparr>c_started := t'\<rparr>"
    by (simp add: NewExecutionContext_def)
  then show ?thesis by (simp add: foldContext_def foldOnto_started)
qed

lemma agree_resting: "agree c f \<Longrightarrow> resting c \<Longrightarrow> resting f"
  by (simp add: agree_def resting_def well_formed_def slot_ok_def)

context fact_log
begin

lemma started_mirrors:
  assumes g: "g_append g = app" and j: "ok j" "load j iid = []"
  shows "mirrors load ok (g_def g) t
    (started g iid xid (NewRuntime (WithTenant tn (NewExecutionContext (g_def g) '''' '''' t0)) (Some j) h k))"
proof -
  let ?s = "NewRuntime (WithTenant tn (NewExecutionContext (g_def g) iid xid t0)) (Some j) h k"
  have "agree (r_ctx ?s) (NewExecutionContext (g_def g) iid xid t)"
    by (simp add: agree_def NewRuntime_def NewExecutionContext_def WithTenant_def IsProcessedEvent_def)
  have st: "started g iid xid (NewRuntime (WithTenant tn (NewExecutionContext (g_def g) '''' '''' t0)) (Some j) h k) =
      recordOcc g OccStarted (\<lambda>occ. occ\<lparr>o_instance := iid, o_execution := xid\<rparr>) ?s"
    by (simp add: started_def modify_ctx_def NewRuntime_def NewExecutionContext_def WithTenant_def)
  define occ where "occ = (blank_occ OccStarted)\<lparr>o_time := g_clock g (r_tick ?s), o_instance := iid, o_execution := xid\<rparr>"
  obtain j' e where a: "app j occ = (j', e)" by fastforce
  have rec: "r_journal (recordOcc g OccStarted (\<lambda>occ. occ\<lparr>o_instance := iid, o_execution := xid\<rparr>) ?s) = Some j'"
    "r_journalErr (recordOcc g OccStarted (\<lambda>occ. occ\<lparr>o_instance := iid, o_execution := xid\<rparr>) ?s) = e"
    using a g by (auto simp: recordOcc_def now_def occ_def blank_occ_def NewRuntime_def NewExecutionContext_def WithTenant_def
        Let_def split: option.splits)
  show ?thesis unfolding st
  proof (rule mirrorsI, rule rec(1))
    show "ok j'" using stored [OF j(1), of occ j'] refused [OF j(1), of occ j'] a by (cases e) auto
    assume "r_journalErr (recordOcc g OccStarted (\<lambda>occ. occ\<lparr>o_instance := iid, o_execution := xid\<rparr>) ?s) = None"
    with rec(2) stored [OF j(1), of occ j'] a j(2)
    have "load j' iid = [occ\<lparr>o_seq := max_seq j' iid\<rparr>]" by (auto simp: occ_def)
    then show "\<exists>f. foldContext (g_def g) t (load j' (c_instance (r_ctx
          (recordOcc g OccStarted (\<lambda>occ. occ\<lparr>o_instance := iid, o_execution := xid\<rparr>) ?s)))) = Inr f \<and>
        agree (r_ctx (recordOcc g OccStarted (\<lambda>occ. occ\<lparr>o_instance := iid, o_execution := xid\<rparr>) ?s)) f"
      by (simp add: foldContext_def occ_def fold_simps NewRuntime_def NewExecutionContext_def WithTenant_def)
  qed
qed

lemma leads_mirrors:
  "g_append g = app \<Longrightarrow> leads g resting s s' \<Longrightarrow> well_formed (r_ctx s) \<Longrightarrow> (\<And>t. mirrors load ok def t s)
    \<Longrightarrow> resting (r_ctx s') \<and> (\<forall>t. mirrors load ok def t s')"
  by (auto simp: leads_def intro: fact_steps_mirrors)

lemma resting_mirrors:
  assumes "g_append g = app" and "leads g resting s s'"
    and "resting (r_ctx s) \<and> (\<forall>t. mirrors load ok def t s)"
  shows "resting (r_ctx s') \<and> (\<forall>t. mirrors load ok def t s')"
proof (rule leads_mirrors [OF assms(1,2)])
  from assms(3) show "well_formed (r_ctx s)" by (simp add: resting_def)
  from assms(3) show "mirrors load ok def t s" for t by blast
qed

theorem session_mirrors:
  assumes g: "lawful g" "g_append g = app"
  shows "session load ok g s \<Longrightarrow> resting (r_ctx s) \<and> (\<forall>t. mirrors load ok (g_def g) t s)"
proof (induction rule: session.induct)
  case (launch f iid xid vars ev t j h k s)
  let ?n = "NewRuntime (NewExecutionContext (g_def g) '''' '''' t) (Some j) h k"
  have c: "calm (r_ctx ?n)" by (simp add: NewRuntime_def fresh_calm)
  from Start_resting [OF g(1) c launch(2,1)] have l: "leads g resting (started g iid xid ?n) s" .
  have "well_formed (r_ctx (started g iid xid ?n))"
    by (simp add: started_def NewRuntime_def NewExecutionContext_def well_formed_def undo_ok_def slot_ok_def)
  from leads_mirrors [OF g(2) l this started_mirrors [OF g(2) launch(3,4), where tn = "''''", unfolded no_tenant]] show ?case .
next
  case (feed s ev f s')
  from feed.IH have r: "resting (r_ctx s)" ..
  from resting_mirrors [OF g(2) Feed_resting [OF g(1) r feed(2,3)] feed.IH] show ?case .
next
  case (wake s f t s')
  from wake.IH have r: "resting (r_ctx s)" ..
  from resting_mirrors [OF g(2) WakeDue_resting [OF g(1) r wake(2)] wake.IH] show ?case .
next
  case (undo s)
  from undo.IH have r: "resting (r_ctx s)" ..
  have fr: "framed g s (snd (Compensate g s))" by (rule Compensate_framed [OF g(1)])
  have "leads g resting s (snd (Compensate g s))"
    using framed_states(3) [OF fr r] fr by (simp add: leads_framed)
  from resting_mirrors [OF g(2) this undo.IH] show ?case .
next
  case (resume s j t h k s')
  then obtain f where f: "foldContext (g_def g) t (load j (c_instance (r_ctx s))) = Inr f" "agree (r_ctx s) f"
    and ok: "ok j" by (fastforce simp: mirrors_def)
  with resume have s': "s' = NewRuntime f (Some j) h k" by (simp add: Resume_def)
  have i: "c_instance f = c_instance (r_ctx s)" using f(2) by (simp add: agree_def)
  have "mirrors load ok (g_def g) t' s'" for t'
  proof (rule mirrorsI)
    show "r_journal s' = Some j" by (simp add: s' NewRuntime_def)
    show "ok j" by (rule ok)
    have "agree f (f\<lparr>c_started := t'\<rparr>)" using agree_folds [OF f(2)] by (simp add: agree_def IsProcessedEvent_def)
    with f(1) i foldContext_time [of "g_def g" t' _ t]
    show "\<exists>f'. foldContext (g_def g) t' (load j (c_instance (r_ctx s'))) = Inr f' \<and> agree (r_ctx s') f'"
      by (simp add: s' NewRuntime_def)
  qed
  moreover have "resting (r_ctx s')" using agree_resting [OF f(2)] resume.IH by (simp add: s' NewRuntime_def)
  ultimately show ?case by simp
qed

end

end
