(* ===== verification/Samples.thy ===== *)
theory Samples
  imports Replay
begin

text \<open>
  Concrete instances for the witnesses: a linear approval, and a parallel process with two
  approval branches that join, on the in-memory journal and executor. The parameters of the
  model are instantiated by functions: an expression language whose only true expression is
  \<open>yes\<close>, a clock that ticks by one, and the order of keys as stored.
\<close>

definition plain_node :: "string \<Rightarrow> string \<Rightarrow> transition list \<Rightarrow> node" where
  "plain_node k ty trs = \<lparr>n_id = k, n_type = ty, n_label = '''', n_effects = [], n_trans = trs,
     n_fork = None, n_join = None, n_input = [], n_output = [], n_duration = '''', n_deadline = None,
     n_requirePrincipal = False, n_ai = None\<rparr>"

definition on_event :: "string \<Rightarrow> string \<Rightarrow> transition" where
  "on_event e nxt = \<lparr>tr_event = e, tr_when = '''', tr_next = nxt, tr_case = ''''\<rparr>"

definition sample_def :: "string \<Rightarrow> node list \<Rightarrow> process_def" where
  "sample_def start ns = \<lparr>pd_id = ''p'', pd_name = ''p'', pd_version = ''1'',
     pd_nodes = map (\<lambda>n. (n_id n, n)) ns, pd_start = start, pd_schema = [], pd_init = []\<rparr>"

definition sample_cfg :: "process_def \<Rightarrow> (memory_executor, memory_journal) cfg" where
  "sample_cfg def = \<lparr>g_def = def, g_evaluate = (\<lambda>e env. Inr (e = ''yes'')),
     g_evaluateAny = Some (\<lambda>e env. Inr (VStr e)), g_handle = memHandle, g_maxRetry = 0,
     g_append = memAppend, g_clock = int, g_order = (\<lambda>n ks. ks), g_render = (\<lambda>v. ''v''),
     g_autoCompensate = True, g_maxNodeVisits = 0\<rparr>"

definition sample_event :: "string \<Rightarrow> string \<Rightarrow> event" where
  "sample_event k name = \<lparr>ev_id = k, ev_name = name, ev_principal = None, ev_payload = None, ev_time = 1\<rparr>"

definition pay :: side_effect where
  "pay = SideEffect ''pay'' ''bank'' (RawBytes ''1'') True
     (Some (SideEffect ''refund'' ''bank'' (RawBytes ''1'') False None))"

definition approval_def :: process_def where
  "approval_def = sample_def ''s'' [
     (plain_node ''s'' ''start'' [on_event ''submit'' ''a''])\<lparr>n_effects := [pay]\<rparr>,
     (plain_node ''a'' ''approval'' [on_event ''ok'' ''e'', on_event ''again'' ''a''])
       \<lparr>n_deadline := Some \<lparr>dl_after = ''1h'', dl_next = ''e''\<rparr>\<rparr>,
     plain_node ''e'' ''end'' []]"

definition parallel_def :: process_def where
  "parallel_def = sample_def ''f'' [
     plain_node ''f'' ''parallel'' [on_event '''' ''x'', on_event '''' ''y''],
     plain_node ''x'' ''approval'' [on_event ''okx'' ''j''],
     plain_node ''y'' ''approval'' [on_event ''oky'' ''j''],
     plain_node ''j'' ''join'' [on_event '''' ''e''],
     plain_node ''e'' ''end'' []]"

definition fresh_runtime :: "process_def \<Rightarrow> (memory_executor, memory_journal) rts" where
  "fresh_runtime def = NewRuntime (NewExecutionContext def '''' '''' 0) (Some NewMemoryJournal)
     (NewInMemoryExecutor [''pay'', ''refund'']) 0"

definition launched :: "process_def \<Rightarrow> (memory_executor, memory_journal) rts option" where
  "launched def = Start (sample_cfg def) 3 ''i'' ''x'' [] (sample_event ''e1'' ''submit'') (fresh_runtime def)"

subsection \<open>What the samples do\<close>

lemma sample_lawful: "ids_match def \<Longrightarrow> lawful (sample_cfg def)"
  by (simp add: lawful_def sample_cfg_def mem_exec.effect_executor_axioms)

lemma sample_ids: "ids_match (sample_def start ns)"
  by (auto simp: ids_match_def sample_def_def)

lemma sample_append: "g_append (sample_cfg def) = memAppend" "g_def (sample_cfg def) = def"
  by (simp_all add: sample_cfg_def)

lemma approval_lawful: "lawful (sample_cfg approval_def)"
  by (rule sample_lawful) (simp add: approval_def_def sample_ids)

lemma parallel_lawful: "lawful (sample_cfg parallel_def)"
  by (rule sample_lawful) (simp add: parallel_def_def sample_ids)

text \<open>What a run shows: the status, the node, the errors of the journal, the number of facts.\<close>

definition shows_run :: "(memory_executor, memory_journal) rts option \<Rightarrow> (status \<times> string \<times> bool \<times> nat) option" where
  "shows_run r = map_option (\<lambda>s. (c_status (r_ctx s), c_node (r_ctx s), r_journalErr s = None,
     case r_journal s of None \<Rightarrow> 0 | Some j \<Rightarrow> length (memLoad j (c_instance (r_ctx s))))) r"

lemma launched_approval: "shows_run (launched approval_def) = Some (StatusWaiting, ''a'', True, 12)"
  by code_simp

lemma launched_parallel: "shows_run (launched parallel_def) = Some (StatusWaiting, ''f'', True, 9)"
  by code_simp

lemma launched_session:
  assumes "launched def = Some s"
  shows "session memLoad mem_ok (sample_cfg def) s"
proof (rule session.launch)
  show "Start (sample_cfg def) 3 ''i'' ''x'' [] (sample_event ''e1'' ''submit'')
      (NewRuntime (NewExecutionContext (g_def (sample_cfg def)) '''' '''' 0) (Some NewMemoryJournal)
        (NewInMemoryExecutor [''pay'', ''refund'']) 0) = Some s"
    using assms by (simp add: launched_def fresh_runtime_def sample_append)
qed (simp_all add: sample_event_def NewMemoryJournal_ok, simp add: memLoad_def NewMemoryJournal_def)

definition approved :: "(memory_executor, memory_journal) rts option" where
  "approved = Option.bind (launched approval_def) (Feed (sample_cfg approval_def) 3 (sample_event ''e2'' ''ok''))"

lemma approved_run: "shows_run approved = Some (StatusCompleted, ''e'', True, 19)"
  by code_simp

lemma shows_runE:
  assumes "shows_run r = Some (st, n, True, k)" and "0 < k"
  obtains s j where "r = Some s" "c_status (r_ctx s) = st" "c_node (r_ctx s) = n" "r_journal s = Some j"
    "r_journalErr s = None" "length (memLoad j (c_instance (r_ctx s))) = k"
  using assms by (auto simp: shows_run_def split: option.splits)

lemma launched_approvalE:
  obtains s j where "launched approval_def = Some s" "c_status (r_ctx s) = StatusWaiting"
    "c_node (r_ctx s) = ''a''" "r_journal s = Some j" "r_journalErr s = None"
  by (rule shows_runE [OF launched_approval]) simp_all

lemma approvedE:
  obtains s j where "approved = Some s" "c_status (r_ctx s) = StatusCompleted"
    "c_node (r_ctx s) = ''e''" "r_journal s = Some j" "r_journalErr s = None"
  by (rule shows_runE [OF approved_run]) simp_all

lemma approved_feed:
  obtains s s' where "launched approval_def = Some s" "approved = Some s'"
    "Feed (sample_cfg approval_def) 3 (sample_event ''e2'' ''ok'') s = Some s'"
  using approved_run by (auto simp: approved_def shows_run_def bind_eq_Some_conv)

end
