(* ===== verification/Guarantees.thy ===== *)
theory Guarantees
  imports Samples
begin

text \<open>
  What a host may rely on across calls: the journal of an instance is a complete and exact
  account of it. These are the properties of \<open>Replay\<close> on the in-memory journal, at the top
  level, with sessions of the samples as witnesses.
\<close>

text \<open>C1: at every point of a session (started, fed, woken, compensated and resumed after crashes
  in any order), as long as \<open>JournalError\<close> is nil, folding the instance's log with \<open>Fold\<close>
  succeeds and gives the live context in every folded field.\<close>

theorem replay_exact:
  assumes "lawful g" and "g_append g = memAppend" and "session memLoad mem_ok g s"
    and "r_journal s = Some j" and "r_journalErr s = None"
  shows "\<exists>f. foldContext (g_def g) t (memLoad j (c_instance (r_ctx s))) = Inr f \<and> agree (r_ctx s) f"
  using mem_log.session_mirrors [OF assms(1-3)] assms(4,5) by (auto simp: mirrors_def)

theorem replay_exact_witness:
  "\<exists>s j f. launched approval_def = Some s \<and> r_journal s = Some j \<and> c_node (r_ctx s) = ''a'' \<and>
     foldContext approval_def 7 (memLoad j (c_instance (r_ctx s))) = Inr f \<and> agree (r_ctx s) f"
proof -
  obtain s j where s: "launched approval_def = Some s" "c_node (r_ctx s) = ''a''" "r_journal s = Some j"
    "r_journalErr s = None" by (rule launched_approvalE)
  from replay_exact [OF approval_lawful sample_append(1) launched_session [OF s(1)] s(3,4), of 7] s
  show ?thesis by (auto simp: sample_append)
qed

text \<open>C2: after a crash, \<open>Resume\<close> on the log of a session succeeds; the resumed context agrees with
  the lost one, continues on the same journal, rests like it, and still refuses every event it had
  consumed.\<close>

theorem resume_recovers:
  assumes "lawful g" and "g_append g = memAppend" and "session memLoad mem_ok g s"
    and "r_journal s = Some j" and "r_journalErr s = None"
  shows "\<exists>s'. Resume (g_def g) t (memLoad j (c_instance (r_ctx s))) (Some j) h k = Inr s' \<and>
    agree (r_ctx s) (r_ctx s') \<and> r_journal s' = Some j \<and> resting (r_ctx s') \<and>
    (\<forall>ev. ev_id ev = '''' \<or> fst (AcceptEvent g ev s) \<or> \<not> fst (AcceptEvent g ev s'))"
proof -
  from mem_log.session_mirrors [OF assms(1-3)] have r: "resting (r_ctx s)" and
    m: "\<And>t. mirrors memLoad mem_ok (g_def g) t s" by blast+
  from m [of t] assms(4,5) obtain f where
    f: "foldContext (g_def g) t (memLoad j (c_instance (r_ctx s))) = Inr f" "agree (r_ctx s) f"
    by (auto simp: mirrors_def)
  have "\<not> fst (AcceptEvent g ev (NewRuntime f (Some j) h k))"
    if "ev_id ev \<noteq> ''''" "\<not> fst (AcceptEvent g ev s)" for ev
    using that f(2) by (auto simp: AcceptEvent_def agree_def NewRuntime_def Let_def split: if_splits)
  with f agree_resting [OF f(2) r] show ?thesis by (auto simp: Resume_def NewRuntime_def)
qed

theorem resume_recovers_witness:
  "\<exists>s j s'. launched approval_def = Some s \<and> r_journal s = Some j \<and>
     Resume approval_def 9 (memLoad j (c_instance (r_ctx s))) (Some j) (NewInMemoryExecutor []) 0 = Inr s' \<and>
     agree (r_ctx s) (r_ctx s') \<and> c_node (r_ctx s') = ''a''"
proof -
  obtain s j where s: "launched approval_def = Some s" "c_node (r_ctx s) = ''a''" "r_journal s = Some j"
    "r_journalErr s = None" by (rule launched_approvalE)
  from resume_recovers [OF approval_lawful sample_append(1) launched_session [OF s(1)] s(3,4),
      of 9 "NewInMemoryExecutor []" 0] s
  show ?thesis by (auto simp: sample_append agree_def)
qed

text \<open>C3: a \<open>Feed\<close> only appends: the log after it is the log before it followed by facts with
  greater sequence numbers.\<close>

theorem feed_appends:
  assumes "lawful g" and "g_append g = memAppend" and "session memLoad mem_ok g s"
    and "ev_name ev \<noteq> ''''" and "Feed g f ev s = Some s'" and "r_journal s = Some j"
  shows "\<exists>j' new. r_journal s' = Some j' \<and>
    memLoad j' (c_instance (r_ctx s)) = memLoad j (c_instance (r_ctx s)) @ new \<and>
    (\<forall>occ \<in> set new. memMaxSeq j (c_instance (r_ctx s)) < o_seq occ)"
proof -
  from mem_log.session_mirrors [OF assms(1-3)] assms(6) have r: "resting (r_ctx s)" and ok: "mem_ok j"
    by (auto simp: mirrors_def)
  from leadsD(1) [OF Feed_resting [OF assms(1) r assms(4,5)]] have "fact_steps g s s'" .
  from fact_steps_grow [OF this assms(6)] obtain j' where
    "r_journal s' = Some j'" "logged g (c_instance (r_ctx s)) j j'" by blast
  with mem_log.logged_extends [OF assms(2)] ok show ?thesis by blast
qed

theorem feed_appends_witness:
  "\<exists>s s' j j' new. approved = Some s' \<and> launched approval_def = Some s \<and> r_journal s = Some j \<and>
     r_journal s' = Some j' \<and> memLoad j' (c_instance (r_ctx s)) = memLoad j (c_instance (r_ctx s)) @ new \<and>
     (\<forall>occ \<in> set new. memMaxSeq j (c_instance (r_ctx s)) < o_seq occ)"
proof -
  obtain s s' where s: "launched approval_def = Some s" "approved = Some s'"
    "Feed (sample_cfg approval_def) 3 (sample_event ''e2'' ''ok'') s = Some s'" by (rule approved_feed)
  with launched_approvalE obtain j where j: "r_journal s = Some j" by (metis option.inject)
  from feed_appends [OF approval_lawful sample_append(1) launched_session [OF s(1)] _ s(3) j] s j
  show ?thesis by (auto simp: sample_event_def)
qed

text \<open>C4: time travel. After a \<open>Feed\<close>, \<open>FoldTo\<close> up to the newest number the log had before it
  gives the context as it was before it.\<close>

theorem time_travel:
  assumes "lawful g" and "g_append g = memAppend" and "session memLoad mem_ok g s"
    and "ev_name ev \<noteq> ''''" and "Feed g f ev s = Some s'"
    and "r_journal s = Some j" and "r_journalErr s = None" and "r_journal s' = Some j'"
  shows "\<exists>c. FoldTo (g_def g) t (memLoad j' (c_instance (r_ctx s))) (memMaxSeq j (c_instance (r_ctx s))) = Inr c
    \<and> agree (r_ctx s) c"
proof -
  let ?i = "c_instance (r_ctx s)"
  from mem_log.session_mirrors [OF assms(1-3)] have r: "resting (r_ctx s)" and
    m: "mirrors memLoad mem_ok (g_def g) t s" by blast+
  from m assms(6,7) have ok: "mem_ok j" and fold: "\<exists>c. foldContext (g_def g) t (memLoad j ?i) = Inr c \<and> agree (r_ctx s) c"
    by (auto simp: mirrors_def)
  from leadsD(1) [OF Feed_resting [OF assms(1) r assms(4,5)]] have "fact_steps g s s'" .
  from fact_steps_grow [OF this assms(6)] assms(8) have l: "logged g ?i j j'" by auto
  from mem_log.logged_extends [OF assms(2) l ok] obtain new where
    n: "mem_ok j'" "memLoad j' ?i = memLoad j ?i @ new" "\<forall>occ \<in> set new. memMaxSeq j ?i < o_seq occ" by blast
  have "\<forall>occ \<in> set (memLoad j ?i). o_seq occ \<le> memMaxSeq j ?i" using mem_log.newest [OF ok] by blast
  from mem_log.prefix_of_later [OF n(1,2) this n(3)] fold show ?thesis by (simp add: FoldTo_def)
qed

theorem time_travel_witness:
  "\<exists>s s' j j' c. launched approval_def = Some s \<and> approved = Some s' \<and> r_journal s' = Some j' \<and> r_journal s = Some j \<and> c_node (r_ctx s') = ''e'' \<and>
     FoldTo approval_def 5 (memLoad j' (c_instance (r_ctx s))) (memMaxSeq j (c_instance (r_ctx s))) = Inr c \<and>
     c_node c = ''a'' \<and> agree (r_ctx s) c"
proof -
  obtain s s' where s: "launched approval_def = Some s" "approved = Some s'"
    "Feed (sample_cfg approval_def) 3 (sample_event ''e2'' ''ok'') s = Some s'" by (rule approved_feed)
  with launched_approvalE obtain j where j: "r_journal s = Some j" "r_journalErr s = None" "c_node (r_ctx s) = ''a''"
    by (metis option.inject)
  from s(2) approvedE obtain j' where j': "r_journal s' = Some j'" "c_node (r_ctx s') = ''e''"
    by (metis option.inject)
  have "ev_name (sample_event ''e2'' ''ok'') \<noteq> ''''" by (simp add: sample_event_def)
  from time_travel [OF approval_lawful sample_append(1) launched_session [OF s(1)] this s(3) j(1,2) j'(1), of 5]
  obtain c where c: "FoldTo approval_def 5 (memLoad j' (c_instance (r_ctx s))) (memMaxSeq j (c_instance (r_ctx s))) = Inr c"
    "agree (r_ctx s) c" by (auto simp: sample_append)
  from c(2) j(3) have "c_node c = ''a''" by (simp add: agree_def)
  with c s(1,2) j(1) j' show ?thesis by blast
qed

end
