(* ===== verification/Rejections.thy ===== *)
theory Rejections
  imports Guarantees
begin

text \<open>
  What \<open>Feed\<close> refuses, and that a refusal leaves no trace: a terminal instance, an event that
  the waiting node does not handle, a decision without the attribution its node requires, an
  event that was consumed before, an event that no waiting branch takes.
\<close>

subsection \<open>Samples\<close>

definition guarded_node :: node where
  "guarded_node = (plain_node ''x'' ''approval'' [on_event ''okx'' ''j''])\<lparr>n_requirePrincipal := True\<rparr>"

text \<open>The parallel sample with a branch that requires a principal.\<close>

definition guarded_def :: process_def where
  "guarded_def = sample_def ''f'' [
     plain_node ''f'' ''parallel'' [on_event '''' ''x'', on_event '''' ''y''],
     guarded_node,
     plain_node ''y'' ''approval'' [on_event ''oky'' ''j''],
     plain_node ''j'' ''join'' [on_event '''' ''e''],
     plain_node ''e'' ''end'' []]"

lemma launched_memory: "(case launched approval_def of None \<Rightarrow> False | Some s \<Rightarrow>
    IsProcessedEvent ''e1'' (r_ctx s) \<and> c_scopes (r_ctx s) = [] \<and> c_status (r_ctx s) = StatusWaiting
    \<and> c_node (r_ctx s) = ''a'')"
  by code_simp

lemma launched_guarded: "(case launched guarded_def of None \<Rightarrow> False | Some s \<Rightarrow>
    c_status (r_ctx s) = StatusWaiting \<and> \<not> IsProcessedEvent ''e2'' (r_ctx s) \<and> (case c_scopes (r_ctx s) of
      [sc] \<Rightarrow> \<not> satisfied sc \<and> doneCount sc = 0 \<and> failedCount sc = 0 \<and> ps_timeout sc = 0 \<and>
        map fst (ps_branches sc) = [''f.b0'', ''f.b1''] \<and>
        map (\<lambda>(k, b). (b_status b, b_node b)) (ps_branches sc) = [(StatusWaiting, ''x''), (StatusWaiting, ''y'')]
    | _ \<Rightarrow> False))"
  by code_simp

lemma sample_range: "\<forall>n ks. set (g_order (sample_cfg def) n ks) = set ks"
  by (simp add: sample_cfg_def)

subsection \<open>Refusals\<close>

text \<open>A call that leaves the instance alone: context, journal and executor are as before.\<close>

definition untouched :: "('h, 'j) rts \<Rightarrow> ('h, 'j) rts \<Rightarrow> bool" where
  "untouched s s' \<longleftrightarrow> r_ctx s' = r_ctx s \<and> r_journal s' = r_journal s \<and>
     r_journalErr s' = r_journalErr s \<and> r_alerts s' = r_alerts s \<and> r_host s' = r_host s"

text \<open>\<open>Feed\<close> refuses with the error \<open>e\<close>.\<close>

definition refuses :: "('h, 'j) cfg \<Rightarrow> nat \<Rightarrow> event \<Rightarrow> ('h, 'j) rts \<Rightarrow> err \<Rightarrow> bool" where
  "refuses g f ev s e \<longleftrightarrow> (\<exists>s'. Feed g f ev s = Some s' \<and> untouched s s' \<and> er_errors (r_res s') = [e])"

text \<open>A \<open>range\<close> visits every key of the map.\<close>

definition full_range :: "('h, 'j) cfg \<Rightarrow> bool" where
  "full_range g \<longleftrightarrow> (\<forall>n ks. set (g_order g n ks) = set ks)"

text \<open>A node that a waiting instance, or a waiting branch, stands on.\<close>

definition waits_at :: "process_def \<Rightarrow> ctx \<Rightarrow> node \<Rightarrow> bool" where
  "waits_at def c n \<longleftrightarrow>
     c_status c = StatusWaiting \<and> c_scopes c = [] \<and> dget (pd_nodes def) (c_node c) = Some n \<and> isWaitingNode (Some n)
   \<or> (\<exists>sc \<in> set (c_scopes c). \<exists>k b. dget (ps_branches sc) k = Some b \<and> b_status b = StatusWaiting
        \<and> dget (pd_nodes def) (b_node b) = Some n)"

lemma refusesI:
  "Feed g f ev s = Some (add_error e (s\<lparr>r_res := no_result\<rparr>)) \<Longrightarrow> refuses g f ev s e"
  "Feed g f ev s = Some (add_error e (s\<lparr>r_res := no_result, r_tick := k\<rparr>)) \<Longrightarrow> refuses g f ev s e"
  by (simp_all add: refuses_def untouched_def add_error_def no_result_def)

lemma scopes_rejection_tick: "\<exists>k. snd (scopes_rejection g ev scs s) = s\<lparr>r_tick := k\<rparr>"
proof (induction scs arbitrary: s)
  case Nil
  show ?case by (rule exI [of _ "r_tick s"]) simp
next
  case (Cons sc scs)
  from Cons.IH [of "s\<lparr>r_tick := Suc (r_tick s)\<rparr>"] show ?case
    by (auto simp: rangeKeys_def split: option.splits)
qed

text \<open>A branch that needs a principal the event lacks is found whatever the order of the range.\<close>

definition lacks_principal :: "process_def \<Rightarrow> event \<Rightarrow> branch_state \<Rightarrow> bool" where
  "lacks_principal def ev b \<longleftrightarrow> b_status b = StatusWaiting \<and>
     (\<exists>n. dget (pd_nodes def) (b_node b) = Some n \<and> n_requirePrincipal n \<and> nodeAcceptsEvent n (ev_name ev)
        \<and> \<not> validDecisionPrincipal n (ev_principal ev))"

lemma branch_rejection_found:
  assumes "k \<in> set ks" and "dget bs k = Some b" and "lacks_principal def ev b"
  shows "\<exists>e. branch_rejection def ev bs ks = Some e"
  using assms by (induction ks) (auto simp: lacks_principal_def split: option.splits)

lemma branch_rejection_kind:
  "branch_rejection def ev bs ks = Some e \<Longrightarrow> isErrPrincipalRequired e"
  by (induction ks) (auto split: option.splits if_splits)

lemma scopes_rejection_kind:
  "scopes_rejection g ev scs s = (Some e, s') \<Longrightarrow> isErrPrincipalRequired e"
  by (induction scs arbitrary: s)
    (auto split: option.splits prod.splits dest: branch_rejection_kind)

lemma scopes_rejection_found:
  assumes "full_range g" and "sc \<in> set scs" and "dget (ps_branches sc) k = Some b"
    and "lacks_principal (g_def g) ev b"
  shows "\<exists>e. fst (scopes_rejection g ev scs s) = Some e"
  using assms(2)
proof (induction scs arbitrary: s)
  case (Cons sc' scs)
  obtain ks s1 where r: "rangeKeys g (ps_branches sc') s = (ks, s1)" by fastforce
  show ?case
  proof (cases "branch_rejection (g_def g) ev (ps_branches sc') ks")
    case None
    have "k \<in> set (dkeys (ps_branches sc))" using assms(3) by (metis dget_eq_None_iff option.distinct(1))
    moreover have "set ks = set (dkeys (ps_branches sc'))" using assms(1) r unfolding rangeKeys_def full_range_def by (metis prod.inject)
    ultimately have "k \<in> set ks" if "sc' = sc" using that by blast
    with None branch_rejection_found [OF _ assms(3,4)] have "sc' \<noteq> sc" by fastforce
    with Cons None r show ?thesis by simp
  qed (simp add: r)
qed simp

lemma rejected_by_branch:
  assumes "\<not> isTerminalStatus (c_status (r_ctx s))" and "full_range g" and "sc \<in> set (c_scopes (r_ctx s))"
    and "dget (ps_branches sc) k = Some b"
    and "lacks_principal (g_def g) (attributeAICallback (g_def g) (r_ctx s) ev) b"
  shows "\<exists>e. refuses g f ev s e \<and> isErrPrincipalRequired e"
proof -
  let ?e = "attributeAICallback (g_def g) (r_ctx s) ev" and ?s = "s\<lparr>r_res := no_result\<rparr>"
  from scopes_rejection_found [OF assms(2-5), of ?s]
  obtain e s1 where v: "scopes_rejection g ?e (c_scopes (r_ctx s)) ?s = (Some e, s1)"
    by (metis prod.collapse)
  from scopes_rejection_tick [of g ?e "c_scopes (r_ctx s)" ?s] v obtain t where s1: "s1 = ?s\<lparr>r_tick := t\<rparr>" by auto
  have "c_scopes (r_ctx s) \<noteq> []" using assms(3) by auto
  with assms(1) v s1 have "Feed g f ev s = Some (add_error e (?s\<lparr>r_tick := t\<rparr>))"
    by (simp add: Feed_def linearRejection_def validateBranchPrincipal_def Let_def)
  from refusesI(2) [OF this] scopes_rejection_kind [OF v] show ?thesis by blast
qed

lemma rejected_linear:
  assumes "\<not> isTerminalStatus (c_status (r_ctx s))"
    and "linearRejection (g_def g) (attributeAICallback (g_def g) (r_ctx s) ev) (r_ctx s) = Some e"
  shows "refuses g f ev s e"
  by (rule refusesI(1)) (use assms in \<open>simp add: Feed_def\<close>)





text \<open>C7: the enforcement point. No decision without its attribution is recorded: if any node
  that the instance waits at, in the linear flow or on a branch of a scope, requires a principal
  and handles the event, and the event's principal (the host's, or the model attribution of its
  payload) does not satisfy the node, then \<open>Feed\<close> refuses with \<open>ErrPrincipalRequired\<close> and
  nothing changes.\<close>

theorem principal_enforced:
  assumes "\<not> isTerminalStatus (c_status (r_ctx s))" and "full_range g"
    and "waits_at (g_def g) (r_ctx s) n" and "n_requirePrincipal n" and "nodeAcceptsEvent n (ev_name ev)"
    and "\<not> validDecisionPrincipal n (ev_principal (attributeAICallback (g_def g) (r_ctx s) ev))"
  shows "\<exists>e. refuses g f ev s e \<and> isErrPrincipalRequired e"
  using assms(3) unfolding waits_at_def
proof (elim disjE bexE exE conjE)
  assume "c_status (r_ctx s) = StatusWaiting" "c_scopes (r_ctx s) = []"
    "dget (pd_nodes (g_def g)) (c_node (r_ctx s)) = Some n" "isWaitingNode (Some n)"
  with assms(4-6) have "linearRejection (g_def g) (attributeAICallback (g_def g) (r_ctx s) ev) (r_ctx s)
      = Some (EPrincipalRequired (n_id n) (principalRequirement n) (ev_name ev))"
    by (simp add: linearRejection_def)
  from rejected_linear [OF assms(1) this] show ?thesis by (metis isErrPrincipalRequired.simps(1))
next
  fix sc k b
  assume b: "sc \<in> set (c_scopes (r_ctx s))" "dget (ps_branches sc) k = Some b"
    and "b_status b = StatusWaiting" "dget (pd_nodes (g_def g)) (b_node b) = Some n"
  with assms(4-6) have "lacks_principal (g_def g) (attributeAICallback (g_def g) (r_ctx s) ev) b"
    by (auto simp: lacks_principal_def)
  from rejected_by_branch [OF assms(1,2) b this] show ?thesis .
qed

theorem principal_enforced_witness:
  "\<exists>s e. launched guarded_def = Some s \<and> refuses (sample_cfg guarded_def) 3 (sample_event ''e2'' ''okx'') s e
     \<and> isErrPrincipalRequired e"
proof -
  obtain s where s: "launched guarded_def = Some s" "c_status (r_ctx s) = StatusWaiting"
    and w: "\<exists>sc \<in> set (c_scopes (r_ctx s)). \<exists>b. dget (ps_branches sc) ''f.b0'' = Some b \<and>
        b_status b = StatusWaiting \<and> b_node b = ''x''"
    using launched_guarded by (auto split: option.splits list.splits)
  have n: "dget (pd_nodes guarded_def) ''x'' = Some guarded_node"
    by (simp add: guarded_def_def sample_def_def plain_node_def guarded_node_def)
  with w have "waits_at guarded_def (r_ctx s) guarded_node" by (fastforce simp: waits_at_def)
  moreover have "ev_principal (attributeAICallback guarded_def (r_ctx s) (sample_event ''e2'' ''okx'')) = None"
    by (simp add: attributeAICallback_def sample_event_def parseAIResult_def)
  ultimately show ?thesis
    using principal_enforced [of s "sample_cfg guarded_def" guarded_node "sample_event ''e2'' ''okx''" 3] s
    by (auto simp: sample_append sample_range full_range_def isTerminalStatus_def guarded_node_def plain_node_def on_event_def
        nodeAcceptsEvent_def sample_event_def validDecisionPrincipal_def)
qed

text \<open>C8: an event that the waiting node does not handle is not burned. The instance stays as it
  is, and the same event can be delivered again later.\<close>

theorem unhandled_refused:
  assumes "c_status (r_ctx s) = StatusWaiting" and "c_scopes (r_ctx s) = []"
    and "dget (pd_nodes (g_def g)) (c_node (r_ctx s)) = Some n" and "isWaitingNode (Some n)"
    and "\<not> nodeAcceptsEvent n (ev_name ev)"
  shows "refuses g f ev s (ENotHandled (ev_name ev) (n_id n))"
  by (rule rejected_linear) (use assms in \<open>simp_all add: linearRejection_def isTerminalStatus_def\<close>)

theorem unhandled_refused_witness:
  "\<exists>s. launched approval_def = Some s \<and>
     refuses (sample_cfg approval_def) 3 (sample_event ''e2'' ''nope'') s (ENotHandled ''nope'' ''a'')"
proof -
  obtain s where s: "launched approval_def = Some s" "c_scopes (r_ctx s) = []"
    "c_status (r_ctx s) = StatusWaiting" "c_node (r_ctx s) = ''a''"
    using launched_memory by (auto split: option.splits)
  obtain n where n: "dget (pd_nodes approval_def) ''a'' = Some n" "n_id n = ''a''" "n_type n = ''approval''"
    "\<not> nodeAcceptsEvent n ''nope''"
    by (simp add: approval_def_def sample_def_def plain_node_def nodeAcceptsEvent_def on_event_def)
  from unhandled_refused [of s "sample_cfg approval_def" n "sample_event ''e2'' ''nope''" 3] s n
  have "refuses (sample_cfg approval_def) 3 (sample_event ''e2'' ''nope'') s (ENotHandled ''nope'' ''a'')"
    by (simp add: sample_append sample_event_def isWaitingNode_def isWaitingType_def)
  with s(1) show ?thesis by blast
qed

subsection \<open>An event that no branch takes\<close>











end
