(* ===== verification/Liveness.thy ===== *)
theory Liveness
  imports Guarantees
begin

text \<open>
  The calls return. A drain and the settlement of a scope call each other; every nested drain
  has executed one more fork, so the visits left to the nodes bound the depth, and the fuel of
  the model is enough as soon as it exceeds them. No call panics on a definition that passed
  the checks \<open>serviceable\<close> names.
\<close>

subsection \<open>Serviceable definitions\<close>

text \<open>
  The breaker is on, an ai node has its ai block (the parser and the validator see to that),
  and a condition node has no input mapping, whose failure would leave \<open>feedBranch\<close> without a
  view.
\<close>

definition serviceable :: "('h, 'j) cfg \<Rightarrow> bool" where
  "serviceable g \<longleftrightarrow> 0 \<le> g_maxNodeVisits g \<and> (\<forall>(k, n) \<in> set (pd_nodes (g_def g)). k \<noteq> '''' \<and>
     (n_type n = ''ai'' \<longrightarrow> n_ai n \<noteq> None) \<and> (n_type n = ''condition'' \<longrightarrow> n_input n = []))"

lemma serviceableD:
  assumes "serviceable g" and "dget (pd_nodes (g_def g)) k = Some n"
  shows "k \<noteq> ''''" "n_type n = ''ai'' \<Longrightarrow> n_ai n \<noteq> None" "n_type n = ''condition'' \<Longrightarrow> n_input n = []"
  using assms by (auto simp: serviceable_def dest!: map_of_SomeD)

subsection \<open>The visits left\<close>

definition visitLimit :: "('h, 'j) cfg \<Rightarrow> nat" where
  "visitLimit g = nat (maxNodeVisits g)"

definition budget :: "('h, 'j) cfg \<Rightarrow> ctx \<Rightarrow> nat" where
  "budget g c = (\<Sum>k \<in> set (dkeys (pd_nodes (g_def g))). visitLimit g - VisitOf k c)"

text \<open>Fuel that is enough for every call: the limit times the number of nodes.\<close>

definition enoughFuel :: "('h, 'j) cfg \<Rightarrow> nat" where
  "enoughFuel g = Suc (card (set (dkeys (pd_nodes (g_def g)))) * visitLimit g)"

lemma budget_le: "budget g c < enoughFuel g"
proof -
  have "budget g c \<le> card (set (dkeys (pd_nodes (g_def g)))) * visitLimit g"
    unfolding budget_def using sum_bounded_above [of "set (dkeys (pd_nodes (g_def g)))" "\<lambda>k. visitLimit g - VisitOf k c" "visitLimit g"] by simp
  then show ?thesis by (simp add: enoughFuel_def)
qed

lemma budget_mono: "fact_steps g s s' \<Longrightarrow> budget g (r_ctx s') \<le> budget g (r_ctx s)"
  unfolding budget_def by (intro sum_mono diff_le_mono2 fact_steps_visits)

lemma budget_less:
  assumes "fact_steps g s s'" and "dget (pd_nodes (g_def g)) k \<noteq> None"
    and "VisitOf k (r_ctx s) < visitLimit g" and "VisitOf k (r_ctx s) < VisitOf k (r_ctx s')"
  shows "budget g (r_ctx s') < budget g (r_ctx s)"
  unfolding budget_def
proof (rule sum_strict_mono_ex1)
  show "\<forall>x \<in> set (dkeys (pd_nodes (g_def g))). visitLimit g - VisitOf x (r_ctx s') \<le> visitLimit g - VisitOf x (r_ctx s)"
    by (intro ballI diff_le_mono2 fact_steps_visits [OF assms(1)])
  from assms(2) have "k \<in> set (dkeys (pd_nodes (g_def g)))" by (meson dget_eq_None_iff)
  with assms(3,4) show "\<exists>a \<in> set (dkeys (pd_nodes (g_def g))).
      visitLimit g - VisitOf a (r_ctx s') < visitLimit g - VisitOf a (r_ctx s)"
    by (intro bexI [of _ k]) simp_all
qed simp

subsection \<open>No call panics\<close>

lemma bind_returns: "r \<noteq> None \<Longrightarrow> (\<And>x. r = Some x \<Longrightarrow> f x \<noteq> None) \<Longrightarrow> r \<bind> f \<noteq> None"
  by (cases r) auto

lemma resolveAINext_total: "n_ai n \<noteq> None \<Longrightarrow> resolveAINext g n res s \<noteq> None"
  by (auto simp: resolveAINext_def)

lemma aiEventName_ne: "aiEventName n \<noteq> ''''"
  by (simp add: aiEventName_def split: option.splits)

lemma stepProcessAI_total:
  assumes "n_ai n \<noteq> None"
  shows "stepProcessAI g n res s \<noteq> None"
proof (cases "currentEventName (r_ctx s) = aiEventName n")
  case True
  with aiEventName_ne [of n] obtain e where e: "c_event (r_ctx s) = Some e"
    by (cases "c_event (r_ctx s)") (auto simp: currentEventName_def)
  have "resolveAINext g n (parseAIResult (ev_payload e)) s \<bind> f \<noteq> None"
    if "\<And>x. f x \<noteq> None" for f :: "(err + string) \<times> ('a, 'b) rts \<Rightarrow> (exec_result \<times> ('a, 'b) rts) option"
    by (rule bind_returns [OF resolveAINext_total [OF assms] that])
  with True e show ?thesis by (simp add: stepProcessAI_def split_def Let_def)
qed (simp add: stepProcessAI_def Let_def)

lemma Step_total:
  assumes "serviceable g"
  shows "Step g s \<noteq> None"
proof (cases "dget (pd_nodes (g_def g)) (c_node (r_ctx s))")
  case (Some n)
  with serviceableD(2) [OF assms Some] show ?thesis
    by (simp add: Step_def Let_def stepProcessAI_total del: not_None_eq)
qed (simp add: Step_def)

lemma parkAt_total: "(n_type n = ''ai'' \<Longrightarrow> n_ai n \<noteq> None) \<Longrightarrow> parkAt g slot n s \<noteq> None"
  by (auto simp: parkAt_def emitAIRequest_def Let_def)

lemma advanceRound_total:
  assumes "serviceable g"
  shows "advanceRound g i b s \<noteq> None"
proof (cases "dget (pd_nodes (g_def g)) (b_node b)")
  case (Some n)
  have "parkAt g (b_id b) n s \<bind> (\<lambda>s1. Some (Inl (waitBranch g i b s1))) \<noteq> None"
    by (rule bind_returns [OF parkAt_total]) (use serviceableD(2) [OF assms Some] in simp_all)
  with Some show ?thesis by (auto simp: advanceRound_def Let_def)
qed (simp add: advanceRound_def)

lemma advance_loop_total:
  assumes "serviceable g"
  shows "advance_loop g i bid k s \<noteq> None"
proof (induction k arbitrary: s)
  case (Suc k)
  have "advanceRound g i b s \<bind> (\<lambda>r. case r of Inl s1 \<Rightarrow> Some s1 | Inr s1 \<Rightarrow> advance_loop g i bid k s1) \<noteq> None" for b
    by (rule bind_returns [OF advanceRound_total [OF assms]]) (use Suc.IH in \<open>simp split: sum.split\<close>)
  then show ?case by (simp split: option.split)
qed simp

lemma advanceBranch_total: "serviceable g \<Longrightarrow> advanceBranch g i bid s \<noteq> None"
  by (simp add: advanceBranch_def advance_loop_total split: option.split del: not_None_eq)

lemma advance_all_total:
  assumes "serviceable g"
  shows "advance_all g i ks s \<noteq> None"
proof (induction ks arbitrary: s)
  case (Cons k ks)
  show ?case unfolding advance_all.simps by (rule bind_returns [OF advanceBranch_total [OF assms] Cons.IH])
qed simp

lemma settleScope_total:
  assumes "\<And>s1. completeParallel g s = (None, s1) \<Longrightarrow> dr s1 \<noteq> None"
  shows "settleScope dr g i s \<noteq> None"
  using assms by (auto simp: settleScope_def split: option.splits prod.splits)

subsection \<open>The drain returns\<close>

text \<open>A step that forks has counted a visit of the node it stands on.\<close>

lemma Step_fork_visits:
  assumes g: "lawful g" and s: "calm (r_ctx s)" and r: "Step g s = Some (step, s')" and f: "\<not> quiet_result step"
  shows "\<exists>n. dget (pd_nodes (g_def g)) (c_node (r_ctx s)) = Some n \<and>
    VisitOf (c_node (r_ctx s)) (r_ctx s) < VisitOf (c_node (r_ctx s)) (r_ctx s')"
proof (cases "dget (pd_nodes (g_def g)) (c_node (r_ctx s))")
  case None
  with r f show ?thesis by (auto simp: Step_def fail_step_def quiet_result_def no_result_def)
next
  case (Some n)
  define s1 where "s1 = IncrVisit g (n_id n) s"
  define res where "res = no_result\<lparr>er_effects := node_commands (n_effects n) (r_ctx s1) (n_id n) 0\<rparr>"
  have q: "quiet_result res" by (simp add: res_def quiet_result_def no_result_def)
  have fr: "framed g s s1" by (simp add: s1_def)
  have c: "calm (r_ctx s1)" by (rule framed_states(1) [OF fr s])
  from lawfulD(3) [OF g Some] have id: "n_id n = c_node (r_ctx s)" .
  with fr have id1: "n_id n = c_node (r_ctx s1)" by (simp add: framed_def)
  have "Step g s = (if n_type n = ''end'' then Some (stepEnd g n res s1)
      else if n_type n = ''parallel'' then Some (stepFork g n res s1)
      else if n_type n = ''ai'' then stepProcessAI g n res s1
      else Some (stepSelectTransition g n res s1))"
    using Some by (simp add: Step_def Let_def s1_def res_def)
  with r f stepEnd_calm [OF c q, of g n] stepSelect_calm [OF c q, of g n] stepProcessAI_calm [OF c q]
    stepFork_leads [OF c q id1, of g]
  have "fact_steps g s1 s'" by (auto simp: leads_def split: if_splits)
  from fact_steps_visits [OF this, of "n_id n"] have "Suc (VisitOf (n_id n) (r_ctx s)) \<le> VisitOf (n_id n) (r_ctx s')"
    by (simp add: s1_def VisitOf_def)
  with Some id show ?thesis by auto
qed

text \<open>What a drain of depth \<open>m\<close> can be called with.\<close>

definition returns_below :: "('h, 'j) cfg \<Rightarrow> (('h, 'j) rts \<Rightarrow> ('h, 'j) rts option) \<Rightarrow> nat \<Rightarrow> bool" where
  "returns_below g dr m \<longleftrightarrow> (\<forall>s. calm (r_ctx s) \<longrightarrow> budget g (r_ctx s) < m \<longrightarrow> dr s \<noteq> None)"

lemma settle_returns:
  assumes g: "lawful g" and dr: "returns_below g dr m" and s: "inside (r_ctx s)" and b: "budget g (r_ctx s) < m"
  shows "settleScope dr g i s \<noteq> None"
proof (rule settleScope_total)
  fix s1 assume c: "completeParallel g s = (None, s1)"
  from completeParallel_calm [OF s c] have l: "leads g calm s s1" by simp
  from budget_mono [OF leadsD(1) [OF l]] b leadsD(2) [OF l] dr show "dr s1 \<noteq> None"
    by (auto simp: returns_below_def)
qed

lemma runParallelMode_returns:
  assumes g: "lawful g" "serviceable g" and dr: "returns_below g dr m" and s: "inside (r_ctx s)"
    and b: "budget g (r_ctx s) < m"
  shows "runParallelMode dr g s \<noteq> None"
proof -
  from s obtain sc where sc: "c_scopes (r_ctx s) = [sc]" by (auto simp: inside_def length_Suc_conv)
  obtain ks s1 where k: "rangeKeys g (ps_branches sc) s = (ks, s1)" by fastforce
  with framed_rangeKeys [of g s "ps_branches sc"] have f: "framed g s s1" by simp
  from advance_all_total [OF g(2)] obtain s2 where a: "advance_all g 0 ks s1 = Some s2" by fast
  from stays_advance_all [OF g(1) framed_states(2) [OF f s] a] have w: "stays g s s2" by (rule framed_leads [OF f])
  from budget_mono [OF leadsD(1) [OF w]] b have "budget g (r_ctx s2) < m" by simp
  from settle_returns [OF g(1) dr leadsD(2) [OF w] this, of 0] sc k a show ?thesis
    by (simp add: runParallelMode_def ActiveScope_def activeIndex_def)
qed

lemma drainRound_returns:
  assumes g: "lawful g" "serviceable g" and dr: "returns_below g dr m" and s: "calm (r_ctx s)"
    and b: "budget g (r_ctx s) \<le> m"
  shows "drainRound dr g s \<noteq> None"
proof (cases "visitExceeded g (c_node (r_ctx s)) (r_ctx s)")
  case False
  from Step_total [OF g(2), of s] obtain step s1 where st: "Step g s = Some (step, s1)" by fast
  obtain failed s2 where d: "dispatchSideEffects g (er_effects step) s1 = (failed, s2)" by fastforce
  define s3 where "s3 = mergeResult step s2"
  from framed_dispatch_result [OF g(1) d] have f: "framed g s1 s3" unfolding s3_def by (rule framed_trans) simp
  have par: "runParallelMode dr g s3 \<noteq> None" if q: "\<not> quiet_result step"
  proof -
    from Step_leads [OF g(1) s st] q have l: "leads g forked s s1" by blast
    with f have l3: "fact_steps g s s3" "inside (r_ctx s3)"
      using forked_framed [OF f] by (auto simp: leads_def framed_def forked_def)
    from Step_fork_visits [OF g(1) s st q] obtain n where n: "dget (pd_nodes (g_def g)) (c_node (r_ctx s)) = Some n"
      "VisitOf (c_node (r_ctx s)) (r_ctx s) < VisitOf (c_node (r_ctx s)) (r_ctx s1)" by blast
    have "fact_steps g s1 s3" using f by (simp add: framed_def)
    then have "VisitOf (c_node (r_ctx s)) (r_ctx s1) \<le> VisitOf (c_node (r_ctx s)) (r_ctx s3)"
      by (rule fact_steps_visits)
    moreover have "VisitOf (c_node (r_ctx s)) (r_ctx s) < visitLimit g"
      using False serviceableD(1) [OF g(2) n(1)] g(2) by (auto simp: visitExceeded_def visitLimit_def serviceable_def)
    ultimately have "budget g (r_ctx s3) < budget g (r_ctx s)"
      using n by (intro budget_less [OF l3(1), of "c_node (r_ctx s)"]) simp_all
    with b have "budget g (r_ctx s3) < m" by simp
    from runParallelMode_returns [OF g dr l3(2) this] show ?thesis .
  qed
  have park: "parkInstance g n s3 \<noteq> None" if "dget (pd_nodes (g_def g)) (c_node (r_ctx s3)) = Some n" for n
    using serviceableD(2) [OF g(2) that] by (simp add: parkInstance_def parkAt_total del: not_None_eq)
  have "parkInstance g n s3 \<bind> (\<lambda>s1. Some (Inl (setStatus g StatusWaiting s1))) \<noteq> None"
    if "dget (pd_nodes (g_def g)) (c_node (r_ctx s3)) = Some n" for n
    by (rule bind_returns [OF park [OF that]]) simp
  then have "drainNext dr g step failed s3 \<noteq> None"
    using par by (auto simp: drainNext_def quiet_result_def split: option.split)
  with False st d show ?thesis by (simp add: drainRound_def s3_def)
qed (simp add: drainRound_def)

lemma drain_loop_returns:
  assumes g: "lawful g" "serviceable g" and dr: "returns_below g dr m" "drains g dr"
  shows "calm (r_ctx s) \<Longrightarrow> budget g (r_ctx s) \<le> m \<Longrightarrow> drain_loop dr g k s \<noteq> None"
proof (induction k arbitrary: s)
  case (Suc k)
  from drainRound_returns [OF g dr(1) Suc.prems] obtain r where r: "drainRound dr g s = Some r" by fast
  show ?case
  proof (cases r)
    case (Inr s1)
    with drainRound_leads [OF g(1) dr(2) Suc.prems(1) r] have l: "leads g calm s s1" by simp
    from budget_mono [OF leadsD(1) [OF l]] Suc.prems(2) have "budget g (r_ctx s1) \<le> m" by simp
    from Suc.IH [OF leadsD(2) [OF l] this] r Inr show ?thesis by simp
  qed (simp add: r)
qed simp

lemma drain_returns_below: "lawful g \<Longrightarrow> serviceable g \<Longrightarrow> returns_below g (drain g f) f"
proof (induction f)
  case (Suc f)
  from drain_loop_returns [OF Suc.prems Suc.IH [OF Suc.prems] drain_drains [OF Suc.prems(1)]]
  show ?case by (simp add: returns_below_def)
qed (simp add: returns_below_def)

lemma drain_returns:
  "lawful g \<Longrightarrow> serviceable g \<Longrightarrow> calm (r_ctx s) \<Longrightarrow> enoughFuel g \<le> f \<Longrightarrow> drain g f s \<noteq> None"
  using drain_returns_below [of g f] budget_le [of g "r_ctx s"] by (auto simp: returns_below_def)


subsection \<open>The current event stays while the branches are fed\<close>

abbreviation same_event :: "('h, 'j) rts \<Rightarrow> ('h, 'j) rts \<Rightarrow> bool" where
  "same_event s s' \<equiv> c_event (r_ctx s') = c_event (r_ctx s)"

lemma event_primitives [simp]:
  "same_event s (snd (now g s))" "same_event s (snd (rangeKeys g d s))" "same_event s (add_error e s)"
  "same_event s (branchReachedJoin g i b j s)" "same_event s (add_effects cs s)"
  by (auto simp: rangeKeys_def now_def branchReachedJoin_def add_effects_def Let_def split: option.splits)

lemma event_enterNode [simp]: "same_event s (snd (enterNode g n s))"
  by (auto simp: enterNode_def rangeKeys_def Let_def split: option.splits)

lemma event_write_outputs [simp]: "same_event s (snd (write_outputs g ev nid out view ks s))"
  by (induction ks arbitrary: s) (auto split: option.splits sum.splits)

lemma event_leaveNode [simp]: "same_event s (snd (leaveNode g n view s))"
  by (auto simp: leaveNode_def rangeKeys_def Let_def split: option.splits)



lemma event_deliver [simp]: "same_event s (snd (deliver g cmd s))"
  by (auto simp: deliver_def recordCompensation_def Let_def split: option.splits prod.splits)

lemma event_dispatch [simp]: "same_event s (snd (dispatchSideEffects g cs s))"
proof (induction cs arbitrary: s)
  case (Cons c cs)
  obtain res s1 where d: "deliver g c s = (res, s1)" by fastforce
  with event_deliver [of g c s] Cons.IH [of s1] show ?case by (simp add: split_def Let_def)
qed simp

lemma event_emit [simp]: "same_event s (snd (emitNodeSideEffects g n s))"
  by (simp add: emitNodeSideEffects_def Let_def)

lemma event_ends [simp]:
  "same_event s (failBranch g i b e s)" "same_event s (waitBranch g i b s)"
  "same_event s (endBranch g i b st s)" "same_event s (moveBranch g i b nxt s)"
  by (auto simp: failBranch_def waitBranch_def endBranch_def moveBranch_def now_def Let_def)

lemma event_departBranch: "same_event s (merged (departBranch g i b n view nxt s))"
proof -
  obtain bad s1 where l: "leaveNode g n view s = (bad, s1)" by fastforce
  obtain failed s2 where m: "emitNodeSideEffects g n s1 = (failed, s2)" by fastforce
  from l m event_leaveNode [of g n view s] event_emit [of g n s1] show ?thesis
    by (simp add: departBranch_def split: option.split)
qed

lemma event_advanceCondition [simp]: "same_event s (merged (advanceCondition g i b n s))"
proof -
  obtain view s1 where v: "enterNode g n s = (view, s1)" by fastforce
  with event_enterNode [of g n s] show ?thesis
    by (auto simp: advanceCondition_def event_departBranch split: sum.split)
qed

lemma event_advanceAutomatic [simp]: "same_event s (merged (advanceAutomatic g i b n s))"
proof -
  obtain view s1 where v: "enterNode g n s = (view, s1)" by fastforce
  with event_enterNode [of g n s] show ?thesis
    by (auto simp: advanceAutomatic_def event_departBranch split: sum.split option.split)
qed








subsection \<open>Feeding a branch never panics\<close>





subsection \<open>The entry points return\<close>




lemma Start_returns:
  assumes g: "lawful g" "serviceable g" "enoughFuel g \<le> f" and s: "calm (r_ctx s)"
  shows "Start g f iid xid vars ev s \<noteq> None"
proof -
  let ?s2 = "started g iid xid s"
  have c2: "calm (r_ctx ?s2)"
    using s by (auto simp: started_def calm_def well_formed_def unparked_def slot_ok_def)
  obtain ks s3 where k: "rangeKeys g vars ?s2 = (ks, s3)" by fastforce
  with framed_rangeKeys [of g ?s2 vars] have f: "framed g ?s2 (set_variables g vars ks s3)"
    by (auto intro: framed_trans)
  obtain ok s5 where a: "AcceptEvent g ev (set_variables g vars ks s3) = (ok, s5)" by fastforce
  from a event_ops_fields(6-9) [of g ev "set_variables g vars ks s3"] framed_states(1) [OF f c2]
  have "calm (r_ctx s5)" by (simp add: calm_def well_formed_def slot_ok_def unparked_def)
  from leadsD(2) [OF calm_setNode [OF this]] have "calm (r_ctx (setNode g n s5))" for n .
  from drain_returns [OF g(1,2) framed_states(1) [OF framed_setStatus this] g(3)]
  have "drain g f (setStatus g StatusRunning (setNode g n s5)) \<noteq> None" for n .
  with k a show ?thesis by (simp add: Start_def Let_def del: not_None_eq)
qed

subsection \<open>More fuel changes nothing\<close>

definition extends :: "('a \<Rightarrow> 'b option) \<Rightarrow> ('a \<Rightarrow> 'b option) \<Rightarrow> bool" where
  "extends dr dr' \<longleftrightarrow> (\<forall>s x. dr s = Some x \<longrightarrow> dr' s = Some x)"

lemma extends_settle: "extends dr dr' \<Longrightarrow> extends (settleScope dr g i) (settleScope dr' g i)"
  by (auto simp: extends_def settleScope_def split: option.splits prod.splits if_splits)

lemma extends_run: "extends dr dr' \<Longrightarrow> extends (runParallelMode dr g) (runParallelMode dr' g)"
  using extends_settle [of dr dr' g]
  by (auto simp: extends_def runParallelMode_def bind_eq_Some_conv Let_def split: option.splits prod.splits)

lemma extends_round: "extends dr dr' \<Longrightarrow> extends (drainRound dr g) (drainRound dr' g)"
proof -
  assume "extends dr dr'"
  from extends_run [OF this, of g] have "extends (drainNext dr g step failed) (drainNext dr' g step failed)"
    for step failed by (auto simp: extends_def drainNext_def split: option.splits if_splits)
  then show ?thesis by (auto simp: extends_def drainRound_def bind_eq_Some_conv split_def Let_def)
qed

lemma extends_loop: "extends dr dr' \<Longrightarrow> extends (drain_loop dr g k) (drain_loop dr' g k)"
proof (induction k)
  case (Suc k)
  from extends_round [OF Suc.prems, of g] Suc.IH [OF Suc.prems] show ?case
    by (auto simp: extends_def bind_eq_Some_conv split: sum.splits) blast+
qed (simp add: extends_def)

lemma extends_drain: "f \<le> f' \<Longrightarrow> extends (drain g f) (drain g f')"
proof (induction f arbitrary: f')
  case (Suc f)
  then obtain m where "f' = Suc m" "f \<le> m" by (cases f') auto
  with extends_loop [OF Suc.IH, of m g maxDrainSteps] show ?case by (simp add: extends_def)
qed (simp add: extends_def)


lemma extends_Start: "f \<le> f' \<Longrightarrow> extends (Start g f iid xid vars ev) (Start g f' iid xid vars ev)"
  using extends_drain [of f f' g] by (auto simp: extends_def Start_def Let_def split: prod.splits if_splits)

lemma enough_fuel:
  fixes m :: nat
  assumes "\<And>f f'. f \<le> f' \<Longrightarrow> extends (call f) (call f')" and "\<And>f. m \<le> f \<Longrightarrow> call f s \<noteq> None"
  shows "\<exists>s'. \<forall>f \<ge> m. call f s = Some s'"
proof -
  from assms(2) [OF order_refl] obtain s' where "call m s = Some s'" by auto
  with assms(1) have "\<forall>f \<ge> m. call f s = Some s'" by (simp add: extends_def)
  then show ?thesis ..
qed

text \<open>C10: \<open>Start\<close> returns. On a serviceable definition it neither panics nor runs forever,
  whatever the process, the executor, the clock and the expression library do, and the result
  does not depend on the fuel of the model once that exceeds the visits the breaker allows.\<close>

theorem start_returns:
  assumes "lawful g" and "serviceable g"
  shows "\<exists>s'. \<forall>f \<ge> enoughFuel g.
    Start g f iid xid vars ev (NewRuntime (NewExecutionContext (g_def g) '''' '''' t) j h k) = Some s'"
  by (rule enough_fuel [OF extends_Start Start_returns [OF assms]])
    (simp_all add: NewRuntime_def fresh_calm)

lemma approval_serviceable: "serviceable (sample_cfg approval_def)"
  by (simp add: serviceable_def sample_cfg_def approval_def_def sample_def_def plain_node_def)

theorem start_returns_witness:
  "\<exists>s'. \<forall>f \<ge> enoughFuel (sample_cfg approval_def).
    Start (sample_cfg approval_def) f ''i'' ''x'' [] (sample_event ''e1'' ''submit'') (fresh_runtime approval_def) = Some s'"
  using start_returns [OF approval_lawful approval_serviceable] by (simp add: fresh_runtime_def sample_append)



end
