(* ===== verification/TimeAxis.thy ===== *)
theory TimeAxis
  imports Rejections
begin

text \<open>
  The time axis: what \<open>NextWakeup\<close> announces and what \<open>WakeDue\<close> takes up, whatever the order in
  which the map of slots is visited, and three defects of the wake-up that the model exhibits.
\<close>

subsection \<open>The next slot\<close>

text \<open>The times at which the registered slots fall due.\<close>

definition due_times :: "ctx \<Rightarrow> int set" where
  "due_times c = {u. \<exists>k w. dget (c_waitings c) k = Some w \<and> w_until w = Some u}"

text \<open>The order in which due slots are taken: by time, then by name.\<close>

definition no_later :: "string \<times> waiting_state \<times> int \<Rightarrow> string \<times> waiting_state \<times> int \<Rightarrow> bool" where
  "no_later a b \<longleftrightarrow> snd (snd a) < snd (snd b) \<or> (snd (snd a) = snd (snd b) \<and> fst a \<le> fst b)"

lemma wakeup_loop_spec:
  "wakeup_loop ks ws best = Some u \<longleftrightarrow>
     (let us = {u. (\<exists>k \<in> set ks. \<exists>w. dget ws k = Some w \<and> w_until w = Some u)} \<union> (case best of None \<Rightarrow> {} | Some b \<Rightarrow> {b})
      in u \<in> us \<and> (\<forall>v \<in> us. u \<le> v))"
proof (induction ks arbitrary: best)
  case Nil
  show ?case by (auto split: option.split)
next
  case (Cons k ks)
  show ?case
  proof (cases "Option.bind (dget ws k) w_until")
    case None
    then have "wakeup_loop (k # ks) ws best = wakeup_loop ks ws best"
      by (auto simp: bind_eq_None_conv split: option.splits)
    moreover have "{u. \<exists>k' \<in> set (k # ks). \<exists>w. dget ws k' = Some w \<and> w_until w = Some u} =
        {u. \<exists>k' \<in> set ks. \<exists>w. dget ws k' = Some w \<and> w_until w = Some u}"
      using None by (auto simp: bind_eq_None_conv)
    ultimately show ?thesis using Cons.IH by simp
  next
    case (Some v)
    then obtain w where w: "dget ws k = Some w" "w_until w = Some v" by (auto simp: bind_eq_Some_conv)
    then have "wakeup_loop (k # ks) ws best =
        wakeup_loop ks ws (case best of None \<Rightarrow> Some v | Some b \<Rightarrow> if v < b then Some v else best)"
      by (simp split: option.split)
    moreover have "{u. \<exists>k' \<in> set (k # ks). \<exists>w. dget ws k' = Some w \<and> w_until w = Some u} =
        insert v {u. \<exists>k' \<in> set ks. \<exists>w. dget ws k' = Some w \<and> w_until w = Some u}"
      using w by auto
    ultimately show ?thesis
      using Cons.IH by (auto simp: Let_def split: option.splits if_splits)
  qed
qed

text \<open>The candidates of the scan, and the scan as the choice of the first among them.\<close>

definition candidate :: "waiting_state dict \<Rightarrow> int \<Rightarrow> string \<Rightarrow> (string \<times> waiting_state \<times> int) option" where
  "candidate ws t k = (case dget ws k of None \<Rightarrow> None | Some w \<Rightarrow>
     (case w_until w of None \<Rightarrow> None | Some u \<Rightarrow> if u > t then None else Some (k, w, u)))"

definition pick :: "(string \<times> waiting_state \<times> int) option \<Rightarrow> string \<times> waiting_state \<times> int
    \<Rightarrow> (string \<times> waiting_state \<times> int) option" where
  "pick best x = (case best of None \<Rightarrow> Some x | Some b \<Rightarrow> if no_later b x then Some b else Some x)"

lemma pick_simps:
  "pick None x = Some x" "pick (Some b) x = (if no_later b x then Some b else Some x)"
  by (simp_all add: pick_def)

lemma no_later_order: "no_later a b \<Longrightarrow> no_later b c \<Longrightarrow> no_later a c" "no_later a b \<or> no_later b a" "no_later a a"
  by (auto simp: no_later_def)

lemma foldl_pick:
  "\<exists>m \<in> insert b (set xs). foldl pick (Some b) xs = Some m \<and> (\<forall>x \<in> insert b (set xs). no_later m x)"
proof (induction xs arbitrary: b)
  case (Cons x xs)
  show ?case
  proof (cases "no_later b x")
    case True
    from Cons.IH [of b] obtain m where "m \<in> insert b (set xs)" "foldl pick (Some b) xs = Some m"
      "\<forall>y \<in> insert b (set xs). no_later m y" by blast
    with True no_later_order(1) [of m b x] show ?thesis by (auto simp: pick_simps)
  next
    case False
    from Cons.IH [of x] obtain m where "m \<in> insert x (set xs)" "foldl pick (Some x) xs = Some m"
      "\<forall>y \<in> insert x (set xs). no_later m y" by blast
    with False no_later_order(1) [of m x b] no_later_order(2) [of b x] show ?thesis by (auto simp: pick_simps)
  qed
qed (simp add: no_later_order)

lemma due_loop_pick: "due_loop ks ws t best = foldl pick best (List.map_filter (candidate ws t) ks)"
proof (induction ks arbitrary: best)
  case (Cons k ks)
  have "(case dget ws k of None \<Rightarrow> best
      | Some w \<Rightarrow> (case w_until w of None \<Rightarrow> best
          | Some u \<Rightarrow> if u > t then best else (case best of None \<Rightarrow> Some (k, w, u)
              | Some (bk, bw, bu) \<Rightarrow> if u < bu \<or> (u = bu \<and> k < bk) then Some (k, w, u) else best)))
    = (case candidate ws t k of None \<Rightarrow> best | Some x \<Rightarrow> pick best x)"
    by (auto simp: candidate_def pick_def no_later_def split: option.splits)
  with Cons.IH show ?case by (auto simp: List.map_filter_simps split: option.split)
qed (simp add: List.map_filter_simps)

lemma set_map_filter: "set (List.map_filter f xs) = {y. \<exists>x \<in> set xs. f x = Some y}"
  by (induction xs) (auto simp: List.map_filter_simps split: option.splits)

lemma candidate_Some:
  "candidate ws t k = Some (k', w, u) \<longleftrightarrow> k' = k \<and> dget ws k = Some w \<and> w_until w = Some u \<and> u \<le> t"
  by (auto simp: candidate_def split: option.splits)

lemma set_candidates:
  "set (List.map_filter (candidate ws t) ks) =
    {(k, w, u). k \<in> set ks \<and> dget ws k = Some w \<and> w_until w = Some u \<and> u \<le> t}"
  by (auto simp: set_map_filter candidate_Some)

lemma due_loop_cases:
  assumes "set ks = set (dkeys ws)"
  obtains "due_loop ks ws t None = None" "\<And>k w u. dget ws k = Some w \<Longrightarrow> w_until w = Some u \<Longrightarrow> t < u"
  | k w u where "due_loop ks ws t None = Some (k, w, u)" "dget ws k = Some w" "w_until w = Some u" "u \<le> t"
      "\<And>k' w' u'. dget ws k' = Some w' \<Longrightarrow> w_until w' = Some u' \<Longrightarrow> u' \<le> t \<Longrightarrow> u < u' \<or> (u = u' \<and> k \<le> k')"
proof -
  let ?xs = "List.map_filter (candidate ws t) ks"
  have "k \<in> set ks" if "dget ws k = Some w" for k w
    using that assms by (metis dget_eq_None_iff option.distinct(1))
  then have set: "set ?xs = {(k, w, u). dget ws k = Some w \<and> w_until w = Some u \<and> u \<le> t}"
    by (auto simp: set_candidates)
  show thesis
  proof (cases ?xs)
    case Nil
    with set have "\<not> u \<le> t" if "dget ws k = Some w" "w_until w = Some u" for k w u using that by auto
    with Nil that(1) show thesis by (simp add: due_loop_pick not_le)
  next
    case (Cons x xs)
    from foldl_pick [of x xs] obtain m where "m \<in> insert x (set xs)" "foldl pick (Some x) xs = Some m"
      "\<forall>y \<in> insert x (set xs). no_later m y" by blast
    with Cons have m: "m \<in> set ?xs" "foldl pick None ?xs = Some m" "\<forall>y \<in> set ?xs. no_later m y"
      by (simp_all add: pick_simps)
    obtain k w u where mm: "m = (k, w, u)" by (cases m)
    have "u < u' \<or> (u = u' \<and> k \<le> k')" if "dget ws k' = Some w'" "w_until w' = Some u'" "u' \<le> t" for k' w' u'
    proof -
      from that set have "(k', w', u') \<in> set ?xs" by simp
      with m(3) mm show ?thesis by (auto simp: no_later_def)
    qed
    with m(1,2) mm set show thesis by (intro that(2) [of k w u]) (auto simp: due_loop_pick)
  qed
qed

lemma due_times_stored:
  "distinct (dkeys (c_waitings c)) \<Longrightarrow> due_times c = set (List.map_filter (\<lambda>(k, w). w_until w) (c_waitings c))"
  by (force simp: due_times_def set_map_filter)

lemma nextDue_None:
  "set ks = set (dkeys (c_waitings c)) \<Longrightarrow> nextDueWaiting ks t c = None \<longleftrightarrow> (\<forall>u \<in> due_times c. t < u)"
  by (rule due_loop_cases [of ks "c_waitings c" t])
    (force simp: nextDueWaiting_def due_times_def)+

text \<open>The slot \<open>k\<close> with \<open>w\<close> is the first that is due at \<open>t\<close>: no due slot is earlier, or as early
  under a smaller name.\<close>

definition first_due :: "ctx \<Rightarrow> int \<Rightarrow> string \<Rightarrow> waiting_state \<Rightarrow> bool" where
  "first_due c t k w \<longleftrightarrow> (\<exists>u \<le> t. dget (c_waitings c) k = Some w \<and> w_until w = Some u \<and>
     (\<forall>k' w' u'. dget (c_waitings c) k' = Some w' \<longrightarrow> w_until w' = Some u' \<longrightarrow> u' \<le> t \<longrightarrow>
        u < u' \<or> (u = u' \<and> k \<le> k')))"

lemma first_due_unique:
  assumes "first_due c t k w" and "first_due c t k' w'"
  shows "k = k' \<and> w = w'"
proof -
  from assms(1) obtain u where u: "u \<le> t" "dget (c_waitings c) k = Some w" "w_until w = Some u"
    and l: "\<And>k' w' u'. dget (c_waitings c) k' = Some w' \<Longrightarrow> w_until w' = Some u' \<Longrightarrow> u' \<le> t \<Longrightarrow> u < u' \<or> (u = u' \<and> k \<le> k')"
    unfolding first_due_def by blast
  from assms(2) obtain v where v: "v \<le> t" "dget (c_waitings c) k' = Some w'" "w_until w' = Some v"
    and m: "\<And>k w u. dget (c_waitings c) k = Some w \<Longrightarrow> w_until w = Some u \<Longrightarrow> u \<le> t \<Longrightarrow> v < u \<or> (v = u \<and> k' \<le> k)"
    unfolding first_due_def by blast
  from l [OF v(2,3,1)] m [OF u(2,3,1)] have "k = k'" by auto
  with u(2) v(2) show ?thesis by simp
qed

lemma nextDue_Some:
  assumes "set ks = set (dkeys (c_waitings c))"
  shows "nextDueWaiting ks t c = Some (k, w) \<longleftrightarrow> first_due c t k w"
proof (rule due_loop_cases [OF assms, of t])
  assume n: "due_loop ks (c_waitings c) t None = None"
    and late: "\<And>k w u. dget (c_waitings c) k = Some w \<Longrightarrow> w_until w = Some u \<Longrightarrow> t < u"
  have "\<not> first_due c t k w"
  proof
    assume "first_due c t k w"
    then obtain u where "u \<le> t" "dget (c_waitings c) k = Some w" "w_until w = Some u" by (auto simp: first_due_def)
    with late [of k w u] show False by simp
  qed
  with n show ?thesis by (simp add: nextDueWaiting_def)
next
  fix k0 w0 u0
  assume d: "due_loop ks (c_waitings c) t None = Some (k0, w0, u0)" and "dget (c_waitings c) k0 = Some w0"
    "w_until w0 = Some u0" "u0 \<le> t"
    "\<And>k' w' u'. dget (c_waitings c) k' = Some w' \<Longrightarrow> w_until w' = Some u' \<Longrightarrow> u' \<le> t \<Longrightarrow> u0 < u' \<or> (u0 = u' \<and> k0 \<le> k')"
  then have f: "first_due c t k0 w0" unfolding first_due_def by blast
  have "first_due c t k w \<longleftrightarrow> k = k0 \<and> w = w0" using first_due_unique [OF f, of k w] f by blast
  with d show ?thesis by (auto simp: nextDueWaiting_def)
qed

lemma NextWakeup_spec:
  assumes "set ks = set (dkeys (c_waitings c))"
  shows "NextWakeup ks c = Some u \<longleftrightarrow> u \<in> due_times c \<and> (\<forall>v \<in> due_times c. u \<le> v)"
proof -
  have "k \<in> set ks" if "dget (c_waitings c) k = Some w" for k w
    using that assms by (metis dget_eq_None_iff option.distinct(1))
  then have "{u. \<exists>k \<in> set ks. \<exists>w. dget (c_waitings c) k = Some w \<and> w_until w = Some u} = due_times c"
    by (auto simp: due_times_def)
  then show ?thesis by (simp add: NextWakeup_def wakeup_loop_spec Let_def)
qed

text \<open>C12: the announced time is the right one. Whatever the order in which the map of slots is
  visited, \<open>NextWakeup\<close> returns the least due time, and \<open>WakeDue\<close> at a time \<open>t\<close> finds a slot to
  fire exactly when the announced time has come.\<close>

theorem wakeup_announced:
  assumes "set ks = set (dkeys (c_waitings c))" and "set ks' = set (dkeys (c_waitings c))"
  shows "(NextWakeup ks c = Some u \<longleftrightarrow> u \<in> due_times c \<and> (\<forall>v \<in> due_times c. u \<le> v)) \<and>
    (nextDueWaiting ks' t c \<noteq> None \<longleftrightarrow> (\<exists>u \<le> t. NextWakeup ks c = Some u))"
proof -
  have fin: "finite (due_times c)"
  proof (rule finite_subset)
    show "due_times c \<subseteq> set (List.map_filter (\<lambda>(k, w). w_until w) (c_waitings c))"
      by (force simp: due_times_def set_map_filter dest: map_of_SomeD)
  qed simp
  have "nextDueWaiting ks' t c \<noteq> None \<longleftrightarrow> (\<exists>u \<in> due_times c. u \<le> t)"
    using nextDue_None [OF assms(2), of t] by (auto simp: not_less)
  also have "\<dots> \<longleftrightarrow> (\<exists>u \<le> t. u \<in> due_times c \<and> (\<forall>v \<in> due_times c. u \<le> v))"
  proof
    assume "\<exists>u \<in> due_times c. u \<le> t"
    then obtain u where u: "u \<in> due_times c" "u \<le> t" by blast
    have "Min (due_times c) \<le> u" using fin u(1) by simp
    then have "Min (due_times c) \<le> t" using u(2) by simp
    moreover have "Min (due_times c) \<in> due_times c" using fin u(1) by (intro Min_in) auto
    ultimately show "\<exists>u \<le> t. u \<in> due_times c \<and> (\<forall>v \<in> due_times c. u \<le> v)" using fin by (meson Min_le)
  qed blast
  finally show ?thesis by (simp add: NextWakeup_spec [OF assms(1)])
qed

text \<open>Wake-ups are taken in a fixed order. The slot that \<open>WakeDue\<close> takes is the one due
  first, the least name among equal times, whatever the order of the range over the map.\<close>

theorem due_in_order:
  assumes "set ks = set (dkeys (c_waitings c))"
  shows "nextDueWaiting ks t c = Some (k, w) \<longleftrightarrow> first_due c t k w"
  by (rule nextDue_Some [OF assms])

subsection \<open>Samples with timers and deadlines\<close>


definition deadline_node :: "string \<Rightarrow> string \<Rightarrow> string \<Rightarrow> string \<Rightarrow> node" where
  "deadline_node k e nxt late = (plain_node k ''approval'' [on_event e nxt])
     \<lparr>n_deadline := Some \<lparr>dl_after = ''1h'', dl_next = late\<rparr>\<rparr>"


definition hasty_fork :: process_def where
  "hasty_fork = sample_def ''f'' [
     (plain_node ''f'' ''parallel'' [on_event '''' ''x'', on_event '''' ''y''])
       \<lparr>n_join := Some \<lparr>jn_mode = ''any'', jn_required = 0, jn_timeout = ''30m''\<rparr>\<rparr>,
     deadline_node ''x'' ''okx'' ''j'' ''j'',
     plain_node ''y'' ''approval'' [on_event ''oky'' ''j''],
     plain_node ''j'' ''join'' [on_event '''' ''e''],
     plain_node ''e'' ''end'' []]"

text \<open>An approval whose deadline leads to a reminder that comes back to it.\<close>

definition deadline_loop :: process_def where
  "deadline_loop = sample_def ''s'' [
     plain_node ''s'' ''start'' [on_event ''submit'' ''a''],
     deadline_node ''a'' ''ok'' ''e'' ''r'',
     plain_node ''r'' ''notification'' [on_event '''' ''a''],
     plain_node ''e'' ''end'' []]"

definition woken :: "process_def \<Rightarrow> int list \<Rightarrow> (memory_executor, memory_journal) rts option" where
  "woken def ts = foldl (\<lambda>r t. Option.bind r (WakeDue (sample_cfg def) 5 t)) (launched def) ts"

lemma woken_next: "woken def [t, u] = Option.bind (woken def [t]) (WakeDue (sample_cfg def) 5 u)"
  by (simp add: woken_def)

text \<open>Status, node and waiting slots of a run, with the errors of its last call.\<close>

definition shows_slots :: "(memory_executor, memory_journal) rts option \<Rightarrow> (status \<times> string \<times> string list \<times> err list) option" where
  "shows_slots r = map_option (\<lambda>s. (c_status (r_ctx s), c_node (r_ctx s), dkeys (c_waitings (r_ctx s)), er_errors (r_res s))) r"



lemma loop_run:
  "shows_slots (woken deadline_loop [3600000000015]) = Some (StatusWaiting, ''a'', [''instance''], [])"
  by code_simp

lemma loop_run_on:
  "shows_slots (woken deadline_loop [3600000000015, 9000000000000]) = Some (StatusWaiting, ''a'', [], [])"
  by code_simp

lemma hasty_run:
  "shows_slots (woken hasty_fork [2000000000000]) = Some (StatusTimedOut, ''f'', [''f.b0''], [EScopeTimeout ''f''])"
  by code_simp

lemma hasty_run_on:
  "shows_slots (woken hasty_fork [2000000000000, 4000000000000]) = Some (StatusCompleted, ''e'', [], [])"
  by code_simp

lemma hasty_slots:
  "map_option (\<lambda>s. map (\<lambda>(k, w). (k, w_until w)) (c_waitings (r_ctx s))) (launched hasty_fork) =
    Some [(''scope:f'', Some 1800000000008), (''f.b0'', Some 3600000000012)]"
  by code_simp

lemma hasty_slotsE:
  obtains s w v where "launched hasty_fork = Some s"
    "c_waitings (r_ctx s) = [(''scope:f'', w), (''f.b0'', v)]"
    "w_until w = Some 1800000000008" "w_until v = Some 3600000000012"
  using hasty_slots by auto

theorem wakeup_announced_witness:
  "\<exists>s. launched hasty_fork = Some s \<and> NextWakeup [''f.b0'', ''scope:f''] (r_ctx s) = Some 1800000000008 \<and>
     nextDueWaiting [''scope:f'', ''f.b0''] 1800000000007 (r_ctx s) = None \<and>
     nextDueWaiting [''scope:f'', ''f.b0''] 1800000000008 (r_ctx s) \<noteq> None"
proof -
  obtain s w v where s: "launched hasty_fork = Some s"
    "c_waitings (r_ctx s) = [(''scope:f'', w), (''f.b0'', v)]"
    "w_until w = Some 1800000000008" "w_until v = Some 3600000000012"
    by (rule hasty_slotsE)
  have "set [''f.b0'', ''scope:f''] = set (dkeys (c_waitings (r_ctx s)))"
    "set [''scope:f'', ''f.b0''] = set (dkeys (c_waitings (r_ctx s)))" using s(2) by auto
  note w = wakeup_announced [OF this]
  have d: "due_times (r_ctx s) = {1800000000008, 3600000000012}"
    using s(2-4) by (simp add: due_times_stored List.map_filter_simps)
  have n: "NextWakeup [''f.b0'', ''scope:f''] (r_ctx s) = Some u \<longleftrightarrow> u = 1800000000008" for u
    using w [of u 0, THEN conjunct1] unfolding d by simp arith
  have "nextDueWaiting [''scope:f'', ''f.b0''] t (r_ctx s) \<noteq> None \<longleftrightarrow> 1800000000008 \<le> t" for t
    using w [of 0 t, THEN conjunct2] by (simp only: n) (simp del: not_None_eq)
  from this [of 1800000000007] this [of 1800000000008] n s(1) show ?thesis by (simp del: not_None_eq)
qed

theorem due_in_order_witness:
  "\<exists>s w. launched hasty_fork = Some s \<and> w_until w = Some 1800000000008 \<and>
     nextDueWaiting [''f.b0'', ''scope:f''] 4000000000000 (r_ctx s) = Some (''scope:f'', w)"
proof -
  obtain s w v where s: "launched hasty_fork = Some s"
    "c_waitings (r_ctx s) = [(''scope:f'', w), (''f.b0'', v)]"
    "w_until w = Some 1800000000008" "w_until v = Some 3600000000012"
    by (rule hasty_slotsE)
  have "set [''f.b0'', ''scope:f''] = set (dkeys (c_waitings (r_ctx s)))" using s(2) by auto
  moreover have "first_due (r_ctx s) 4000000000000 ''scope:f'' w"
    using s(2-4) by (auto simp: first_due_def split: if_splits)
  ultimately have "nextDueWaiting [''f.b0'', ''scope:f''] 4000000000000 (r_ctx s) = Some (''scope:f'', w)"
    using due_in_order by blast
  with s(1,3) show ?thesis by blast
qed

subsection \<open>Three defects of the wake-up\<close>

lemma no_wakeup: "c_waitings c = [] \<Longrightarrow> NextWakeup ks c = None"
proof -
  assume c: "c_waitings c = []"
  have "wakeup_loop ks [] None = None" by (induction ks) simp_all
  with c show ?thesis by (simp add: NextWakeup_def)
qed


text \<open>A wake-up revives an instance that has timed out. The scope of \<open>hasty_fork\<close> times out
  and the instance is \<open>timed_out\<close>, a terminal status in which every event is refused; but the
  deadline of its first branch is still registered, and a later \<open>WakeDue\<close> fires it, joins the
  branches and completes the instance.\<close>

theorem timed_out_revived:
  "\<exists>s s'. woken hasty_fork [2000000000000] = Some s \<and> isTerminalStatus (c_status (r_ctx s)) \<and>
     c_status (r_ctx s) = StatusTimedOut \<and>
     WakeDue (sample_cfg hasty_fork) 5 4000000000000 s = Some s' \<and> c_status (r_ctx s') = StatusCompleted \<and>
     c_node (r_ctx s') = ''e''"
  using hasty_run hasty_run_on by (auto simp: shows_slots_def woken_next isTerminalStatus_def)

text \<open>A deadline that comes round again is lost. The deadline of \<open>a\<close> leads through a reminder
  back to \<open>a\<close>, which parks anew and registers a second deadline; since leaving by a deadline
  counts no visit, its wake-up has the identifier of the first, and it only clears the slot.\<close>

theorem second_deadline_lost:
  "\<exists>s s'. woken deadline_loop [3600000000015] = Some s \<and> c_node (r_ctx s) = ''a'' \<and>
     dkeys (c_waitings (r_ctx s)) = [''instance''] \<and>
     WakeDue (sample_cfg deadline_loop) 5 9000000000000 s = Some s' \<and> c_status (r_ctx s') = StatusWaiting \<and>
     c_node (r_ctx s') = ''a'' \<and> er_errors (r_res s') = [] \<and> (\<forall>ks. NextWakeup ks (r_ctx s') = None)"
  using loop_run loop_run_on by (auto simp: shows_slots_def woken_next no_wakeup)

end
