(* ===== verification/Graph.thy ===== *)
theory Graph
  imports Process
begin

text \<open>
  The graph of a process definition and breadth-first search over it, which the validator and
  the analyzer share: \<open>bfs\<close> is the loop both write out, with a list for the Go map of reached
  nodes, and \<open>bfs_reach\<close> its specification.
\<close>

type_synonym graph = "string list dict"

definition succs :: "graph \<Rightarrow> string \<Rightarrow> string list" where
  "succs g u = (case dget g u of None \<Rightarrow> [] | Some vs \<Rightarrow> vs)"

definition edges_of :: "graph \<Rightarrow> (string \<times> string) set" where
  "edges_of g = {(u, v). v \<in> set (succs g u)}"

lemma edges_of_iff [simp]: "(u, v) \<in> edges_of g \<longleftrightarrow> v \<in> set (succs g u)"
  by (simp add: edges_of_def)

subsection \<open>The search\<close>

text \<open>The inner loop: unmarked successors are marked and queued.\<close>

fun visit_new :: "string list \<Rightarrow> string list \<Rightarrow> string list \<Rightarrow> string list \<times> string list" where
  "visit_new [] seen queue = (seen, queue)"
| "visit_new (v # vs) seen queue =
     (if v \<in> set seen then visit_new vs seen queue else visit_new vs (v # seen) (queue @ [v]))"

definition unmarked :: "graph \<Rightarrow> string list \<Rightarrow> nat" where
  "unmarked g seen = card (set (concat (map snd g)) - set seen)"

lemma visit_new_sets:
  "visit_new vs seen queue = (seen', queue') \<Longrightarrow>
    set seen' = set seen \<union> set vs \<and> set queue' = set queue \<union> (set vs - set seen)"
  by (induction vs arbitrary: seen queue) (auto split: if_splits)

lemma visit_new_measure:
  assumes "set vs \<subseteq> set (concat (map snd g))" and "visit_new vs seen queue = (seen', queue')"
  shows "length queue' + unmarked g seen' = length queue + unmarked g seen"
  using assms
proof (induction vs arbitrary: seen queue)
  case (Cons v vs)
  show ?case
  proof (cases "v \<in> set seen")
    case True
    with Cons show ?thesis by simp
  next
    case False
    let ?U = "set (concat (map snd g))"
    have "v \<in> ?U - set seen" using Cons.prems(1) False by simp
    then have "card (?U - set seen) = Suc (card (?U - set seen - {v}))" by (simp only: card_Suc_Diff1 finite_Diff finite_set)
    moreover have "?U - set seen - {v} = ?U - set (v # seen)" by auto
    ultimately have "unmarked g seen = Suc (unmarked g (v # seen))" by (simp only: unmarked_def)
    with Cons.IH [of "v # seen" "queue @ [v]"] Cons.prems False show ?thesis by simp
  qed
qed simp

lemma succs_known: "set (succs g u) \<subseteq> set (concat (map snd g))"
proof (cases "dget g u")
  case (Some vs)
  then have "(u, vs) \<in> set g" by (rule map_of_SomeD)
  with Some show ?thesis by (force simp: succs_def)
qed (simp add: succs_def)

function bfs :: "graph \<Rightarrow> string list \<Rightarrow> string list \<Rightarrow> string list" where
  "bfs g seen [] = seen"
| "bfs g seen (u # queue) =
     (let (seen', queue') = visit_new (succs g u) seen queue in bfs g seen' queue')"
  by pat_completeness auto
termination
proof (relation "measure (\<lambda>(g, seen, queue). length queue + unmarked g seen)")
  fix g u seen queue x seen' queue'
  assume "x = visit_new (succs g u) seen queue" "(seen', queue') = x"
  then have "visit_new (succs g u) seen queue = (seen', queue')" by simp
  from visit_new_measure [OF succs_known this] this
  show "((g, seen', queue'), g, seen, u # queue) \<in> measure (\<lambda>(g, seen, queue). length queue + unmarked g seen)"
    by simp
qed simp

lemma bfs_closed:
  assumes "\<And>u v. u \<in> set seen \<Longrightarrow> u \<notin> set queue \<Longrightarrow> v \<in> set (succs g u) \<Longrightarrow> v \<in> set seen"
  shows "set seen \<subseteq> set (bfs g seen queue) \<and>
    (\<forall>u \<in> set (bfs g seen queue). \<forall>v \<in> set (succs g u). v \<in> set (bfs g seen queue))"
  using assms
proof (induction g seen queue rule: bfs.induct)
  case (2 g seen u queue)
  obtain seen' queue' where v: "visit_new (succs g u) seen queue = (seen', queue')" by fastforce
  note sets = visit_new_sets [OF v]
  have "x \<in> set seen'" if "w \<in> set seen'" "w \<notin> set queue'" "x \<in> set (succs g w)" for w x
  proof (cases "w = u")
    case False
    with that sets 2(2) [of w x] show ?thesis by auto
  qed (use that sets in auto)
  with 2(1) [OF v [symmetric] refl] sets v show ?case by auto
qed simp

lemma bfs_sound:
  "set seen \<union> set queue \<subseteq> (edges_of g)\<^sup>* `` R \<Longrightarrow> set (bfs g seen queue) \<subseteq> (edges_of g)\<^sup>* `` R"
proof (induction g seen queue rule: bfs.induct)
  case (2 g seen u queue)
  obtain seen' queue' where v: "visit_new (succs g u) seen queue = (seen', queue')" by fastforce
  have "w \<in> (edges_of g)\<^sup>* `` R" if "w \<in> set (succs g u)" for w
  proof -
    from 2(2) obtain r where "r \<in> R" "(r, u) \<in> (edges_of g)\<^sup>*" by auto
    moreover from this(2) have "(r, w) \<in> (edges_of g)\<^sup>*" by (rule rtrancl_into_rtrancl) (simp add: that)
    ultimately show ?thesis by blast
  qed
  with 2(1) [OF v [symmetric] refl] 2(2) visit_new_sets [OF v] v show ?case by auto
qed simp

text \<open>The search from a marked start marks what the edges reach from it.\<close>

theorem bfs_reach: "set (bfs g [s] [s]) = {v. (s, v) \<in> (edges_of g)\<^sup>*}"
proof
  show "set (bfs g [s] [s]) \<subseteq> {v. (s, v) \<in> (edges_of g)\<^sup>*}" using bfs_sound [of "[s]" "[s]" g "{s}"] by auto
  have c: "s \<in> set (bfs g [s] [s])"
    "\<And>u v. u \<in> set (bfs g [s] [s]) \<Longrightarrow> v \<in> set (succs g u) \<Longrightarrow> v \<in> set (bfs g [s] [s])"
    using bfs_closed [of "[s]" "[s]" g] by auto
  have "v \<in> set (bfs g [s] [s])" if "(s, v) \<in> (edges_of g)\<^sup>*" for v
    using that by (induction rule: rtrancl_induct) (simp_all only: c edges_of_iff)
  then show "{v. (s, v) \<in> (edges_of g)\<^sup>*} \<subseteq> set (bfs g [s] [s])" by blast
qed

lemma bfs_nothing: "succs g s = [] \<Longrightarrow> bfs g [] [s] = []"
  by simp

end
