(* ===== verification/Validator.thy ===== *)
theory Validator
  imports Graph
begin

text \<open>
  The structural validation of a definition (\<open>src/dsl/validator.go\<close>). A \<open>ValidationError\<close> is
  its path and its description; a description is a value of \<open>vdesc\<close>, one constructor per message
  with the values the message prints. The expression engine's checks are parameters, and \<open>ord\<close>
  gives the order in which each \<open>range\<close> over a map visits the keys, by the loop it belongs to.
\<close>

subsection \<open>Results\<close>

datatype vdesc =
    DProcessID | DVersion | DNoNodes | DStartRequired | DStartMissing string
  | DNodeID | DTypeRequired | DTypeInvalid string
  | DDuration err | DTimerExit
  | DAiBlock | DAiPrompt | DAiOnError string | DAiCases | DAiCaseUnknown string | DAiCandidate string | DAiOnly
  | DDeadlineKind string | DDeadlineNext | DDeadlineMissing string
  | DPrincipalKind string string
  | DExpr err
  | DTarget string | DCaseKind string string | DCondition string err | DTypeCheck string
  | DConditionTwo | DConditionDefault
  | DParallelBranch | DForkMode string | DForkJoin string | DForkOnFail string
  | DJoinMode string | DJoinRequired | DJoinExit
  | DOrphan | DUnreachable

type_synonym validation_error = "string \<times> vdesc"

record validation_result =
  vr_valid :: bool
  vr_errors :: "validation_error list"

definition AddError :: "validation_error \<Rightarrow> validation_result \<Rightarrow> validation_result" where
  "AddError e r = r\<lparr>vr_valid := False, vr_errors := vr_errors r @ [e]\<rparr>"

definition add_errors :: "validation_error list \<Rightarrow> validation_result \<Rightarrow> validation_result" where
  "add_errors es r = foldl (\<lambda>r e. AddError e r) r es"

lemma add_errors_simps [simp]:
  "vr_errors (add_errors es r) = vr_errors r @ es"
  "vr_valid (add_errors es r) \<longleftrightarrow> vr_valid r \<and> es = []"
  by (induction es arbitrary: r) (simp_all add: add_errors_def AddError_def)

text \<open>What the validator asks of the expression engine; \<open>None\<close> is a nil error.\<close>

record expr_checker =
  ck_validate :: "string \<Rightarrow> err option"
  ck_validateValue :: "(string \<Rightarrow> err option) option"
  ck_typeCheck :: "string \<Rightarrow> ty dict \<Rightarrow> string list"

definition validateValueExpr :: "expr_checker \<Rightarrow> string \<Rightarrow> err option" where
  "validateValueExpr ck e =
     (case ck_validateValue ck of Some v \<Rightarrow> v e | None \<Rightarrow> ck_validate ck e)"

definition ValidNodeTypes :: "string list" where
  "ValidNodeTypes = [''start'', ''approval'', ''condition'', ''parallel'', ''subprocess'',
     ''action'', ''notification'', ''timer'', ''ai'', ''end'']"

definition report :: "bool \<Rightarrow> string \<Rightarrow> vdesc \<Rightarrow> validation_error list" where
  "report bad path d = (if bad then [(path, d)] else [])"

definition report_err :: "(err + 'a) \<Rightarrow> string \<Rightarrow> validation_error list" where
  "report_err r path = (case r of Inl e \<Rightarrow> [(path, DDuration e)] | Inr x \<Rightarrow> [])"

lemma report_iff [simp]: "report bad path d = [] \<longleftrightarrow> \<not> bad"
  by (simp add: report_def)

lemma report_err_Nil [simp]: "report_err r path = [] \<longleftrightarrow> \<not> isl r"
  by (simp add: report_err_def split: sum.split)

text \<open>\<open>strings.TrimSpace(s) == ""\<close>: only white space, in its UTF-8 encoding.\<close>

definition white_runes :: "string list" where
  "white_runes = [[CHR 0x09], [CHR 0x0A], [CHR 0x0B], [CHR 0x0C], [CHR 0x0D], [CHR 0x20],
     [CHR 0xC2, CHR 0x85], [CHR 0xC2, CHR 0xA0], [CHR 0xE1, CHR 0x9A, CHR 0x80],
     [CHR 0xE2, CHR 0x80, CHR 0xA8], [CHR 0xE2, CHR 0x80, CHR 0xA9], [CHR 0xE2, CHR 0x80, CHR 0xAF],
     [CHR 0xE2, CHR 0x81, CHR 0x9F], [CHR 0xE3, CHR 0x80, CHR 0x80]] @
     map (\<lambda>n. [CHR 0xE2, CHR 0x80, char_of (128 + n)]) [0..<11]"

function blank :: "string \<Rightarrow> bool" where
  "blank s = (s = [] \<or> (case find (\<lambda>w. take (length w) s = w) white_runes of
       None \<Rightarrow> False | Some w \<Rightarrow> blank (drop (length w) s)))"
  by pat_completeness auto
termination
proof (relation "measure length")
  fix s w :: string
  assume f: "find (\<lambda>w. take (length w) s = w) white_runes = Some w"
  then have "w \<in> set white_runes" by (auto simp: find_Some_iff)
  then have "w \<noteq> []" by (auto simp: white_runes_def)
  moreover from f have "take (length w) s = w" by (auto simp: find_Some_iff)
  ultimately show "(drop (length w) s, s) \<in> measure length" by (cases s) auto
qed simp

declare blank.simps [simp del]

subsection \<open>The checks of one node\<close>

definition has_node :: "process_def \<Rightarrow> string \<Rightarrow> bool" where
  "has_node def k \<longleftrightarrow> dget (pd_nodes def) k \<noteq> None"

definition identity_errors :: "string \<Rightarrow> node \<Rightarrow> validation_error list" where
  "identity_errors path n =
     report (n_id n = '''') (path @ ''.id'') DNodeID @
     (if n_type n = '''' then [(path @ ''.type'', DTypeRequired)]
      else report (n_type n \<notin> set ValidNodeTypes) (path @ ''.type'') (DTypeInvalid (n_type n)))"

definition timer_errors :: "string \<Rightarrow> node \<Rightarrow> validation_error list" where
  "timer_errors path n =
     (if n_type n \<noteq> ''timer'' then []
      else report_err (parseDurationStrict (n_duration n) ''timer duration'') (path @ ''.duration'') @
           report (n_trans n = []) (path @ ''.transitions'') DTimerExit)"

definition choose_errors :: "string \<Rightarrow> node \<Rightarrow> ai_config \<Rightarrow> validation_error list" where
  "choose_errors path n ai =
     (if ai_choose ai = [] then []
      else report (n_trans n = []) (path @ ''.transitions'') DAiCases @
           concat (map (\<lambda>tr. report (tr_case tr \<noteq> '''' \<and> tr_case tr \<notin> set (ai_choose ai))
                        (path @ ''.transitions'') (DAiCaseUnknown (tr_case tr))) (n_trans n)) @
           concat (map (\<lambda>c. report (c \<notin> set (filter (\<lambda>k. k \<noteq> '''') (map tr_case (n_trans n))))
                        (path @ ''.ai.choose'') (DAiCandidate c)) (ai_choose ai)))"

definition ai_errors :: "process_def \<Rightarrow> string \<Rightarrow> node \<Rightarrow> validation_error list" where
  "ai_errors def path n =
     (if n_type n = ''ai'' then
        (case n_ai n of
           None \<Rightarrow> [(path @ ''.ai'', DAiBlock)]
         | Some ai \<Rightarrow>
             report (blank (ai_prompt ai)) (path @ ''.ai.prompt'') DAiPrompt @
             report (ai_onError ai \<noteq> '''' \<and> \<not> has_node def (ai_onError ai)) (path @ ''.ai.onError'')
               (DAiOnError (ai_onError ai)) @
             choose_errors path n ai)
      else report (n_ai n \<noteq> None) (path @ ''.ai'') DAiOnly)"

definition deadline_errors :: "process_def \<Rightarrow> string \<Rightarrow> node \<Rightarrow> validation_error list" where
  "deadline_errors def path n =
     (case n_deadline n of
        None \<Rightarrow> []
      | Some dl \<Rightarrow>
          report (n_type n \<noteq> ''approval'' \<and> n_type n \<noteq> ''subprocess'') (path @ ''.deadline'')
            (DDeadlineKind (n_type n)) @
          report_err (parseDurationStrict (dl_after dl) ''deadline after'') (path @ ''.deadline.after'') @
          (if dl_next dl = '''' then [(path @ ''.deadline.next'', DDeadlineNext)]
           else report (\<not> has_node def (dl_next dl)) (path @ ''.deadline.next'') (DDeadlineMissing (dl_next dl))))"

definition principal_errors :: "string \<Rightarrow> node \<Rightarrow> validation_error list" where
  "principal_errors path n =
     report (n_requirePrincipal n \<and> \<not> isDecisionNode (Some n)) (path @ ''.requirePrincipal'')
       (DPrincipalKind (n_id n) (n_type n))"

definition mapping_errors :: "expr_checker \<Rightarrow> string \<Rightarrow> string dict \<Rightarrow> string list \<Rightarrow> validation_error list" where
  "mapping_errors ck path m names =
     concat (map (\<lambda>k. case dget m k of
         None \<Rightarrow> []
       | Some e \<Rightarrow> (case validateValueExpr ck e of
                     None \<Rightarrow> [] | Some x \<Rightarrow> [(path @ ''['' @ k @ '']'', DExpr x)])) names)"

definition transition_errors ::
  "expr_checker \<Rightarrow> process_def \<Rightarrow> string \<Rightarrow> node \<Rightarrow> transition \<Rightarrow> validation_error list" where
  "transition_errors ck def path n tr =
     report (tr_next tr \<noteq> '''' \<and> \<not> has_node def (tr_next tr)) (path @ ''.next'') (DTarget (tr_next tr)) @
     report (tr_case tr \<noteq> '''' \<and> n_type n \<noteq> ''ai'') (path @ ''.case'') (DCaseKind (n_id n) (n_type n)) @
     (if tr_when tr = '''' then []
      else (case ck_validate ck (tr_when tr) of
              None \<Rightarrow> [] | Some e \<Rightarrow> [(path @ ''.when'', DCondition (tr_when tr) e)]) @
           (if pd_schema def = [] then []
            else map (\<lambda>m. (path @ ''.when'', DTypeCheck m)) (ck_typeCheck ck (tr_when tr) (pd_schema def))))"

definition condition_errors :: "string \<Rightarrow> node \<Rightarrow> validation_error list" where
  "condition_errors path n =
     (if n_type n \<noteq> ''condition'' then []
      else report (length (n_trans n) < 2) (path @ ''.transitions'') DConditionTwo @
           report (\<not> list_ex (\<lambda>tr. tr_when tr = '''') (n_trans n)) (path @ ''.transitions'') DConditionDefault)"

definition join_errors :: "string \<Rightarrow> join_config option \<Rightarrow> validation_error list" where
  "join_errors path jn =
     (case jn of
        None \<Rightarrow> []
      | Some j \<Rightarrow>
          report (jn_mode j \<notin> set ['''', ''all'', ''any'', ''n_of_m'']) (path @ ''.join.mode'') (DJoinMode (jn_mode j)) @
          report (jn_mode j = ''n_of_m'' \<and> jn_required j < 1) (path @ ''.join.required'') DJoinRequired @
          (if jn_timeout j = '''' then []
           else report_err (parseDurationStrict (jn_timeout j) ''join timeout'') (path @ ''.join.timeout'')))"

definition fork_errors :: "process_def \<Rightarrow> string \<Rightarrow> fork_config option \<Rightarrow> validation_error list" where
  "fork_errors def path fk =
     (case fk of
        None \<Rightarrow> []
      | Some f \<Rightarrow>
          report (fk_mode f \<notin> set ['''', ''all'', ''any'']) (path @ ''.fork.mode'') (DForkMode (fk_mode f)) @
          report (fk_join f \<noteq> '''' \<and> \<not> has_node def (fk_join f)) (path @ ''.fork.joinNode'') (DForkJoin (fk_join f)) @
          report (fk_onfail f \<notin> set ['''', ''continue'', ''fail'']) (path @ ''.fork.onFail'') (DForkOnFail (fk_onfail f)))"

definition parallel_errors :: "process_def \<Rightarrow> string \<Rightarrow> node \<Rightarrow> validation_error list" where
  "parallel_errors def path n =
     (if n_type n \<noteq> ''parallel'' then []
      else report (n_trans n = []) (path @ ''.transitions'') DParallelBranch @
           fork_errors def path (n_fork n) @ join_errors path (n_join n))"

definition joinNode_errors :: "string \<Rightarrow> node \<Rightarrow> validation_error list" where
  "joinNode_errors path n =
     (if n_type n \<noteq> ''join'' then []
      else join_errors path (n_join n) @ report (n_trans n = []) (path @ ''.transitions'') DJoinExit)"

definition node_errors ::
  "expr_checker \<Rightarrow> (string \<Rightarrow> string list \<Rightarrow> string list) \<Rightarrow> process_def \<Rightarrow> string \<Rightarrow> node \<Rightarrow> validation_error list" where
  "node_errors ck ord def k n =
     (let path = ''nodes['' @ k @ '']''
      in identity_errors path n @ timer_errors path n @ ai_errors def path n @ deadline_errors def path n @
         principal_errors path n @
         mapping_errors ck (path @ ''.input'') (n_input n) (ord (path @ ''.input'') (dkeys (n_input n))) @
         mapping_errors ck (path @ ''.output'') (n_output n) (ord (path @ ''.output'') (dkeys (n_output n))) @
         concat (map (\<lambda>(j, tr). transition_errors ck def (path @ ''.transitions['' @ show_nat j @ '']'') n tr)
           (enumerate 0 (n_trans n))) @
         condition_errors path n @ parallel_errors def path n @ joinNode_errors path n)"

subsection \<open>References and reachability\<close>

text \<open>The targets of a node: its transitions, its \<open>onError\<close> route, its escalation.\<close>

definition node_edges :: "node \<Rightarrow> string list" where
  "node_edges n =
     filter (\<lambda>k. k \<noteq> '''') (map tr_next (n_trans n)) @
     (case n_ai n of None \<Rightarrow> [] | Some ai \<Rightarrow> if ai_onError ai \<noteq> '''' then [ai_onError ai] else []) @
     (case n_deadline n of None \<Rightarrow> [] | Some dl \<Rightarrow> if dl_next dl \<noteq> '''' then [dl_next dl] else [])"

definition referencedBy :: "process_def \<Rightarrow> string \<Rightarrow> nat" where
  "referencedBy def k = count_list (concat (map (\<lambda>(i, n). node_edges n) (pd_nodes def))) k"

definition def_graph :: "process_def \<Rightarrow> graph" where
  "def_graph def = map (\<lambda>(k, n). (k, filter (has_node def) (node_edges n))) (pd_nodes def)"

definition reachable_nodes :: "process_def \<Rightarrow> string list" where
  "reachable_nodes def =
     bfs (def_graph def) (if has_node def (pd_start def) then [pd_start def] else []) [pd_start def]"

definition orphan_errors :: "process_def \<Rightarrow> string list \<Rightarrow> validation_error list" where
  "orphan_errors def ks =
     concat (map (\<lambda>k. case dget (pd_nodes def) k of
         None \<Rightarrow> []
       | Some n \<Rightarrow> report (n_type n \<noteq> ''start'' \<and> n_type n \<noteq> ''end'' \<and> referencedBy def k = 0)
                     (''nodes['' @ k @ '']'') DOrphan) ks)"

definition unreachable_errors :: "process_def \<Rightarrow> string list \<Rightarrow> validation_error list" where
  "unreachable_errors def ks =
     concat (map (\<lambda>k. report (k \<notin> set (reachable_nodes def)) (''nodes['' @ k @ '']'') DUnreachable) ks)"

subsection \<open>Validate\<close>

definition header_errors :: "process_def \<Rightarrow> validation_error list" where
  "header_errors def =
     report (pd_id def = '''') ''id'' DProcessID @ report (pd_version def = '''') ''version'' DVersion"

definition start_errors :: "process_def \<Rightarrow> validation_error list" where
  "start_errors def =
     (if pd_start def = '''' then [(''nodes'', DStartRequired)]
      else report (\<not> has_node def (pd_start def)) ''nodes'' (DStartMissing (pd_start def)))"

definition Validate :: "expr_checker \<Rightarrow> (string \<Rightarrow> string list \<Rightarrow> string list) \<Rightarrow> process_def \<Rightarrow> validation_result" where
  "Validate ck ord def =
     (let r = add_errors (header_errors def) \<lparr>vr_valid = True, vr_errors = []\<rparr>;
          keys = dkeys (pd_nodes def)
      in if pd_nodes def = [] then AddError (''nodes'', DNoNodes) r
         else add_errors
           (start_errors def @
            concat (map (\<lambda>k. case dget (pd_nodes def) k of
                None \<Rightarrow> [] | Some n \<Rightarrow> node_errors ck ord def k n) (ord ''nodes'' keys)) @
            orphan_errors def (ord ''orphans'' keys) @
            unreachable_errors def (ord ''unreachable'' keys)) r)"

subsection \<open>What a deployable definition is\<close>

text \<open>The same checks as conditions on the definition, without paths, messages and orders.\<close>

definition parses :: "string \<Rightarrow> bool" where
  "parses raw \<longleftrightarrow> (\<exists>d. parseDurationStrict raw '''' = Inr d)"

definition sound_mapping :: "expr_checker \<Rightarrow> string dict \<Rightarrow> bool" where
  "sound_mapping ck m \<longleftrightarrow> (\<forall>k e. dget m k = Some e \<longrightarrow> validateValueExpr ck e = None)"

definition sound_transition :: "expr_checker \<Rightarrow> process_def \<Rightarrow> node \<Rightarrow> transition \<Rightarrow> bool" where
  "sound_transition ck def n tr \<longleftrightarrow>
     (tr_next tr = '''' \<or> has_node def (tr_next tr)) \<and> (tr_case tr = '''' \<or> n_type n = ''ai'') \<and>
     (tr_when tr = '''' \<or> ck_validate ck (tr_when tr) = None \<and>
        (pd_schema def = [] \<or> ck_typeCheck ck (tr_when tr) (pd_schema def) = []))"

definition sound_ai :: "process_def \<Rightarrow> node \<Rightarrow> ai_config \<Rightarrow> bool" where
  "sound_ai def n ai \<longleftrightarrow> \<not> blank (ai_prompt ai) \<and> (ai_onError ai = '''' \<or> has_node def (ai_onError ai)) \<and>
     (ai_choose ai \<noteq> [] \<longrightarrow> n_trans n \<noteq> [] \<and>
        set (ai_choose ai) = {tr_case tr | tr. tr \<in> set (n_trans n) \<and> tr_case tr \<noteq> ''''})"

definition sound_join :: "join_config \<Rightarrow> bool" where
  "sound_join j \<longleftrightarrow> jn_mode j \<in> {'''', ''all'', ''any'', ''n_of_m''} \<and>
     (jn_mode j = ''n_of_m'' \<longrightarrow> 1 \<le> jn_required j) \<and> (jn_timeout j = '''' \<or> parses (jn_timeout j))"

definition sound_fork :: "process_def \<Rightarrow> fork_config \<Rightarrow> bool" where
  "sound_fork def f \<longleftrightarrow> fk_mode f \<in> {'''', ''all'', ''any''} \<and> (fk_join f = '''' \<or> has_node def (fk_join f)) \<and>
     fk_onfail f \<in> {'''', ''continue'', ''fail''}"

definition sound_node :: "expr_checker \<Rightarrow> process_def \<Rightarrow> node \<Rightarrow> bool" where
  "sound_node ck def n \<longleftrightarrow> n_id n \<noteq> '''' \<and> n_type n \<in> set ValidNodeTypes \<and>
     (n_type n = ''timer'' \<longrightarrow> parses (n_duration n)) \<and>
     (n_type n \<in> {''timer'', ''parallel''} \<longrightarrow> n_trans n \<noteq> []) \<and>
     (n_type n = ''ai'' \<longrightarrow> n_ai n \<noteq> None) \<and> (\<forall>ai. n_ai n = Some ai \<longrightarrow> n_type n = ''ai'' \<and> sound_ai def n ai) \<and>
     (\<forall>dl. n_deadline n = Some dl \<longrightarrow> n_type n \<in> {''approval'', ''subprocess''} \<and> parses (dl_after dl) \<and>
        dl_next dl \<noteq> '''' \<and> has_node def (dl_next dl)) \<and>
     (n_requirePrincipal n \<longrightarrow> isDecisionNode (Some n)) \<and>
     sound_mapping ck (n_input n) \<and> sound_mapping ck (n_output n) \<and>
     (\<forall>tr \<in> set (n_trans n). sound_transition ck def n tr) \<and>
     (n_type n = ''condition'' \<longrightarrow> 2 \<le> length (n_trans n) \<and> (\<exists>tr \<in> set (n_trans n). tr_when tr = '''')) \<and>
     (n_type n = ''parallel'' \<longrightarrow> pred_option (sound_fork def) (n_fork n) \<and> pred_option sound_join (n_join n))"

definition deployable :: "expr_checker \<Rightarrow> process_def \<Rightarrow> bool" where
  "deployable ck def \<longleftrightarrow> pd_id def \<noteq> '''' \<and> pd_version def \<noteq> '''' \<and> pd_start def \<noteq> '''' \<and> has_node def (pd_start def) \<and>
     (\<forall>k n. dget (pd_nodes def) k = Some n \<longrightarrow>
        sound_node ck def n \<and> (pd_start def, k) \<in> (edges_of (def_graph def))\<^sup>* \<and>
        (n_type n \<in> {''start'', ''end''} \<or> (\<exists>k' n'. dget (pd_nodes def) k' = Some n' \<and> k \<in> set (node_edges n'))))"

subsection \<open>The checks are those conditions\<close>

lemma parse_what: "isl (parseDurationStrict raw what) \<longleftrightarrow> \<not> parses raw"
  by (auto simp: parses_def parseDurationStrict_def split: option.splits if_splits)

named_theorems no_errors \<open>when a group of checks reports nothing\<close>

lemma identity_ok [no_errors]: "identity_errors p n = [] \<longleftrightarrow> n_id n \<noteq> '''' \<and> n_type n \<in> set ValidNodeTypes"
  by (auto simp: identity_errors_def ValidNodeTypes_def)

lemma timer_ok [no_errors]: "timer_errors p n = [] \<longleftrightarrow> (n_type n = ''timer'' \<longrightarrow> parses (n_duration n) \<and> n_trans n \<noteq> [])"
  by (simp add: timer_errors_def parse_what)

lemma choose_ok: "choose_errors p n ai = [] \<longleftrightarrow> (ai_choose ai \<noteq> [] \<longrightarrow> n_trans n \<noteq> [] \<and>
    set (ai_choose ai) = {tr_case tr | tr. tr \<in> set (n_trans n) \<and> tr_case tr \<noteq> ''''})"
proof -
  have "(\<forall>tr \<in> set (n_trans n). tr_case tr = '''' \<or> tr_case tr \<in> set (ai_choose ai)) \<and>
      (\<forall>c \<in> set (ai_choose ai). c \<in> set (filter (\<lambda>k. k \<noteq> '''') (map tr_case (n_trans n)))) \<longleftrightarrow>
    set (ai_choose ai) = {tr_case tr | tr. tr \<in> set (n_trans n) \<and> tr_case tr \<noteq> ''''}"
    by auto
  then show ?thesis by (simp add: choose_errors_def)
qed

lemma ai_ok [no_errors]: "ai_errors def p n = [] \<longleftrightarrow>
    (n_type n = ''ai'' \<longrightarrow> n_ai n \<noteq> None) \<and> (\<forall>ai. n_ai n = Some ai \<longrightarrow> n_type n = ''ai'' \<and> sound_ai def n ai)"
  by (cases "n_ai n") (auto simp: ai_errors_def sound_ai_def choose_ok)

lemma deadline_ok [no_errors]: "deadline_errors def p n = [] \<longleftrightarrow>
    (\<forall>dl. n_deadline n = Some dl \<longrightarrow> n_type n \<in> {''approval'', ''subprocess''} \<and> parses (dl_after dl) \<and>
        dl_next dl \<noteq> '''' \<and> has_node def (dl_next dl))"
  by (cases "n_deadline n") (auto simp: deadline_errors_def parse_what)

lemma principal_ok [no_errors]: "principal_errors p n = [] \<longleftrightarrow> (n_requirePrincipal n \<longrightarrow> isDecisionNode (Some n))"
  by (simp add: principal_errors_def)

lemma mapping_ok [no_errors]: "set ks = set (dkeys m) \<Longrightarrow> mapping_errors ck p m ks = [] \<longleftrightarrow> sound_mapping ck m"
proof -
  assume ks: "set ks = set (dkeys m)"
  have "k \<in> set ks" if "dget m k = Some e" for k e using that ks by (metis dget_eq_None_iff option.distinct(1))
  then show ?thesis by (force simp: mapping_errors_def sound_mapping_def split: option.splits)
qed

lemma transition_ok: "transition_errors ck def p n tr = [] \<longleftrightarrow> sound_transition ck def n tr"
  by (auto simp: transition_errors_def sound_transition_def split: option.splits)

lemma transitions_ok [no_errors]:
  "concat (map (\<lambda>(j, tr). transition_errors ck def (p j) n tr) (enumerate i trs)) = [] \<longleftrightarrow>
    (\<forall>tr \<in> set trs. sound_transition ck def n tr)"
  by (induction trs arbitrary: i) (simp_all add: transition_ok)

lemma condition_ok [no_errors]: "condition_errors p n = [] \<longleftrightarrow>
    (n_type n = ''condition'' \<longrightarrow> 2 \<le> length (n_trans n) \<and> (\<exists>tr \<in> set (n_trans n). tr_when tr = ''''))"
  by (auto simp: condition_errors_def list_ex_iff)

lemma join_ok: "join_errors p jn = [] \<longleftrightarrow> pred_option sound_join jn"
  by (cases jn) (auto simp: join_errors_def sound_join_def parse_what)

lemma fork_ok: "fork_errors def p fk = [] \<longleftrightarrow> pred_option (sound_fork def) fk"
  by (cases fk) (auto simp: fork_errors_def sound_fork_def)

lemma parallel_ok [no_errors]: "parallel_errors def p n = [] \<longleftrightarrow> (n_type n = ''parallel'' \<longrightarrow>
    n_trans n \<noteq> [] \<and> pred_option (sound_fork def) (n_fork n) \<and> pred_option sound_join (n_join n))"
  by (simp add: parallel_errors_def fork_ok join_ok)

text \<open>A valid type is never \<open>join\<close>, so the checks of a join node decide nothing.\<close>

lemma joinNode_ok: "n_type n \<in> set ValidNodeTypes \<Longrightarrow> joinNode_errors p n = []"
  by (auto simp: joinNode_errors_def ValidNodeTypes_def)

definition any_order :: "(string \<Rightarrow> string list \<Rightarrow> string list) \<Rightarrow> bool" where
  "any_order ord \<longleftrightarrow> (\<forall>l ks. set (ord l ks) = set ks)"

lemma node_ok:
  assumes "any_order ord"
  shows "node_errors ck ord def k n = [] \<longleftrightarrow> sound_node ck def n"
proof -
  have o: "set (ord l (dkeys m)) = set (dkeys m)" for l and m :: "string dict" using assms by (simp add: any_order_def)
  show ?thesis
    using joinNode_ok [of n "''nodes['' @ k @ '']''"]
    by (simp only: node_errors_def Let_def append_is_Nil_conv no_errors o sound_node_def) auto
qed

lemma reachable_ok:
  assumes "has_node def (pd_start def)"
  shows "set (reachable_nodes def) = {v. (pd_start def, v) \<in> (edges_of (def_graph def))\<^sup>*}"
  using assms by (simp only: reachable_nodes_def if_True bfs_reach)

lemma referenced_ok:
  assumes "distinct (dkeys (pd_nodes def))"
  shows "referencedBy def k = 0 \<longleftrightarrow> \<not> (\<exists>k' n'. dget (pd_nodes def) k' = Some n' \<and> k \<in> set (node_edges n'))"
proof -
  have "dget (pd_nodes def) k' = Some n' \<longleftrightarrow> (k', n') \<in> set (pd_nodes def)" for k' n' using assms by simp
  then show ?thesis by (auto simp: referencedBy_def count_list_0_iff)
qed

lemma ranged: "any_order ord \<Longrightarrow> k \<in> set (ord l (dkeys d)) \<longleftrightarrow> dget d k \<noteq> None"
  by (simp add: any_order_def dget_eq_None_iff)

lemma Validate_valid:
  "vr_valid (Validate ck ord def) \<longleftrightarrow> header_errors def = [] \<and> pd_nodes def \<noteq> [] \<and> start_errors def = [] \<and>
    (\<forall>k \<in> set (ord ''nodes'' (dkeys (pd_nodes def))). \<forall>n. dget (pd_nodes def) k = Some n \<longrightarrow> node_errors ck ord def k n = []) \<and>
    orphan_errors def (ord ''orphans'' (dkeys (pd_nodes def))) = [] \<and>
    unreachable_errors def (ord ''unreachable'' (dkeys (pd_nodes def))) = []"
  by (auto simp: Validate_def Let_def AddError_def split: option.splits)

lemma Validate_errors:
  "vr_valid (Validate ck ord def) \<longleftrightarrow> vr_errors (Validate ck ord def) = []"
  by (simp add: Validate_def Let_def AddError_def)

theorem Validate_exact:
  assumes "any_order ord" and "distinct (dkeys (pd_nodes def))"
  shows "vr_valid (Validate ck ord def) \<longleftrightarrow> deployable ck def"
proof (cases "pd_start def \<noteq> '''' \<and> has_node def (pd_start def)")
  case False
  then have "start_errors def \<noteq> []" by (auto simp: start_errors_def)
  with False show ?thesis unfolding Validate_valid deployable_def by blast
next
  case True
  then have ne: "pd_nodes def \<noteq> []" and st: "start_errors def = []" by (auto simp: has_node_def start_errors_def)
  have h: "header_errors def = [] \<longleftrightarrow> pd_id def \<noteq> '''' \<and> pd_version def \<noteq> ''''" by (simp add: header_errors_def)
  have u: "unreachable_errors def (ord ''unreachable'' (dkeys (pd_nodes def))) = [] \<longleftrightarrow>
      (\<forall>k n. dget (pd_nodes def) k = Some n \<longrightarrow> (pd_start def, k) \<in> (edges_of (def_graph def))\<^sup>*)"
    using True by (auto simp: unreachable_errors_def ranged [OF assms(1)] reachable_ok)
  have o: "orphan_errors def (ord ''orphans'' (dkeys (pd_nodes def))) = [] \<longleftrightarrow>
      (\<forall>k n. dget (pd_nodes def) k = Some n \<longrightarrow> n_type n \<in> {''start'', ''end''} \<or>
        (\<exists>k' n'. dget (pd_nodes def) k' = Some n' \<and> k \<in> set (node_edges n')))"
    by (simp add: orphan_errors_def referenced_ok [OF assms(2)] split: option.splits)
      (use ranged [OF assms(1), of _ "''orphans''" "pd_nodes def"] in fastforce)
  have n: "(\<forall>k \<in> set (ord ''nodes'' (dkeys (pd_nodes def))). \<forall>n. dget (pd_nodes def) k = Some n \<longrightarrow> node_errors ck ord def k n = [])
      \<longleftrightarrow> (\<forall>k n. dget (pd_nodes def) k = Some n \<longrightarrow> sound_node ck def n)"
    by (auto simp: ranged [OF assms(1)] node_ok [OF assms(1)])
  show ?thesis unfolding Validate_valid deployable_def h u o n using True ne st by blast
qed

lemma valid_node:
  assumes "any_order ord" and "distinct (dkeys (pd_nodes def))" and "vr_valid (Validate ck ord def)"
    and "dget (pd_nodes def) k = Some n"
  shows "sound_node ck def n" and "n_type n \<noteq> ''join''"
proof -
  show s: "sound_node ck def n"
    using assms(3,4) unfolding Validate_exact [OF assms(1,2)] deployable_def by blast
  then have "n_type n \<in> set ValidNodeTypes" by (simp add: sound_node_def)
  then show "n_type n \<noteq> ''join''" by (auto simp: ValidNodeTypes_def)
qed

end
