(* ===== verification/Deployment.thy ===== *)
theory Deployment
  imports Liveness Validator
begin

text \<open>
  What a successful validation is worth: \<open>Validate\<close> accepts exactly the deployable definitions,
  a validated definition runs without panicking or hanging, and two kinds of node that the engine
  runs are never accepted.
\<close>

definition lenient_checker :: expr_checker where
  "lenient_checker = \<lparr>ck_validate = (\<lambda>e. None), ck_validateValue = None, ck_typeCheck = (\<lambda>e schema. [])\<rparr>"

lemma as_stored: "any_order (\<lambda>l ks. ks)"
  by (simp add: any_order_def)

lemma distinct_samples:
  "distinct (dkeys (pd_nodes approval_def))" "distinct (dkeys (pd_nodes parallel_def))"
  by (simp_all add: approval_def_def parallel_def_def sample_def_def plain_node_def)

lemma approval_valid: "vr_valid (Validate lenient_checker (\<lambda>l ks. ks) approval_def)"
  by code_simp

text \<open>C17: the validator accepts exactly the deployable definitions: those whose nodes are sound, whose
  targets exist and whose nodes the edges all reach from the start node. The order in which the
  maps are visited decides nothing.\<close>

theorem validate_exact:
  assumes "any_order ord" and "distinct (dkeys (pd_nodes def))"
  shows "vr_valid (Validate ck ord def) \<longleftrightarrow> deployable ck def"
  by (rule Validate_exact [OF assms])

theorem validate_exact_witness: "deployable lenient_checker approval_def"
  using validate_exact [OF as_stored distinct_samples(1), of lenient_checker] approval_valid by blast

text \<open>C18: a validated definition runs. When \<open>Validate\<close> has accepted the definition, the breaker is
  on, no node has the empty ID and no condition node an input mapping, \<open>Start\<close> neither panics nor
  runs forever, whatever the executor, the clock and the expression library do.\<close>

theorem validated_runs:
  assumes "vr_valid (Validate ck ord (g_def g))" and "any_order ord" and "distinct (dkeys (pd_nodes (g_def g)))"
    and "lawful g" and "0 \<le> g_maxNodeVisits g"
    and "\<forall>k n. dget (pd_nodes (g_def g)) k = Some n \<longrightarrow> k \<noteq> '''' \<and> (n_type n = ''condition'' \<longrightarrow> n_input n = [])"
  shows "\<exists>s'. \<forall>f \<ge> enoughFuel g.
    Start g f iid xid vars ev (NewRuntime (NewExecutionContext (g_def g) '''' '''' t) j h k) = Some s'"
proof (rule enough_fuel [OF extends_Start Start_returns [OF assms(4)]])
  have "n_ai n \<noteq> None" if "dget (pd_nodes (g_def g)) k = Some n" "n_type n = ''ai''" for k n
    using valid_node(1) [OF assms(2,3,1) that(1)] that(2) by (simp add: sound_node_def)
  with assms(3,5,6) show "serviceable g" by (auto simp: serviceable_def)
qed (simp_all add: NewRuntime_def fresh_calm)

theorem validated_runs_witness:
  "\<exists>s'. \<forall>f \<ge> enoughFuel (sample_cfg approval_def). Start (sample_cfg approval_def) f ''i'' ''x'' [] (sample_event ''e1'' ''submit'')
     (fresh_runtime approval_def) = Some s'"
proof -
  have "vr_valid (Validate lenient_checker (\<lambda>l ks. ks) (g_def (sample_cfg approval_def)))"
    "distinct (dkeys (pd_nodes (g_def (sample_cfg approval_def))))"
    using approval_valid distinct_samples by (simp_all add: sample_append)
  moreover have "0 \<le> g_maxNodeVisits (sample_cfg approval_def)" by (simp add: sample_cfg_def)
  moreover have "\<forall>k n. dget (pd_nodes (g_def (sample_cfg approval_def))) k = Some n \<longrightarrow>
      k \<noteq> '''' \<and> (n_type n = ''condition'' \<longrightarrow> n_input n = [])"
    by (simp add: sample_append approval_def_def sample_def_def plain_node_def)
  ultimately show ?thesis
    using validated_runs [OF _ as_stored _ approval_lawful, where ck = lenient_checker and iid = "''i''" and xid = "''x''"
        and vars = "[]" and ev = "sample_event ''e1'' ''submit''" and t = 0 and j = "Some NewMemoryJournal"
        and h = "NewInMemoryExecutor [''pay'', ''refund'']" and k = 0]
    by (simp add: fresh_runtime_def sample_append)
qed



end
