(* ===== verification/Analyzer.thy ===== *)
theory Analyzer
  imports Graph "HOL-Library.Multiset"
begin

text \<open>
  The static analysis of a definition (\<open>src/dsl/analyzer.go\<close>): reachability, dead ends and
  duplicates, the depth-first search for a cycle and the enumeration of simple paths within a
  budget. The lists \<open>ids\<close> give the order in which the ranges over the nodes visit them.
\<close>

subsection \<open>Reports\<close>

datatype severity = SeverityError | SeverityWarning | SeverityInfo

fun severityString :: "severity \<Rightarrow> string" where
  "severityString SeverityError = ''error''"
| "severityString SeverityWarning = ''warning''"
| "severityString SeverityInfo = ''info''"

text \<open>The messages that print a value keep it.\<close>

datatype amessage =
    MText string | MEvent string | MWhen string | MDeadEnd string string | MUnreachable string
  | MCycle "string list" | MPaths nat

record diagnostic =
  d_severity :: severity
  d_code :: string
  d_path :: string
  d_message :: amessage

record analysis_report =
  ar_clean :: bool
  ar_diagnostics :: "diagnostic list"

definition diag :: "severity \<Rightarrow> string \<Rightarrow> string \<Rightarrow> amessage \<Rightarrow> diagnostic" where
  "diag sev code path msg = \<lparr>d_severity = sev, d_code = code, d_path = path, d_message = msg\<rparr>"

definition addDiag :: "diagnostic \<Rightarrow> analysis_report \<Rightarrow> analysis_report" where
  "addDiag d r = r\<lparr>ar_diagnostics := ar_diagnostics r @ [d], ar_clean := False\<rparr>"

definition MaxAnalysisPaths :: nat where
  "MaxAnalysisPaths = 512"

definition maxPathSearchStates :: nat where
  "maxPathSearchStates = MaxAnalysisPaths * 16"

subsection \<open>One node\<close>

definition analyzer_graph :: "process_def \<Rightarrow> graph" where
  "analyzer_graph def = map (\<lambda>(k, n). (k, filter (\<lambda>v. v \<noteq> '''') (map tr_next (n_trans n)))) (pd_nodes def)"

definition analyzer_reach :: "process_def \<Rightarrow> string list" where
  "analyzer_reach def = bfs (analyzer_graph def) [pd_start def] [pd_start def]"

text \<open>The loop over the transitions, with the counts of events and conditions seen so far.\<close>

fun trans_diags :: "string \<Rightarrow> transition list \<Rightarrow> nat dict \<Rightarrow> nat dict \<Rightarrow> diagnostic list" where
  "trans_diags path [] evs whens = []"
| "trans_diags path (tr # trs) evs whens =
     (if tr_event tr = '''' \<and> tr_when tr = '''' \<and> tr_next tr = '''' then
        diag SeverityWarning ''missing_transition'' path (MText ''transition has no event, when or next'')
          # trans_diags path trs evs whens
      else
        (if tr_event tr = '''' \<and> tr_when tr = '''' then
           [diag SeverityWarning ''missing_transition'' path (MText ''transition has no trigger (event or when)'')]
         else []) @
        (if tr_event tr \<noteq> '''' \<and> dget0 evs (tr_event tr) + 1 > 1 then
           [diag SeverityWarning ''duplicate_transition'' path (MEvent (tr_event tr))] else []) @
        (if tr_when tr \<noteq> '''' \<and> dget0 whens (tr_when tr) + 1 > 1 then
           [diag SeverityWarning ''duplicate_condition'' path (MWhen (tr_when tr))] else []) @
        trans_diags path trs
          (if tr_event tr \<noteq> '''' then dput (tr_event tr) (dget0 evs (tr_event tr) + 1) evs else evs)
          (if tr_when tr \<noteq> '''' then dput (tr_when tr) (dget0 whens (tr_when tr) + 1) whens else whens))"

definition node_diags :: "process_def \<Rightarrow> string list \<Rightarrow> string \<Rightarrow> node \<Rightarrow> diagnostic list" where
  "node_diags def reach k n =
     (let path = ''nodes['' @ k @ '']''
      in trans_diags path (n_trans n) [] [] @
         (if n_type n = ''end'' then
            (if n_trans n \<noteq> [] then
               [diag SeverityError ''invalid_terminal'' path (MText ''end node must not have outgoing transitions'')]
             else [])
          else if n_trans n = [] then [diag SeverityError ''dead_end'' path (MDeadEnd k (n_type n))]
          else []) @
         (if k \<notin> set reach then [diag SeverityError ''unreachable_node'' path (MUnreachable k)] else []))"

subsection \<open>The search for a cycle\<close>

datatype dfs_move = Descend string | BackEdge string | Finished

text \<open>The scan of the transitions of \<open>u\<close>: colors are 0 for white, 1 for gray, 2 for black.\<close>

fun dfs_scan :: "node dict \<Rightarrow> nat dict \<Rightarrow> string \<Rightarrow> transition list \<Rightarrow> dfs_move" where
  "dfs_scan nodes color u [] = Finished"
| "dfs_scan nodes color u (tr # trs) =
     (let v = tr_next tr
      in if v = '''' \<or> dget nodes v = None then dfs_scan nodes color u trs
         else if dget0 color v = 0 then Descend v
         else if dget0 color v = 1 \<and> v \<noteq> u then BackEdge v
         else dfs_scan nodes color u trs)"

definition parentOf :: "string dict \<Rightarrow> string \<Rightarrow> string" where
  "parentOf parent k = (case dget parent k of None \<Rightarrow> '''' | Some p \<Rightarrow> p)"

text \<open>The walk up the parents from \<open>p\<close> to \<open>v\<close>; \<open>None\<close> when it does not end.\<close>

partial_function (option) climb :: "string dict \<Rightarrow> string \<Rightarrow> string \<Rightarrow> string list \<Rightarrow> string list option" where
  "climb parent v p cyc =
     (if p \<noteq> v \<and> p \<noteq> '''' then climb parent v (parentOf parent p) (cyc @ [p]) else Some cyc)"

declare climb.simps [code]

definition rebuild :: "string dict \<Rightarrow> string \<Rightarrow> string \<Rightarrow> string list option" where
  "rebuild parent u v = map_option (\<lambda>cyc. rev (cyc @ [v])) (climb parent v u [v, u])"

definition whites :: "node dict \<Rightarrow> nat dict \<Rightarrow> nat" where
  "whites nodes color = card {k \<in> set (dkeys nodes). dget0 color k = 0}"

lemma dfs_scan_Descend:
  "dfs_scan nodes color u trs = Descend v \<Longrightarrow>
    v \<noteq> '''' \<and> dget nodes v \<noteq> None \<and> dget0 color v = 0 \<and> v \<in> tr_next ` set trs"
  by (induction trs) (auto simp: Let_def split: if_splits)

lemma whites_less:
  assumes "dget nodes v \<noteq> None" and "dget0 color v = 0"
  shows "whites nodes (dput v 1 color) < whites nodes color"
proof -
  have "{k \<in> set (dkeys nodes). dget0 (dput v 1 color) k = 0} = {k \<in> set (dkeys nodes). dget0 color k = 0} - {v}"
    by auto
  moreover have "v \<in> {k \<in> set (dkeys nodes). dget0 color k = 0}" using assms by (simp add: dget_eq_None_iff)
  ultimately show ?thesis unfolding whites_def by (simp only:) (rule card_Diff1_less, simp_all)
qed

lemma whites_le: "whites nodes (dput u 2 color) \<le> whites nodes color"
  unfolding whites_def by (rule card_mono) auto

text \<open>
  The closure \<open>visit\<close>: the stack with its top first. The result is \<open>None\<close> when the call panics or
  does not return; otherwise the cycle it found, if any, and the colors.
\<close>

function dfs_loop :: "node dict \<Rightarrow> nat dict \<Rightarrow> string dict \<Rightarrow> string list
    \<Rightarrow> (string list option \<times> nat dict \<times> string dict) option" where
  "dfs_loop nodes color parent [] = Some (None, color, parent)"
| "dfs_loop nodes color parent (u # stack) =
     (case dget nodes u of
        None \<Rightarrow> None
      | Some n \<Rightarrow>
          (case dfs_scan nodes color u (n_trans n) of
             Descend v \<Rightarrow> dfs_loop nodes (dput v 1 color) (dput v u parent) (v # u # stack)
           | BackEdge v \<Rightarrow> map_option (\<lambda>cyc. (Some cyc, color, parent)) (rebuild parent u v)
           | Finished \<Rightarrow> dfs_loop nodes (dput u 2 color) parent stack))"
  by pat_completeness auto
termination
proof (relation "measure (\<lambda>(nodes, color, parent, stack). 2 * whites nodes color + length stack)")
  fix nodes color parent u stack n v
  assume "dfs_scan nodes color u (n_trans n) = Descend v"
  with whites_less [of nodes v color] dfs_scan_Descend
  show "((nodes, dput v 1 color, dput v u parent, v # u # stack), nodes, color, parent, u # stack)
      \<in> measure (\<lambda>(nodes, color, parent, stack). 2 * whites nodes color + length stack)" by fastforce
next
  fix nodes color parent u stack
  show "((nodes, dput u 2 color, parent, stack), nodes, color, parent, u # stack)
      \<in> measure (\<lambda>(nodes, color, parent, stack). 2 * whites nodes color + length stack)"
    using whites_le [of nodes u color] by simp
qed simp

fun visit_roots :: "node dict \<Rightarrow> nat dict \<Rightarrow> string dict \<Rightarrow> string list \<Rightarrow> string list option option" where
  "visit_roots nodes color parent [] = Some None"
| "visit_roots nodes color parent (k # ks) =
     (if dget0 color k = 0 then
        (case dfs_loop nodes (dput k 1 color) parent [k] of
           None \<Rightarrow> None
         | Some (Some cyc, color', parent') \<Rightarrow> Some (Some cyc)
         | Some (None, color', parent') \<Rightarrow> visit_roots nodes color' parent' ks)
      else visit_roots nodes color parent ks)"

definition detectCycleFirst :: "process_def \<Rightarrow> string list \<Rightarrow> string list option option" where
  "detectCycleFirst def ids = visit_roots (pd_nodes def) [] [] ids"

subsection \<open>The search finds a cycle exactly when there is one\<close>

definition flow :: "node dict \<Rightarrow> (string \<times> string) set" where
  "flow nodes = {(u, v). \<exists>n. dget nodes u = Some n \<and> v \<in> tr_next ` set (n_trans n) \<and> v \<noteq> '''' \<and> dget nodes v \<noteq> None}"

definition blacks :: "nat dict \<Rightarrow> string set" where
  "blacks color = {k. dget0 color k = 2}"

definition grays :: "nat dict \<Rightarrow> string set" where
  "grays color = {k. dget0 color k = 1}"

definition below :: "(string \<times> string) set \<Rightarrow> string set \<Rightarrow> (string \<times> string) set" where
  "below E B = {(u, v). (u, v) \<in> E \<and> u \<in> B \<and> u \<noteq> v}"

text \<open>The stack is a path of the flow, linked by the parents, and its nodes are the gray ones.\<close>

fun linked :: "(string \<times> string) set \<Rightarrow> string dict \<Rightarrow> string list \<Rightarrow> bool" where
  "linked E parent [] \<longleftrightarrow> True"
| "linked E parent [u] \<longleftrightarrow> parentOf parent u = ''''"
| "linked E parent (v # u # st) \<longleftrightarrow> parentOf parent v = u \<and> (u, v) \<in> E \<and> v \<noteq> '''' \<and> linked E parent (u # st)"

definition settled :: "node dict \<Rightarrow> nat dict \<Rightarrow> bool" where
  "settled nodes color \<longleftrightarrow> (\<forall>k. dget0 color k \<le> 2) \<and>
     (\<forall>u v. (u, v) \<in> below (flow nodes) (blacks color) \<longrightarrow> v \<in> blacks color) \<and>
     acyclic (below (flow nodes) (blacks color))"

definition dfs_inv :: "node dict \<Rightarrow> nat dict \<Rightarrow> string dict \<Rightarrow> string list \<Rightarrow> bool" where
  "dfs_inv nodes color parent stack \<longleftrightarrow> settled nodes color \<and> distinct stack \<and> set stack = grays color \<and>
     linked (flow nodes) parent stack \<and> (\<forall>k \<in> set stack. dget nodes k \<noteq> None) \<and>
     (\<forall>k. dget0 color k = 0 \<longrightarrow> parentOf parent k = '''')"

lemma parentOf_put [simp]: "parentOf (dput k p d) x = (if x = k then p else parentOf d x)"
  by (simp add: parentOf_def)

lemma linked_put: "v \<notin> set st \<Longrightarrow> linked E (dput v u parent) st = linked E parent st"
  by (induction E parent st rule: linked.induct) auto

lemma dfs_scan_BackEdge:
  "dfs_scan nodes color u trs = BackEdge v \<Longrightarrow>
    v \<noteq> '''' \<and> dget nodes v \<noteq> None \<and> dget0 color v = 1 \<and> v \<noteq> u \<and> v \<in> tr_next ` set trs"
  by (induction trs) (auto simp: Let_def split: if_splits)

lemma dfs_scan_Finished:
  "dfs_scan nodes color u trs = Finished \<Longrightarrow>
    \<forall>tr \<in> set trs. tr_next tr = '''' \<or> dget nodes (tr_next tr) = None \<or> tr_next tr = u \<or>
      (dget0 color (tr_next tr) \<noteq> 0 \<and> dget0 color (tr_next tr) \<noteq> 1)"
  by (induction trs) (auto simp: Let_def split: if_splits)

text \<open>Adding a source none of whose edges leave the settled set.\<close>

lemma acyclic_source:
  assumes "acyclic R" and "R \<subseteq> UNIV \<times> B" and "u \<notin> B" and "S \<subseteq> B"
  shows "acyclic (R \<union> {u} \<times> S)"
proof -
  have "y \<in> B" and "x \<noteq> u \<Longrightarrow> (x, y) \<in> R\<^sup>+" if "(x, y) \<in> (R \<union> {u} \<times> S)\<^sup>+" for x y
  proof -
    from that have "y \<in> B \<and> (x \<noteq> u \<longrightarrow> (x, y) \<in> R\<^sup>+)"
    proof (induction rule: trancl_induct)
      case (base y)
      with assms(2,4) show ?case by auto
    next
      case (step y z)
      then have "y \<noteq> u" using assms(3) by auto
      with step assms(2) show ?case by (auto intro: trancl_into_trancl)
    qed
    then show "y \<in> B" "x \<noteq> u \<Longrightarrow> (x, y) \<in> R\<^sup>+" by auto
  qed
  with assms(1,3) show ?thesis unfolding acyclic_def by metis
qed

lemma settled_black:
  assumes "settled nodes color" and "dget0 color u = 1" and "dget nodes u = Some n"
    and "dfs_scan nodes color u (n_trans n) = Finished"
  shows "settled nodes (dput u 2 color)"
proof -
  let ?E = "flow nodes" and ?B = "blacks color"
  have u: "u \<notin> ?B" and B: "blacks (dput u 2 color) = insert u ?B" using assms(2) by (auto simp: blacks_def)
  have out: "v \<in> ?B" if "(u, v) \<in> ?E" "u \<noteq> v" for v
  proof -
    from that(1) assms(3) obtain tr where "tr \<in> set (n_trans n)" "v = tr_next tr" "v \<noteq> ''''" "dget nodes v \<noteq> None"
      by (auto simp: flow_def)
    with dfs_scan_Finished [OF assms(4)] that(2) have "dget0 color v \<noteq> 0" "dget0 color v \<noteq> 1" by auto
    moreover have "dget0 color v \<le> 2" using assms(1) by (simp add: settled_def)
    ultimately show ?thesis by (simp add: blacks_def)
  qed
  have eq: "below ?E (insert u ?B) = below ?E ?B \<union> {u} \<times> {v. (u, v) \<in> ?E \<and> u \<noteq> v}"
    using u by (auto simp: below_def)
  have cl: "below ?E ?B \<subseteq> UNIV \<times> ?B" using assms(1) by (auto simp: settled_def)
  have "acyclic (below ?E (insert u ?B))" unfolding eq
    by (rule acyclic_source [OF _ cl u]) (use assms(1) out in \<open>auto simp: settled_def\<close>)
  moreover have "v \<in> insert u ?B" if "(x, v) \<in> below ?E (insert u ?B)" for x v
    using that eq cl out by blast
  ultimately show ?thesis using assms(1) unfolding settled_def B by auto
qed

lemma climb_linked:
  assumes "linked E parent (p # st)" and "v \<in> set (p # st)" and "v \<noteq> ''''" and "'''' \<notin> set (butlast (p # st))"
  shows "climb parent v p acc = Some (acc @ takeWhile (\<lambda>x. x \<noteq> v) (p # st))"
  using assms
proof (induction st arbitrary: p acc)
  case Nil
  then show ?case by (subst climb.simps) simp
next
  case (Cons q st)
  show ?case
  proof (cases "p = v")
    case True
    then show ?thesis by (subst climb.simps) simp
  next
    case False
    with Cons.prems have "p \<noteq> ''''" "parentOf parent p = q" by auto
    with False Cons.IH [of q "acc @ [p]"] Cons.prems show ?thesis by (subst climb.simps) simp
  qed
qed

lemma linked_named: "linked E parent (p # st) \<Longrightarrow> '''' \<notin> set (butlast (p # st))"
  by (induction st arbitrary: p) auto

lemma linked_path: "linked E parent st \<Longrightarrow> successively (\<lambda>v u. (u, v) \<in> E) st"
  by (induction E parent st rule: linked.induct) auto

text \<open>
  A reported cycle: the nodes of a cycle of the flow from \<open>v\<close> through \<open>ys\<close> back to \<open>v\<close>, with the
  last node before the return written twice.
\<close>

definition reported_cycle :: "(string \<times> string) set \<Rightarrow> string list \<Rightarrow> bool" where
  "reported_cycle E cyc \<longleftrightarrow> (\<exists>v ys. ys \<noteq> [] \<and> cyc = v # ys @ [last ys, v] \<and> distinct (v # ys) \<and>
     successively (\<lambda>a b. (a, b) \<in> E) (v # ys @ [v]))"

lemma rebuild_cycle:
  assumes l: "linked E parent (u # st)" and d: "distinct (u # st)" and v: "v \<in> set (u # st)" "v \<noteq> u" "v \<noteq> ''''"
    and e: "(u, v) \<in> E"
  shows "\<exists>cyc. rebuild parent u v = Some cyc \<and> reported_cycle E cyc"
proof -
  define zs where "zs = takeWhile (\<lambda>x. x \<noteq> v) (u # st)"
  have c: "climb parent v u [v, u] = Some ([v, u] @ zs)"
    unfolding zs_def by (rule climb_linked [OF l v(1,3) linked_named [OF l]])
  obtain rest where split: "u # st = zs @ v # rest"
  proof -
    have "dropWhile (\<lambda>x. x \<noteq> v) (u # st) \<noteq> []" using v(1) by (auto simp: dropWhile_eq_Nil_conv)
    then obtain y ys where y: "dropWhile (\<lambda>x. x \<noteq> v) (u # st) = y # ys" by (auto simp: neq_Nil_conv)
    then have "y = v" using hd_dropWhile [of "\<lambda>x. x \<noteq> v" "u # st"] by auto
    with y that [of ys] takeWhile_dropWhile_id [of "\<lambda>x. x \<noteq> v" "u # st"] show thesis by (simp add: zs_def)
  qed
  then have zs: "zs \<noteq> []" "hd zs = u" using v(2) by (cases zs; auto)+
  from linked_path [OF l] split have "successively (\<lambda>v u. (u, v) \<in> E) ((zs @ [v]) @ rest)" by simp
  then have "successively (\<lambda>v u. (u, v) \<in> E) (zs @ [v])" by (simp add: successively_append_iff)
  then have "successively (\<lambda>a b. (a, b) \<in> E) (rev (zs @ [v]))" unfolding successively_rev .
  then have "successively (\<lambda>a b. (a, b) \<in> E) (v # rev zs)" by simp
  with e zs have s: "successively (\<lambda>a b. (a, b) \<in> E) ((v # rev zs) @ [v])"
    unfolding successively_append_iff by (auto simp: last_rev)
  from d split have "distinct (zs @ v # rest)" by simp
  then have "distinct (v # rev zs)" by auto
  moreover have "last (rev zs) = u" using zs by (simp add: last_rev)
  ultimately have "reported_cycle E (v # rev zs @ [u, v])" unfolding reported_cycle_def
    using zs(1) s by (intro exI [of _ v] exI [of _ "rev zs"]) simp
  with c show ?thesis by (simp add: rebuild_def)
qed

lemma dfs_inv_descend:
  assumes inv: "dfs_inv nodes color parent (u # st)" and n: "dget nodes u = Some n"
    and s: "dfs_scan nodes color u (n_trans n) = Descend v"
  shows "dfs_inv nodes (dput v 1 color) (dput v u parent) (v # u # st)"
proof -
  from dfs_scan_Descend [OF s] have v: "v \<noteq> ''''" "dget nodes v \<noteq> None" "dget0 color v = 0" "v \<in> tr_next ` set (n_trans n)"
    by auto
  have st: "set (u # st) = grays color" and l: "linked (flow nodes) parent (u # st)" using inv by (auto simp: dfs_inv_def)
  then have new: "v \<notin> set (u # st)" using v(3) by (auto simp: grays_def)
  have "blacks (dput v 1 color) = blacks color" using v(3) by (auto simp: blacks_def)
  then have "settled nodes (dput v 1 color)" using inv by (auto simp: dfs_inv_def settled_def)
  moreover have "grays (dput v 1 color) = insert v (grays color)" by (auto simp: grays_def)
  moreover have "(u, v) \<in> flow nodes" using n v by (auto simp: flow_def)
  moreover have "linked (flow nodes) (dput v u parent) (u # st)" using linked_put [OF new] l by simp
  ultimately show ?thesis using inv v new by (auto simp: dfs_inv_def)
qed

lemma dfs_inv_finish:
  assumes inv: "dfs_inv nodes color parent (u # st)" and n: "dget nodes u = Some n"
    and s: "dfs_scan nodes color u (n_trans n) = Finished"
  shows "dfs_inv nodes (dput u 2 color) parent st"
proof -
  have st: "set (u # st) = grays color" and u: "u \<notin> set st" using inv by (auto simp: dfs_inv_def)
  then have c: "dget0 color u = 1" by (auto simp: grays_def)
  have "settled nodes (dput u 2 color)" by (rule settled_black [OF _ c n s]) (use inv in \<open>simp add: dfs_inv_def\<close>)
  moreover have "grays (dput u 2 color) = grays color - {u}" by (auto simp: grays_def)
  moreover have "linked (flow nodes) parent st" using inv by (cases st) (auto simp: dfs_inv_def)
  ultimately show ?thesis using inv u st by (auto simp: dfs_inv_def)
qed

definition dfs_result :: "node dict \<Rightarrow> nat dict \<Rightarrow> (string list option \<times> nat dict \<times> string dict) option \<Rightarrow> bool" where
  "dfs_result nodes color r \<longleftrightarrow> (\<exists>cyc color' parent'. r = Some (Some cyc, color', parent') \<and> reported_cycle (flow nodes) cyc) \<or>
     (\<exists>color' parent'. r = Some (None, color', parent') \<and> dfs_inv nodes color' parent' [] \<and>
        (\<forall>k. dget0 color k \<noteq> 0 \<longrightarrow> dget0 color' k \<noteq> 0))"

lemma dfs_result_keep:
  "dfs_result nodes (dput k (Suc i) color) r \<Longrightarrow> dfs_result nodes color r"
  by (auto simp: dfs_result_def)

lemma dfs_loop_result: "dfs_inv nodes color parent stack \<Longrightarrow> dfs_result nodes color (dfs_loop nodes color parent stack)"
proof (induction nodes color parent stack rule: dfs_loop.induct)
  case (1 nodes color parent)
  then show ?case by (simp add: dfs_result_def)
next
  case (2 nodes color parent u st)
  then obtain n where n: "dget nodes u = Some n" by (auto simp: dfs_inv_def)
  show ?case
  proof (cases "dfs_scan nodes color u (n_trans n)")
    case (Descend v)
    from 2(1) [OF n Descend dfs_inv_descend [OF 2(3) n Descend]] n Descend show ?thesis
      by (auto intro: dfs_result_keep [of _ v 0])
  next
    case (BackEdge v)
    from dfs_scan_BackEdge [OF BackEdge] 2(3) n
    have v: "v \<noteq> ''''" "v \<noteq> u" "v \<in> set (u # st)" "(u, v) \<in> flow nodes"
      by (auto simp: dfs_inv_def grays_def flow_def)
    have "linked (flow nodes) parent (u # st)" "distinct (u # st)" using 2(3) by (auto simp: dfs_inv_def)
    from rebuild_cycle [OF this v(3,2,1,4)] n BackEdge show ?thesis by (auto simp: dfs_result_def)
  next
    case Finished
    from 2(2) [OF n Finished dfs_inv_finish [OF 2(3) n Finished]] n Finished show ?thesis
      by (auto simp: numeral_2_eq_2 intro: dfs_result_keep [of _ u 1])
  qed
qed

lemma successively_trancl: "successively (\<lambda>a b. (a, b) \<in> E) (x # xs @ [y]) \<Longrightarrow> (x, y) \<in> E\<^sup>+"
proof (induction xs arbitrary: x)
  case (Cons z zs)
  then have "(x, z) \<in> E" "(z, y) \<in> E\<^sup>+" by auto
  then show ?case by (rule trancl_into_trancl2)
qed auto

lemma distinct_neighbours: "distinct xs \<Longrightarrow> successively (\<lambda>a b. a \<noteq> b) xs"
  by (induction xs rule: induct_list012) auto

lemma reported_cyclic: "reported_cycle E cyc \<Longrightarrow> \<not> acyclic (E - Id)"
proof
  assume "reported_cycle E cyc" and ac: "acyclic (E - Id)"
  then obtain v ys where y: "ys \<noteq> []" "distinct (v # ys)" "successively (\<lambda>a b. (a, b) \<in> E) (v # ys @ [v])"
    by (auto simp: reported_cycle_def)
  have "last ys \<noteq> v" using y(1,2) by auto
  with distinct_neighbours [OF y(2)] y(1) have "successively (\<lambda>a b. a \<noteq> b) ((v # ys) @ [v])"
    unfolding successively_append_iff by simp
  with y(3) have "successively (\<lambda>a b. (a, b) \<in> E - Id) (v # ys @ [v])"
    by (auto simp: successively_conv_nth)
  from successively_trancl [OF this] ac show False by (simp add: acyclic_def)
qed

lemma dfs_inv_root:
  assumes "dfs_inv nodes color parent []" and "dget0 color k = 0" and "dget nodes k \<noteq> None"
  shows "dfs_inv nodes (dput k 1 color) parent [k]"
proof -
  have "blacks (dput k 1 color) = blacks color" using assms(2) by (auto simp: blacks_def)
  moreover have "grays (dput k 1 color) = insert k (grays color)" by (auto simp: grays_def)
  ultimately show ?thesis using assms by (auto simp: dfs_inv_def settled_def)
qed

definition roots_result :: "node dict \<Rightarrow> string list option option \<Rightarrow> bool" where
  "roots_result nodes r \<longleftrightarrow> (\<exists>cyc. r = Some (Some cyc) \<and> reported_cycle (flow nodes) cyc) \<or>
     (r = Some None \<and> acyclic (flow nodes - Id))"

lemma all_visited:
  assumes "dfs_inv nodes color parent []" and "\<And>k. dget nodes k \<noteq> None \<Longrightarrow> dget0 color k \<noteq> 0"
  shows "acyclic (flow nodes - Id)"
proof -
  have "k \<in> blacks color" if "dget nodes k \<noteq> None" for k
  proof -
    from assms(1) have "dget0 color k \<noteq> 1" "dget0 color k \<le> 2" by (auto simp: dfs_inv_def grays_def settled_def)
    with assms(2) [OF that] show ?thesis by (simp add: blacks_def)
  qed
  then have "below (flow nodes) (blacks color) = flow nodes - Id" by (auto simp: below_def flow_def)
  with assms(1) show ?thesis by (simp add: dfs_inv_def settled_def)
qed

lemma visit_roots_result:
  assumes "dfs_inv nodes color parent []" and "\<And>k. dget nodes k \<noteq> None \<Longrightarrow> dget0 color k \<noteq> 0 \<or> k \<in> set ks"
    and "\<And>k. k \<in> set ks \<Longrightarrow> dget nodes k \<noteq> None"
  shows "roots_result nodes (visit_roots nodes color parent ks)"
  using assms
proof (induction ks arbitrary: color parent)
  case Nil
  then show ?case by (auto simp: roots_result_def intro: all_visited)
next
  case (Cons k ks)
  show ?case
  proof (cases "dget0 color k = 0")
    case False
    have "dget0 color x \<noteq> 0 \<or> x \<in> set ks" if "dget nodes x \<noteq> None" for x
      using Cons.prems(2) [OF that] False by auto
    with Cons.IH [OF Cons.prems(1)] Cons.prems(3) False show ?thesis by simp
  next
    case True
    have "dget nodes k \<noteq> None" using Cons.prems(3) by simp
    from dfs_loop_result [OF dfs_inv_root [OF Cons.prems(1) True this]]
    consider cyc c p where "dfs_loop nodes (dput k 1 color) parent [k] = Some (Some cyc, c, p)" "reported_cycle (flow nodes) cyc"
      | c p where "dfs_loop nodes (dput k 1 color) parent [k] = Some (None, c, p)" "dfs_inv nodes c p []"
        "\<And>x. dget0 (dput k 1 color) x \<noteq> 0 \<Longrightarrow> dget0 c x \<noteq> 0"
      unfolding dfs_result_def by blast
    then show ?thesis
    proof cases
      case 1
      with True show ?thesis by (simp add: roots_result_def)
    next
      case 2
      have "dget0 c x \<noteq> 0 \<or> x \<in> set ks" if "dget nodes x \<noteq> None" for x
        using Cons.prems(2) [OF that] 2(3) [of x] by (auto split: if_splits)
      with Cons.IH [OF 2(2)] Cons.prems(3) have "roots_result nodes (visit_roots nodes c p ks)" by simp
      with True 2(1) show ?thesis by simp
    qed
  qed
qed

theorem detectCycleFirst_result:
  assumes "set ids = set (dkeys (pd_nodes def))"
  shows "roots_result (pd_nodes def) (detectCycleFirst def ids)"
  unfolding detectCycleFirst_def
proof (rule visit_roots_result)
  show "dfs_inv (pd_nodes def) [] [] []"
    by (simp add: dfs_inv_def settled_def below_def blacks_def grays_def dget0_def parentOf_def acyclic_def)
qed (use assms in \<open>simp_all add: dget_eq_None_iff del: not_None_eq\<close>)

subsection \<open>The budget of simple paths\<close>

definition path_steps :: "node \<Rightarrow> string list \<Rightarrow> string list" where
  "path_steps n vis = filter (\<lambda>v. v \<noteq> '''' \<and> v \<notin> set vis) (map tr_next (n_trans n))"

definition is_sink :: "node \<Rightarrow> bool" where
  "is_sink n \<longleftrightarrow> n_type n = ''end'' \<or> n_trans n = []"

text \<open>What is left to visit: the targets of transitions that a partial path has not visited.\<close>

definition unvisited :: "node dict \<Rightarrow> string list \<Rightarrow> nat" where
  "unvisited nodes vis = card (set (concat (map (\<lambda>(k, n). map tr_next (n_trans n)) nodes)) - set vis)"

lemma unvisited_less:
  assumes "dget nodes k = Some n" and "v \<in> set (path_steps n vis)"
  shows "unvisited nodes (v # vis) < unvisited nodes vis"
proof -
  let ?U = "set (concat (map (\<lambda>(k, n). map tr_next (n_trans n)) nodes))"
  have "(k, n) \<in> set nodes" using assms(1) by (rule map_of_SomeD)
  then have "v \<in> ?U - set vis" using assms(2) by (fastforce simp: path_steps_def)
  then have "card (?U - set vis - {v}) < card (?U - set vis)" by (intro card_Diff1_less) auto
  moreover have "?U - set vis - {v} = ?U - set (v # vis)" by auto
  ultimately show ?thesis by (simp only: unvisited_def)
qed

text \<open>The enumeration: a queue of partial paths, each with its own set of visited nodes.\<close>

function paths_loop :: "node dict \<Rightarrow> (string \<times> string list) list \<Rightarrow> nat \<Rightarrow> bool" where
  "paths_loop nodes [] cnt = (cnt \<le> MaxAnalysisPaths)"
| "paths_loop nodes ((k, vis) # queue) cnt =
     (if length ((k, vis) # queue) > maxPathSearchStates then False
      else case dget nodes k of
             None \<Rightarrow> paths_loop nodes queue cnt
           | Some n \<Rightarrow>
               if is_sink n then
                 (if cnt + 1 > MaxAnalysisPaths then False else paths_loop nodes queue (cnt + 1))
               else paths_loop nodes (queue @ map (\<lambda>v. (v, v # vis)) (path_steps n vis)) cnt)"
  by pat_completeness auto
termination
proof (relation "inv_image (mult less_than) (\<lambda>(nodes, queue, cnt). mset (map (\<lambda>(k, vis). unvisited nodes vis) queue))")
  fix nodes :: "node dict" and k :: string and vis :: "string list" and queue :: "(string \<times> string list) list" and cnt :: nat and n
  assume n: "dget nodes k = Some n"
  let ?f = "\<lambda>(k, vis). unvisited nodes vis"
  have "(mset (map ?f queue) + mset (map ?f (map (\<lambda>v. (v, v # vis)) (path_steps n vis))),
      mset (map ?f queue) + {#unvisited nodes vis#}) \<in> mult less_than"
    by (rule one_step_implies_mult) (use unvisited_less [OF n] in auto)
  then show "((nodes, queue @ map (\<lambda>v. (v, v # vis)) (path_steps n vis), cnt), nodes, (k, vis) # queue, cnt)
      \<in> inv_image (mult less_than) (\<lambda>(nodes, queue, cnt). mset (map (\<lambda>(k, vis). unvisited nodes vis) queue))"
    by (simp add: multiset.map_comp)
qed (auto intro!: wf_mult subset_implies_mult simp: subset_mset.less_le_not_le)

definition pathsWithinBudget :: "process_def \<Rightarrow> bool" where
  "pathsWithinBudget def =
     (if pd_start def = '''' then True
      else paths_loop (pd_nodes def) [(pd_start def, [pd_start def])] 0)"

text \<open>The complete simple paths that extend a partial one, and all partial ones.\<close>

function simple_paths :: "node dict \<Rightarrow> string \<Rightarrow> string list \<Rightarrow> nat" where
  "simple_paths nodes k vis =
     (case dget nodes k of
        None \<Rightarrow> 0
      | Some n \<Rightarrow> if is_sink n then 1
          else sum_list (map (\<lambda>v. simple_paths nodes v (v # vis)) (path_steps n vis)))"
  by pat_completeness auto
termination
  by (relation "measure (\<lambda>(nodes, k, vis). unvisited nodes vis)") (auto intro: unvisited_less)

function partial_paths :: "node dict \<Rightarrow> string \<Rightarrow> string list \<Rightarrow> nat" where
  "partial_paths nodes k vis =
     1 + (case dget nodes k of
        None \<Rightarrow> 0
      | Some n \<Rightarrow> if is_sink n then 0
          else sum_list (map (\<lambda>v. partial_paths nodes v (v # vis)) (path_steps n vis)))"
  by pat_completeness auto
termination
  by (relation "measure (\<lambda>(nodes, k, vis). unvisited nodes vis)") (auto intro: unvisited_less)

declare simple_paths.simps [simp del] partial_paths.simps [simp del]

definition queue_paths :: "node dict \<Rightarrow> (string \<times> string list) list \<Rightarrow> nat" where
  "queue_paths nodes queue = sum_list (map (\<lambda>(k, vis). simple_paths nodes k vis) queue)"

definition queue_states :: "node dict \<Rightarrow> (string \<times> string list) list \<Rightarrow> nat" where
  "queue_states nodes queue = sum_list (map (\<lambda>(k, vis). partial_paths nodes k vis) queue)"

lemma length_queue_states: "length queue \<le> queue_states nodes queue"
proof (induction queue)
  case (Cons x queue)
  obtain k vis where "x = (k, vis)" by fastforce
  with Cons partial_paths.simps [of nodes k vis] show ?case by (simp add: queue_states_def)
qed simp

lemma paths_loop_bound: "paths_loop nodes queue cnt \<Longrightarrow> cnt + queue_paths nodes queue \<le> MaxAnalysisPaths"
proof (induction nodes queue cnt rule: paths_loop.induct)
  case (2 nodes k vis queue cnt)
  then show ?case
    by (auto simp: queue_paths_def simple_paths.simps [of nodes k vis] comp_def split: if_splits option.splits)
qed (simp add: queue_paths_def)

lemma paths_loop_exact:
  "queue_states nodes queue \<le> maxPathSearchStates \<Longrightarrow>
    paths_loop nodes queue cnt \<longleftrightarrow> cnt + queue_paths nodes queue \<le> MaxAnalysisPaths"
proof (induction nodes queue cnt rule: paths_loop.induct)
  case (2 nodes k vis queue cnt)
  from 2(4) length_queue_states [of "(k, vis) # queue" nodes] have l: "\<not> length ((k, vis) # queue) > maxPathSearchStates"
    by linarith
  show ?case
  proof (cases "dget nodes k")
    case None
    with 2(1) [OF l] 2(4) l show ?thesis
      by (simp add: queue_paths_def queue_states_def simple_paths.simps [of nodes k vis] partial_paths.simps [of nodes k vis])
  next
    case (Some n)
    then show ?thesis
      using 2(2) [OF l Some] 2(3) [OF l Some] 2(4) l
      by (auto simp: queue_paths_def queue_states_def simple_paths.simps [of nodes k vis]
          partial_paths.simps [of nodes k vis] comp_def)
  qed
qed (simp add: queue_paths_def)

subsection \<open>Analyze\<close>

definition Analyze :: "process_def option \<Rightarrow> string list \<Rightarrow> string list \<Rightarrow> analysis_report option" where
  "Analyze def ids ids' =
     (let r = \<lparr>ar_clean = True, ar_diagnostics = []\<rparr>
      in case def of
           None \<Rightarrow> Some (addDiag (diag SeverityError ''nil_process'' '''' (MText ''process definition is nil'')) r)
         | Some d \<Rightarrow>
             if pd_start d = '''' then
               Some (addDiag (diag SeverityError ''missing_start'' '''' (MText ''start node is required'')) r)
             else
               let reach = analyzer_reach d;
                   r1 = foldl (\<lambda>r x. addDiag x r) r (concat (map (\<lambda>k. case dget (pd_nodes d) k of
                          None \<Rightarrow> [] | Some n \<Rightarrow> node_diags d reach k n) ids))
               in map_option (\<lambda>cyc.
                    let r2 = (case cyc of None \<Rightarrow> r1
                                | Some c \<Rightarrow> addDiag (diag SeverityWarning ''cycle'' ''nodes'' (MCycle c)) r1);
                        r3 = (if pathsWithinBudget d then r2
                              else addDiag (diag SeverityWarning ''path_complexity'' ''nodes'' (MPaths MaxAnalysisPaths)) r2)
                    in r3\<lparr>ar_clean := ar_clean r3 \<and> ar_diagnostics r3 = []\<rparr>)
                    (detectCycleFirst d ids'))"

end
