(* ===== verification/Analysis.thy ===== *)
theory Analysis
  imports Deployment Analyzer
begin

text \<open>
  What the analyzer's two searches decide, and where analyzer and validator disagree.
\<close>

subsection \<open>Samples\<close>

definition loop_def :: process_def where
  "loop_def = sample_def ''a'' [
     plain_node ''a'' ''start'' [on_event ''go'' ''b''],
     plain_node ''b'' ''action'' [on_event '''' ''c''],
     plain_node ''c'' ''approval'' [on_event ''ok'' ''e'', on_event ''redo'' ''b''],
     plain_node ''e'' ''end'' []]"

definition escalation_def :: process_def where
  "escalation_def = sample_def ''s'' [
     plain_node ''s'' ''start'' [on_event ''submit'' ''a''],
     (plain_node ''a'' ''approval'' [on_event ''ok'' ''e''])
       \<lparr>n_deadline := Some \<lparr>dl_after = ''1h'', dl_next = ''b''\<rparr>\<rparr>,
     plain_node ''b'' ''notification'' [on_event '''' ''e''],
     plain_node ''e'' ''end'' []]"

lemma loop_keys: "set [''a'', ''b'', ''c'', ''e''] = set (dkeys (pd_nodes loop_def))"
  by (simp add: loop_def_def sample_def_def plain_node_def)

lemma loop_found: "detectCycleFirst loop_def [''a'', ''b'', ''c'', ''e''] = Some (Some [''b'', ''c'', ''c'', ''b''])"
  by code_simp

lemma escalation_valid: "vr_valid (Validate lenient_checker (\<lambda>l ks. ks) escalation_def)"
  by code_simp

lemma escalation_reach: "''b'' \<notin> set (analyzer_reach escalation_def)"
  by code_simp

subsection \<open>Cycles and paths\<close>

text \<open>C20: the cycle search is exact. It returns in whatever order it visits the nodes, and reports a
  cycle exactly when the flow, self-loops aside, has one. What it reports are the nodes of a real
  cycle, in order, but with the last node before the return written twice.\<close>

theorem cycle_detection:
  assumes "set ids = set (dkeys (pd_nodes def))"
  shows "(\<exists>cyc. detectCycleFirst def ids = Some (Some cyc) \<and> reported_cycle (flow (pd_nodes def)) cyc \<and>
      \<not> acyclic (flow (pd_nodes def) - Id)) \<or>
    (detectCycleFirst def ids = Some None \<and> acyclic (flow (pd_nodes def) - Id))"
  using detectCycleFirst_result [OF assms] reported_cyclic by (auto simp: roots_result_def)

theorem cycle_detection_witness:
  "reported_cycle (flow (pd_nodes loop_def)) [''b'', ''c'', ''c'', ''b''] \<and> \<not> acyclic (flow (pd_nodes loop_def) - Id)"
  using cycle_detection [OF loop_keys] loop_found by auto

text \<open>C21: the budget. When the enumeration stays within the budget there are at most 512 complete
  simple paths; and as long as the partial paths fit the queue's guard the answer is exact.\<close>

theorem path_budget:
  assumes "pd_start def \<noteq> ''''"
  shows "(pathsWithinBudget def \<longrightarrow> simple_paths (pd_nodes def) (pd_start def) [pd_start def] \<le> MaxAnalysisPaths) \<and>
    (partial_paths (pd_nodes def) (pd_start def) [pd_start def] \<le> maxPathSearchStates \<longrightarrow>
      (pathsWithinBudget def \<longleftrightarrow> simple_paths (pd_nodes def) (pd_start def) [pd_start def] \<le> MaxAnalysisPaths))"
  using paths_loop_bound [of "pd_nodes def" "[(pd_start def, [pd_start def])]" 0]
    paths_loop_exact [of "pd_nodes def" "[(pd_start def, [pd_start def])]" 0] assms
  by (auto simp: pathsWithinBudget_def queue_paths_def queue_states_def)

lemma loop_paths:
  "simple_paths (pd_nodes loop_def) ''a'' [''a''] = 1" "partial_paths (pd_nodes loop_def) ''a'' [''a''] = 4"
  by code_simp+

lemma loop_start: "pd_start loop_def = ''a''"
  by (simp add: loop_def_def sample_def_def)

theorem path_budget_witness: "pathsWithinBudget loop_def"
proof -
  have "pd_start loop_def \<noteq> ''''" by (simp add: loop_start)
  from path_budget [OF this] show ?thesis
    by (simp add: loop_start loop_paths maxPathSearchStates_def MaxAnalysisPaths_def)
qed

subsection \<open>Two views of reachability\<close>

text \<open>The analyzer calls a node unreachable that the validator, rightly, counts as reachable: it
  does not follow the escalation of a deadline. The definition is deployable and the analysis
  reports an error.\<close>

lemma escalation_analysis:
  "map_option (\<lambda>r. map (\<lambda>d. (d_severity d, d_code d, d_message d)) (ar_diagnostics r))
     (Analyze (Some escalation_def) [''s'', ''a'', ''b'', ''e''] [''s'', ''a'', ''b'', ''e'']) =
   Some [(SeverityWarning, ''missing_transition'', MText ''transition has no trigger (event or when)''),
     (SeverityError, ''unreachable_node'', MUnreachable ''b'')]"
  by code_simp

theorem escalation_misjudged:
  "vr_valid (Validate lenient_checker (\<lambda>l ks. ks) escalation_def) \<and>
   (\<exists>r. Analyze (Some escalation_def) [''s'', ''a'', ''b'', ''e''] [''s'', ''a'', ''b'', ''e''] = Some r \<and>
     \<not> ar_clean r \<and> (\<exists>d \<in> set (ar_diagnostics r). d_severity d = SeverityError \<and> d_message d = MUnreachable ''b''))"
proof -
  have "map_option ar_clean (Analyze (Some escalation_def) [''s'', ''a'', ''b'', ''e''] [''s'', ''a'', ''b'', ''e'']) = Some False"
    by code_simp
  with escalation_valid escalation_analysis show ?thesis by fastforce
qed

end
