(* ===== verification/Store.thy ===== *)
theory Store
  imports Replay
begin

text \<open>
  The persistence interfaces (\<open>src/dsl/store.go\<close>): the summaries of instances, their snapshots
  and the in-memory store. \<open>InstanceStore\<close> and \<open>SnapshotStore\<close> are the locales
  \<open>instance_store\<close> and \<open>snapshot_store\<close>, interpreted on the in-memory store.
\<close>

subsection \<open>Records\<close>

record instance_record =
  i_id :: string
  i_def :: string
  i_tenant :: string
  i_status :: string
  i_node :: string
  i_wake :: "int option"
  i_created :: int
  i_updated :: int

text \<open>The bytes of a snapshot are a value of the codec's type.\<close>

record 'd snapshot =
  sn_id :: string
  sn_upto :: int
  sn_data :: 'd
  sn_created :: int

datatype store_error =
    ErrInstanceNotFound | ErrInstanceExists | ErrDefinitionUnknown string | ErrJournalNotReadable
  | ErrSnapshotNotFound
  | ELoadOccurrences err | EFold err | EFoldIncremental err
  | EProgress err | ELatest store_error | EMarshalContext err | EPutSnapshot store_error
  | EWake string store_error | EJoined "store_error list" | EJournal err | EStore err

subsection \<open>The in-memory store\<close>

record 'd memory_store =
  st_recs :: "instance_record dict"
  st_snaps :: "'d snapshot dict"

definition NewMemoryInstanceStore :: "'d memory_store" where
  "NewMemoryInstanceStore = \<lparr>st_recs = [], st_snaps = []\<rparr>"

definition memPutInstance :: "instance_record \<Rightarrow> 'd memory_store \<Rightarrow> 'd memory_store \<times> store_error option" where
  "memPutInstance rec st = (st\<lparr>st_recs := dput (i_id rec) rec (st_recs st)\<rparr>, None)"

definition memCreateInstance :: "instance_record \<Rightarrow> 'd memory_store \<Rightarrow> 'd memory_store \<times> store_error option" where
  "memCreateInstance rec st =
     (if dget (st_recs st) (i_id rec) \<noteq> None then (st, Some ErrInstanceExists)
      else (st\<lparr>st_recs := dput (i_id rec) rec (st_recs st)\<rparr>, None))"

definition memGetInstance :: "'d memory_store \<Rightarrow> string \<Rightarrow> store_error + instance_record" where
  "memGetInstance st k = (case dget (st_recs st) k of Some rec \<Rightarrow> Inr rec | None \<Rightarrow> Inl ErrInstanceNotFound)"

definition memPutSnapshot :: "'d snapshot \<Rightarrow> 'd memory_store \<Rightarrow> 'd memory_store \<times> store_error option" where
  "memPutSnapshot snap st = (st\<lparr>st_snaps := dput (sn_id snap) snap (st_snaps st)\<rparr>, None)"

definition memLatestSnapshot :: "'d memory_store \<Rightarrow> string \<Rightarrow> store_error + 'd snapshot" where
  "memLatestSnapshot st k = (case dget (st_snaps st) k of Some snap \<Rightarrow> Inr snap | None \<Rightarrow> Inl ErrSnapshotNotFound)"

text \<open>The scan of \<open>filter\<close> in the order \<open>ks\<close> of the range, which stops at the limit.\<close>

fun filter_loop :: "(instance_record \<Rightarrow> bool) \<Rightarrow> int \<Rightarrow> instance_record dict \<Rightarrow> string list
    \<Rightarrow> instance_record list \<Rightarrow> instance_record list" where
  "filter_loop pred limit recs [] out = out"
| "filter_loop pred limit recs (k # ks) out =
     (case dget recs k of
        None \<Rightarrow> filter_loop pred limit recs ks out
      | Some r \<Rightarrow>
          if pred r then
            (if limit > 0 \<and> int (length (out @ [r])) \<ge> limit then out @ [r]
             else filter_loop pred limit recs ks (out @ [r]))
          else filter_loop pred limit recs ks out)"

definition memFilter :: "(instance_record \<Rightarrow> bool) \<Rightarrow> int \<Rightarrow> string list \<Rightarrow> 'd memory_store \<Rightarrow> instance_record list" where
  "memFilter pred limit ks st = sort_key i_id (filter_loop pred limit (st_recs st) ks [])"

definition wakeable :: "int \<Rightarrow> instance_record \<Rightarrow> bool" where
  "wakeable t r \<longleftrightarrow> i_status r = statusString StatusWaiting \<and> (case i_wake r of None \<Rightarrow> False | Some u \<Rightarrow> u \<le> t)"

definition memListWakeable :: "int \<Rightarrow> int \<Rightarrow> string list \<Rightarrow> 'd memory_store \<Rightarrow> store_error + instance_record list" where
  "memListWakeable t limit ks st = Inr (memFilter (wakeable t) limit ks st)"

definition memListByStatus :: "string \<Rightarrow> int \<Rightarrow> string list \<Rightarrow> 'd memory_store \<Rightarrow> store_error + instance_record list" where
  "memListByStatus status limit ks st = Inr (memFilter (\<lambda>r. i_status r = status) limit ks st)"

subsection \<open>The contracts\<close>

text \<open>
  \<open>get\<close> reads what \<open>put\<close> and \<open>create\<close> wrote, a refused write changes nothing, and \<open>create\<close>
  succeeds only for a new instance. \<open>ok\<close> is the store's own invariant.
\<close>

locale instance_store =
  fixes ok :: "'st \<Rightarrow> bool"
    and put :: "instance_record \<Rightarrow> 'st \<Rightarrow> 'st \<times> store_error option"
    and create :: "instance_record \<Rightarrow> 'st \<Rightarrow> 'st \<times> store_error option"
    and get :: "'st \<Rightarrow> string \<Rightarrow> store_error + instance_record"
  assumes put_get: "ok st \<Longrightarrow> put rec st = (st', None) \<Longrightarrow>
      ok st' \<and> get st' k = (if k = i_id rec then Inr rec else get st k)"
    and put_refused: "ok st \<Longrightarrow> put rec st = (st', Some e) \<Longrightarrow> ok st' \<and> get st' k = get st k"
    and create_get: "ok st \<Longrightarrow> create rec st = (st', None) \<Longrightarrow>
      ok st' \<and> isl (get st (i_id rec)) \<and> get st' k = (if k = i_id rec then Inr rec else get st k)"
    and create_refused: "ok st \<Longrightarrow> create rec st = (st', Some e) \<Longrightarrow> ok st' \<and> get st' k = get st k"
    and create_exists: "ok st \<Longrightarrow> get st (i_id rec) = Inr r \<Longrightarrow> create rec st = (st, Some ErrInstanceExists)"
    and own_id: "ok st \<Longrightarrow> get st k = Inr rec \<Longrightarrow> i_id rec = k"
begin

lemma create_once:
  assumes "ok st" and "create rec st = (st', None)" and "i_id rec' = i_id rec"
  shows "create rec' st' = (st', Some ErrInstanceExists)"
proof -
  from create_get [OF assms(1,2), of "i_id rec"] have "ok st'" "get st' (i_id rec') = Inr rec" by (simp_all add: assms(3))
  then show ?thesis by (rule create_exists)
qed

lemma put_ok:
  assumes "ok st" shows "ok (fst (put rec st))"
proof -
  obtain st' e where p: "put rec st = (st', e)" by fastforce
  show ?thesis
  proof (cases e)
    case None
    from put_get [OF assms p [unfolded None]] p show ?thesis by simp
  next
    case (Some x)
    from put_refused [OF assms p [unfolded Some]] p show ?thesis by simp
  qed
qed

end

text \<open>A store that also keeps snapshots, without disturbing the summaries.\<close>

locale manager_store = instance_store ok put create get
  for ok :: "'st \<Rightarrow> bool"
    and put :: "instance_record \<Rightarrow> 'st \<Rightarrow> 'st \<times> store_error option"
    and create :: "instance_record \<Rightarrow> 'st \<Rightarrow> 'st \<times> store_error option"
    and get :: "'st \<Rightarrow> string \<Rightarrow> store_error + instance_record" +
  fixes put_snap :: "'d snapshot \<Rightarrow> 'st \<Rightarrow> 'st \<times> store_error option"
    and latest :: "'st \<Rightarrow> string \<Rightarrow> store_error + 'd snapshot"
  assumes put_latest: "ok st \<Longrightarrow> put_snap sn st = (st', None) \<Longrightarrow>
      ok st' \<and> latest st' k = (if k = sn_id sn then Inr sn else latest st k)"
    and put_snap_refused: "ok st \<Longrightarrow> put_snap sn st = (st', Some e) \<Longrightarrow> ok st' \<and> latest st' k = latest st k"
    and put_keeps: "ok st \<Longrightarrow> latest (fst (put rec st)) k = latest st k"
    and create_keeps: "ok st \<Longrightarrow> latest (fst (create rec st)) k = latest st k"
    and put_snap_keeps: "ok st \<Longrightarrow> get (fst (put_snap sn st)) k = get st k"

definition mem_store_ok :: "'d memory_store \<Rightarrow> bool" where
  "mem_store_ok st \<longleftrightarrow> (\<forall>k r. dget (st_recs st) k = Some r \<longrightarrow> i_id r = k)"

lemmas mem_store_defs = memPutInstance_def memCreateInstance_def memGetInstance_def memPutSnapshot_def
  memLatestSnapshot_def mem_store_ok_def

interpretation mem_store: manager_store mem_store_ok memPutInstance memCreateInstance memGetInstance
    memPutSnapshot memLatestSnapshot
proof
  fix st st' :: "'d memory_store" and rec r :: instance_record and sn :: "'d snapshot" and k e
  assume ok: "mem_store_ok st"
  show "mem_store_ok st' \<and> memGetInstance st' k = (if k = i_id rec then Inr rec else memGetInstance st k)"
    if "memPutInstance rec st = (st', None)" using that ok by (auto simp: mem_store_defs split: if_splits)
  show "mem_store_ok st' \<and> memGetInstance st' k = memGetInstance st k"
    if "memPutInstance rec st = (st', Some e)" using that by (simp add: memPutInstance_def)
  show "mem_store_ok st' \<and> isl (memGetInstance st (i_id rec)) \<and>
      memGetInstance st' k = (if k = i_id rec then Inr rec else memGetInstance st k)"
    if "memCreateInstance rec st = (st', None)"
    using that ok by (auto simp: mem_store_defs split: if_splits)
  show "mem_store_ok st' \<and> memGetInstance st' k = memGetInstance st k"
    if "memCreateInstance rec st = (st', Some e)" using that ok by (simp add: memCreateInstance_def split: if_splits)
  show "memCreateInstance rec st = (st, Some ErrInstanceExists)" if "memGetInstance st (i_id rec) = Inr r"
    using that by (simp add: memCreateInstance_def memGetInstance_def split: option.splits)
  show "i_id rec = k" if "memGetInstance st k = Inr rec"
    using that ok by (simp add: mem_store_ok_def memGetInstance_def split: option.splits)
  show "mem_store_ok st' \<and> memLatestSnapshot st' k = (if k = sn_id sn then Inr sn else memLatestSnapshot st k)"
    if "memPutSnapshot sn st = (st', None)" using that ok by (auto simp: mem_store_defs)
  show "mem_store_ok st' \<and> memLatestSnapshot st' k = memLatestSnapshot st k"
    if "memPutSnapshot sn st = (st', Some e)" using that by (simp add: memPutSnapshot_def)
  show "memLatestSnapshot (fst (memPutInstance rec st)) k = memLatestSnapshot st k"
    "memLatestSnapshot (fst (memCreateInstance rec st)) k = memLatestSnapshot st k"
    "memGetInstance (fst (memPutSnapshot sn st)) k = memGetInstance st k"
    by (simp_all add: mem_store_defs)
qed

lemma NewMemoryInstanceStore_ok: "mem_store_ok NewMemoryInstanceStore"
  by (simp add: mem_store_ok_def NewMemoryInstanceStore_def)

subsection \<open>What a listing returns\<close>

lemma filter_loop_sound:
  "r \<in> set (filter_loop pred limit recs ks out) \<Longrightarrow>
    r \<in> set out \<or> (pred r \<and> (\<exists>k \<in> set ks. dget recs k = Some r))"
  by (induction ks arbitrary: out) (fastforce split: option.splits if_splits)+

lemma filter_loop_bound:
  "limit \<le> 0 \<or> int (length out) < limit \<Longrightarrow> 0 < limit \<Longrightarrow> int (length (filter_loop pred limit recs ks out)) \<le> limit"
  by (induction ks arbitrary: out) (auto split: option.splits)

lemma filter_loop_out: "set out \<subseteq> set (filter_loop pred limit recs ks out)"
  by (induction ks arbitrary: out) (fastforce split: option.splits)+

lemma filter_loop_complete:
  "limit \<le> 0 \<or> int (length (filter_loop pred limit recs ks out)) < limit \<Longrightarrow> k \<in> set ks \<Longrightarrow> dget recs k = Some r \<Longrightarrow> pred r
    \<Longrightarrow> r \<in> set (filter_loop pred limit recs ks out)"
proof (induction ks arbitrary: out)
  case (Cons x ks)
  show ?case
  proof (cases "k = x")
    case True
    with Cons.prems filter_loop_out [of "out @ [r]" pred limit recs ks] show ?thesis by (auto split: if_splits)
  next
    case False
    with Cons show ?thesis by (auto split: option.splits if_splits)
  qed
qed simp

end
