(* ===== verification/Manager.thy ===== *)
theory Manager
  imports Store "HOL-Library.Word"
begin

unbundle bit_operations_syntax

text \<open>
  The facade over definitions, journal and stores (\<open>src/dsl/manager.go\<close>): every operation loads
  the instance (snapshot and increment, or the whole log), delivers what the outbox still holds,
  runs the runtime, and writes the summary and perhaps a snapshot back. Operations on one
  instance are serialised by a striped lock, so they are functions of the manager's state here.
\<close>

subsection \<open>The striped lock\<close>

definition fnv32a :: "string \<Rightarrow> 32 word" where
  "fnv32a s = foldl (\<lambda>h c. (h XOR of_char c) * 16777619) 2166136261 s"

definition managerLockStripes :: nat where
  "managerLockStripes = 64"

definition lockOf :: "string \<Rightarrow> nat" where
  "lockOf k = unat (fnv32a k) mod managerLockStripes"

lemma fnv32a_vectors: "fnv32a '''' = 0x811c9dc5" "fnv32a ''a'' = 0xe40c292c" "fnv32a ''foobar'' = 0xbf9cf968"
  by code_simp+

subsection \<open>Configuration and state\<close>

text \<open>
  \<open>m_rt\<close> is what the runtimes are built with, all but the definition and the compensation
  switch. \<open>m_loadOccs\<close> and \<open>m_maxSeqOf\<close> are \<open>None\<close> for a journal that is not a
  \<open>JournalReader\<close> or \<open>JournalProgress\<close>; \<open>m_marshal\<close> and \<open>m_restore\<close> are the JSON codec of a
  context; \<open>m_list\<close> is \<open>ListWakeable\<close>, its first argument the counter that picks the order of its
  ranges.
\<close>

record ('h, 'j, 'st, 'd) mgr =
  m_defs :: "process_def dict"
  m_rt :: "('h, 'j) cfg"
  m_autoCompensate :: bool
  m_loadOccs :: "('j \<Rightarrow> string \<Rightarrow> err + occurrence list) option"
  m_maxSeqOf :: "('j \<Rightarrow> string \<Rightarrow> err + int) option"
  m_put :: "instance_record \<Rightarrow> 'st \<Rightarrow> 'st \<times> store_error option"
  m_create :: "instance_record \<Rightarrow> 'st \<Rightarrow> 'st \<times> store_error option"
  m_get :: "'st \<Rightarrow> string \<Rightarrow> store_error + instance_record"
  m_list :: "nat \<Rightarrow> int \<Rightarrow> int \<Rightarrow> 'st \<Rightarrow> store_error + instance_record list"
  m_snapshots :: bool
  m_latest :: "'st \<Rightarrow> string \<Rightarrow> store_error + 'd snapshot"
  m_putSnap :: "'d snapshot \<Rightarrow> 'st \<Rightarrow> 'st \<times> store_error option"
  m_marshal :: "ctx \<Rightarrow> err + 'd"
  m_restore :: "'d \<Rightarrow> err + ctx"
  m_every :: int

record ('h, 'j, 'st) mstate =
  ms_journal :: 'j
  ms_host :: 'h
  ms_store :: 'st
  ms_tick :: nat

text \<open>\<open>NewManager\<close> keys the definitions by their IDs; of two with one ID the later stays.\<close>

definition newManagerDefs :: "process_def list \<Rightarrow> process_def dict" where
  "newManagerDefs defs = foldl (\<lambda>d def. dput (pd_id def) def d) [] defs"

text \<open>\<open>WithAutoCompensate()\<close> is passed to every runtime, whatever the manager was configured with.\<close>

definition runtime_cfg :: "('h, 'j, 'st, 'd) mgr \<Rightarrow> process_def \<Rightarrow> ('h, 'j) cfg" where
  "runtime_cfg m def = (m_rt m)\<lparr>g_def := def, g_autoCompensate := True\<rparr>"

definition snapshotEveryN :: int where
  "snapshotEveryN = 256"

subsection \<open>Loading\<close>

definition snapshotContext :: "('h, 'j, 'st, 'd) mgr \<Rightarrow> string \<Rightarrow> 'st \<Rightarrow> (ctx \<times> int) option" where
  "snapshotContext m iid st =
     (if \<not> m_snapshots m then None
      else case m_latest m st iid of
             Inl e \<Rightarrow> None
           | Inr sn \<Rightarrow>
               if sn_upto sn > 0
               then (case m_restore m (sn_data sn) of Inl e \<Rightarrow> None | Inr c \<Rightarrow> Some (c, sn_upto sn))
               else None)"

definition recoverContext ::
  "process_def \<Rightarrow> int \<Rightarrow> occurrence list \<Rightarrow> (ctx \<times> int) option \<Rightarrow> store_error + ctx" where
  "recoverContext def t occs snap =
     (case snap of
        None \<Rightarrow> (case foldContext def t occs of Inl e \<Rightarrow> Inl (EFold e) | Inr c \<Rightarrow> Inr c)
      | Some (c, seq) \<Rightarrow>
          if occurrencesAfter occs seq = [] then Inr c
          else (case foldOnto c (occurrencesAfter occs seq) of
                  Inl e \<Rightarrow> Inl (EFoldIncremental e) | Inr c' \<Rightarrow> Inr c'))"

fun redeliver :: "('h, 'j) cfg \<Rightarrow> command list \<Rightarrow> ('h, 'j) rts \<Rightarrow> ('h, 'j) rts" where
  "redeliver g [] s = s"
| "redeliver g (cmd # cmds) s = redeliver g cmds (snd (deliver g cmd s))"

definition loadRuntime ::
  "('h, 'j, 'st, 'd) mgr \<Rightarrow> string \<Rightarrow> ('h, 'j, 'st) mstate
    \<Rightarrow> store_error + process_def \<times> ('h, 'j) rts \<times> instance_record" where
  "loadRuntime m iid s =
     (case m_loadOccs m of
        None \<Rightarrow> Inl ErrJournalNotReadable
      | Some ld \<Rightarrow>
     (case m_get m (ms_store s) iid of
        Inl e \<Rightarrow> Inl e
      | Inr rec \<Rightarrow>
     (case dget (m_defs m) (i_def rec) of
        None \<Rightarrow> Inl (ErrDefinitionUnknown (i_def rec))
      | Some def \<Rightarrow>
     (case ld (ms_journal s) iid of
        Inl e \<Rightarrow> Inl (ELoadOccurrences e)
      | Inr occs \<Rightarrow>
     (case recoverContext def (g_clock (m_rt m) (ms_tick s)) occs (snapshotContext m iid (ms_store s)) of
        Inl e \<Rightarrow> Inl e
      | Inr c \<Rightarrow>
          let rt = NewRuntime (WithTenant (i_tenant rec) c) (Some (ms_journal s)) (ms_host s) (Suc (ms_tick s))
          in Inr (def, redeliver (runtime_cfg m def) (PendingCommands occs) rt, rec))))))"

subsection \<open>Writing back\<close>

definition absorb :: "('h, 'j) rts \<Rightarrow> ('h, 'j, 'st) mstate \<Rightarrow> ('h, 'j, 'st) mstate" where
  "absorb rt s = s\<lparr>ms_journal := (case r_journal rt of None \<Rightarrow> ms_journal s | Some j \<Rightarrow> j),
     ms_host := r_host rt, ms_tick := r_tick rt\<rparr>"

definition saveSnapshot ::
  "('h, 'j, 'st, 'd) mgr \<Rightarrow> string \<Rightarrow> int \<Rightarrow> ctx \<Rightarrow> ('h, 'j, 'st) mstate \<Rightarrow> store_error option \<times> ('h, 'j, 'st) mstate" where
  "saveSnapshot m iid seq c s =
     (case m_marshal m c of
        Inl e \<Rightarrow> (Some (EMarshalContext e), s)
      | Inr d \<Rightarrow>
          let (st, e) = m_putSnap m \<lparr>sn_id = iid, sn_upto = seq, sn_data = d,
                           sn_created = g_clock (m_rt m) (ms_tick s)\<rparr> (ms_store s)
          in (map_option EPutSnapshot e, s\<lparr>ms_store := st, ms_tick := Suc (ms_tick s)\<rparr>))"

definition maybeSnapshot ::
  "('h, 'j, 'st, 'd) mgr \<Rightarrow> string \<Rightarrow> ctx \<Rightarrow> ('h, 'j, 'st) mstate \<Rightarrow> store_error option \<times> ('h, 'j, 'st) mstate" where
  "maybeSnapshot m iid c s =
     (if \<not> m_snapshots m then (None, s)
      else case m_maxSeqOf m of
             None \<Rightarrow> (None, s)
           | Some mx \<Rightarrow>
     (case mx (ms_journal s) iid of
        Inl e \<Rightarrow> (Some (EProgress e), s)
      | Inr n \<Rightarrow>
          (case m_latest m (ms_store s) iid of
             Inr cur \<Rightarrow>
               if n - sn_upto cur < (if m_every m \<le> 0 then snapshotEveryN else m_every m) then (None, s)
               else saveSnapshot m iid n c s
           | Inl e \<Rightarrow>
               if e \<noteq> ErrSnapshotNotFound then (Some (ELatest e), s) else saveSnapshot m iid n c s)))"

definition syncInstance ::
  "('h, 'j, 'st, 'd) mgr \<Rightarrow> instance_record \<Rightarrow> ('h, 'j) rts \<Rightarrow> ('h, 'j, 'st) mstate
    \<Rightarrow> store_error option \<times> ('h, 'j, 'st) mstate" where
  "syncInstance m rec rt s =
     (let (ks, rt1) = rangeKeys (m_rt m) (c_waitings (r_ctx rt)) rt;
          (t, rt2) = now (m_rt m) rt1;
          rec' = rec\<lparr>i_status := statusString (c_status (r_ctx rt)), i_node := c_node (r_ctx rt),
                     i_wake := NextWakeup ks (r_ctx rt), i_updated := t\<rparr>;
          s1 = absorb rt2 s;
          (st, e) = m_put m rec' (ms_store s1);
          s2 = s1\<lparr>ms_store := st\<rparr>
      in case e of Some x \<Rightarrow> (Some x, s2) | None \<Rightarrow> maybeSnapshot m (i_id rec) (r_ctx rt) s2)"

text \<open>What an operation returns when the summary is synchronised: the error of that, or the journal's.\<close>

definition finish ::
  "('h, 'j, 'st, 'd) mgr \<Rightarrow> 'a \<Rightarrow> instance_record \<Rightarrow> ('h, 'j) rts \<Rightarrow> ('h, 'j, 'st) mstate
    \<Rightarrow> 'a option \<times> store_error option \<times> ('h, 'j, 'st) mstate" where
  "finish m res rec rt s =
     (let (e, s') = syncInstance m rec rt s
      in (Some res, (case e of Some x \<Rightarrow> Some x | None \<Rightarrow> map_option EJournal (r_journalErr rt)), s'))"

subsection \<open>Operations\<close>

text \<open>The outer \<open>None\<close> is a runtime call that does not return within the fuel.\<close>

definition mgrStart ::
  "('h, 'j, 'st, 'd) mgr \<Rightarrow> nat \<Rightarrow> string \<Rightarrow> string \<Rightarrow> string \<Rightarrow> env \<Rightarrow> event \<Rightarrow> ('h, 'j, 'st) mstate
    \<Rightarrow> (exec_result option \<times> store_error option \<times> ('h, 'j, 'st) mstate) option" where
  "mgrStart m f defID iid tenant vars ev s =
     (case dget (m_defs m) defID of
        None \<Rightarrow> Some (None, Some (ErrDefinitionUnknown defID), s)
      | Some def \<Rightarrow>
          let time = (\<lambda>k. g_clock (m_rt m) (ms_tick s + k));
              rec = \<lparr>i_id = iid, i_def = defID, i_tenant = tenant, i_status = statusString StatusPending,
                     i_node = '''', i_wake = None, i_created = time 0, i_updated = time 1\<rparr>;
              (st, e) = m_create m rec (ms_store s);
              s1 = s\<lparr>ms_store := st, ms_tick := ms_tick s + 4\<rparr>
          in case e of
               Some x \<Rightarrow> Some (None, Some x, s1)
             | None \<Rightarrow>
                 let rt = NewRuntime (WithTenant tenant (NewExecutionContext def '''' '''' (time 2)))
                            (Some (ms_journal s1)) (ms_host s1) (ms_tick s1)
                 in do { rt' \<leftarrow> Start (runtime_cfg m def) f iid (iid @ ''#'' @ show_nat (nat (time 3))) vars ev rt;
                         Some (finish m (r_res rt') rec rt' s1) })"

definition mgrFeed ::
  "('h, 'j, 'st, 'd) mgr \<Rightarrow> nat \<Rightarrow> string \<Rightarrow> event \<Rightarrow> ('h, 'j, 'st) mstate
    \<Rightarrow> (exec_result option \<times> store_error option \<times> ('h, 'j, 'st) mstate) option" where
  "mgrFeed m f iid ev s =
     (case loadRuntime m iid s of
        Inl e \<Rightarrow> Some (None, Some e, s)
      | Inr (def, rt, rec) \<Rightarrow>
          do { rt' \<leftarrow> Feed (runtime_cfg m def) f ev rt; Some (finish m (r_res rt') rec rt' s) })"

definition mgrGetStatus :: "('h, 'j, 'st, 'd) mgr \<Rightarrow> string \<Rightarrow> ('h, 'j, 'st) mstate \<Rightarrow> store_error + instance_record" where
  "mgrGetStatus m iid s = m_get m (ms_store s) iid"

definition mgrCompensate ::
  "('h, 'j, 'st, 'd) mgr \<Rightarrow> string \<Rightarrow> ('h, 'j, 'st) mstate
    \<Rightarrow> effect_result list option \<times> store_error option \<times> ('h, 'j, 'st) mstate" where
  "mgrCompensate m iid s =
     (case loadRuntime m iid s of
        Inl e \<Rightarrow> (None, Some e, s)
      | Inr (def, rt, rec) \<Rightarrow>
          let (out, rt') = Compensate (runtime_cfg m def) rt in finish m out rec rt' s)"

definition mgrFailedCommands ::
  "('h, 'j, 'st, 'd) mgr \<Rightarrow> string \<Rightarrow> ('h, 'j, 'st) mstate \<Rightarrow> store_error + (command \<times> string \<times> err option) list" where
  "mgrFailedCommands m iid s =
     (case m_loadOccs m of
        None \<Rightarrow> Inl ErrJournalNotReadable
      | Some ld \<Rightarrow> (case ld (ms_journal s) iid of
                      Inl e \<Rightarrow> Inl (ELoadOccurrences e) | Inr occs \<Rightarrow> Inr (FailedCommands occs)))"

text \<open>The sweep: one instance after another, the broken ones noted and passed over.\<close>

fun sweep_loop ::
  "('h, 'j, 'st, 'd) mgr \<Rightarrow> nat \<Rightarrow> int \<Rightarrow> instance_record list \<Rightarrow> nat \<Rightarrow> store_error list \<Rightarrow> ('h, 'j, 'st) mstate
    \<Rightarrow> (nat \<times> store_error option \<times> ('h, 'j, 'st) mstate) option" where
  "sweep_loop m f t [] advanced errs s =
     Some (advanced, if errs = [] then None else Some (EJoined errs), s)"
| "sweep_loop m f t (rec # recs) advanced errs s =
     (case loadRuntime m (i_id rec) s of
        Inl e \<Rightarrow> sweep_loop m f t recs advanced (errs @ [EWake (i_id rec) e]) s
      | Inr (def, rt, cur) \<Rightarrow>
          let g = runtime_cfg m def;
              (ks, rt1) = rangeKeys g (c_waitings (r_ctx rt)) rt;
              due = (case NextWakeup ks (r_ctx rt1) of None \<Rightarrow> False | Some u \<Rightarrow> u \<le> t)
          in do { rt2 \<leftarrow> (if due then WakeDue g f t rt1 else Some rt1);
                  let (e, s') = syncInstance m cur rt2 s
                  in case e of
                       Some x \<Rightarrow> Some (if due then Suc advanced else advanced, Some x, s')
                     | None \<Rightarrow> sweep_loop m f t recs (if due then Suc advanced else advanced) errs s' })"

definition WakeDueSweep ::
  "('h, 'j, 'st, 'd) mgr \<Rightarrow> nat \<Rightarrow> int \<Rightarrow> int \<Rightarrow> ('h, 'j, 'st) mstate
    \<Rightarrow> (nat \<times> store_error option \<times> ('h, 'j, 'st) mstate) option" where
  "WakeDueSweep m f t limit s =
     (case m_list m (ms_tick s) t limit (ms_store s) of
        Inl e \<Rightarrow> Some (0, Some e, s)
      | Inr recs \<Rightarrow> sweep_loop m f t recs 0 [] (s\<lparr>ms_tick := Suc (ms_tick s)\<rparr>))"

end
