(* ===== verification/Facade.thy ===== *)
theory Facade
  imports Rejections TimeAxis Store Manager
begin

text \<open>
  What the manager keeps true: every summary in the store and every snapshot is an index of the
  log, so any operation may start from either. \<open>manager_inv\<close> is that invariant, on the
  in-memory journal and store; the theorems say that every operation keeps it.
\<close>

subsection \<open>Replaying an increment\<close>

text \<open>Contexts that a fold cannot tell apart.\<close>

definition alike :: "ctx \<Rightarrow> ctx \<Rightarrow> bool" where
  "alike c f \<longleftrightarrow>
     c_process c = c_process f \<and> c_definition c = c_definition f \<and>
     c_instance c = c_instance f \<and> c_execution c = c_execution f \<and>
     c_node c = c_node f \<and> c_status c = c_status f \<and> c_vars c = c_vars f \<and>
     c_event c = c_event f \<and> c_scopes c = c_scopes f \<and> c_waitings c = c_waitings f \<and>
     map folded_result (c_results c) = map folded_result (c_results f) \<and> c_undo c = c_undo f \<and>
     c_visits c = c_visits f \<and> (\<forall>k. IsProcessedEvent k c \<longrightarrow> IsProcessedEvent k f)"

lemma alike_trans: "alike c d \<Longrightarrow> alike d f \<Longrightarrow> alike c f"
  by (simp add: alike_def)

lemma agree_alike:
  assumes "agree c f" shows "alike c f"
proof -
  have "map folded_result (c_results f) = c_results f" using agree_folds [OF assms] by (simp add: agree_def)
  with assms show ?thesis by (simp add: agree_def alike_def)
qed

lemma alike_agree: "alike c f \<Longrightarrow> agree f f \<Longrightarrow> agree c f"
  by (simp add: agree_def alike_def)

lemma alike_branches:
  assumes "c_scopes c = c_scopes f"
  shows "findScopeByFork k c = findScopeByFork k f" "getBranch i x c = getBranch i x f"
    "c_scopes (put_branch i b c) = c_scopes (put_branch i b f)" "c_scopes (set_join i j c) = c_scopes (set_join i j f)"
  using assms by (simp_all add: findScopeByFork_def getBranch_def scopeAt_def put_branch_def set_join_def)

lemma alike_writes:
  "alike c f \<Longrightarrow> alike (put_branch i b c) (put_branch i b f)"
  "alike c f \<Longrightarrow> alike (set_join i j c) (set_join i j f)"
proof -
  assume a: "alike c f"
  then have s: "c_scopes c = c_scopes f" by (simp add: alike_def)
  show "alike (put_branch i b c) (put_branch i b f)"
    using a alike_branches [OF s] by (subst (1 2) put_branch_fields) (simp add: alike_def IsProcessedEvent_def)
  show "alike (set_join i j c) (set_join i j f)"
    using a alike_branches [OF s] by (subst (1 2) put_branch_fields) (simp add: alike_def IsProcessedEvent_def)
qed

lemma alike_applyBranch:
  assumes "alike c f" and "applyBranchUpdated occ f = Inr f'"
  shows "\<exists>c'. applyBranchUpdated occ c = Inr c' \<and> alike c' f'"
proof -
  have s: "c_scopes c = c_scopes f" using assms(1) by (simp add: alike_def)
  show ?thesis
    using assms alike_branches [OF s]
    by (auto simp: applyBranchUpdated_def Let_def alike_writes split: option.splits if_splits)
qed

lemma alike_applyOcc:
  assumes "alike c f" and "applyOcc f occ = Inr f'"
  shows "\<exists>c'. applyOcc c occ = Inr c' \<and> alike c' f'"
proof (cases "o_kind occ = OccBranchUpdated")
  case True
  with assms alike_applyBranch [OF assms(1), of occ f'] show ?thesis by (simp add: applyOcc_def)
next
  case False
  then show ?thesis using assms
    by (cases "o_kind occ")
      (auto simp: applyOcc_def applyEventConsumed_def applyStatus_def alike_def IsProcessedEvent_def VisitOf_def Let_def
        split: option.splits)
qed

lemma alike_foldOnto:
  "alike c f \<Longrightarrow> foldOnto f occs = Inr f' \<Longrightarrow> \<exists>c'. foldOnto c occs = Inr c' \<and> alike c' f'"
proof (induction occs arbitrary: c f)
  case (Cons occ occs)
  from Cons.prems(2) obtain f1 where f1: "applyOcc f occ = Inr f1" "foldOnto f1 occs = Inr f'"
    by (auto split: sum.splits)
  from alike_applyOcc [OF Cons.prems(1) f1(1)] obtain c1 where "applyOcc c occ = Inr c1" "alike c1 f1" by blast
  with Cons.IH [OF _ f1(2)] show ?case by auto
qed simp

text \<open>A context like the fold of a prefix, brought up to date, is like the fold of the whole log.\<close>

lemma fold_increment:
  assumes "alike c f0" and "foldContext def t (prefix_upto occs n) = Inr f0" and "foldContext def t occs = Inr f"
  shows "\<exists>c'. foldOnto c (occurrencesAfter occs n) = Inr c' \<and> alike c' f"
proof -
  have "foldOnto f0 (occurrencesAfter occs n) = Inr f"
    using assms(2,3) prefix_after [of occs n] foldOnto_append [of "NewExecutionContext def '''' '''' t" "prefix_upto occs n"
      "occurrencesAfter occs n"] by (simp add: foldContext_def)
  from alike_foldOnto [OF assms(1) this] show ?thesis .
qed

lemma prefix_upto_extends: "\<forall>occ \<in> set new. n < o_seq occ \<Longrightarrow> prefix_upto (old @ new) n = prefix_upto old n"
  by (induction old) (cases new; auto)+

subsection \<open>A journal that stores every fact\<close>

definition never_refuses :: "('h, 'j) cfg \<Rightarrow> bool" where
  "never_refuses g \<longleftrightarrow> (\<forall>j occ. snd (g_append g j occ) = None)"

lemma recordOcc_noerr [simp]: "never_refuses g \<Longrightarrow> r_journalErr (recordOcc g k fill s) = r_journalErr s"
  by (simp add: recordOcc_def never_refuses_def now_def split_def Let_def split: option.split)

lemma track_noerr [simp]: "r_journalErr (track g k s) = r_journalErr s"
  by (simp add: track_def now_def)

lemma fact_step_noerr: "fact_step g s s' \<Longrightarrow> never_refuses g \<Longrightarrow> r_journalErr s' = r_journalErr s"
  by (induction rule: fact_step.induct)
    (simp_all add: setStatus_def SetVariable_def setNode_def assignTransition_def TryConsumeEvent_def AcceptEvent_def
      ReleaseEvent_def PushScope_def PopScope_def IncrVisit_def setWaiting_def clearWaiting_def journalBranch_def
      branchReachedJoin_def addResult_def pushUndo_def fireUndo_def now_def Let_def split_def split: option.split)

lemma fact_steps_noerr: "fact_steps g s s' \<Longrightarrow> never_refuses g \<Longrightarrow> r_journalErr s' = r_journalErr s"
  by (induction rule: rtranclp_induct) (auto dest: fact_step_noerr)

subsection \<open>The logs of other instances\<close>

context fact_log
begin

lemma logged_others:
  assumes "g_append g = app" and "i' \<noteq> i"
  shows "logged g i j j' \<Longrightarrow> ok j \<Longrightarrow> load j' i' = load j i' \<and> max_seq j' i' = max_seq j i'"
proof (induction rule: logged.induct)
  case (logged_app j j1 occ j2 e)
  from logged_extends [OF assms(1) logged_app(1,5)] have ok: "ok j1" by blast
  from logged_app assms(1) have a: "app j1 occ = (j2, e)" by simp
  show ?case
  proof (cases e)
    case None
    from others [OF ok a [unfolded None], of i'] logged_app assms(2) show ?thesis by simp
  next
    case (Some x)
    from refused [OF ok a [unfolded Some], of i'] logged_app show ?thesis by simp
  qed
qed simp

end

subsection \<open>The invariant of the manager\<close>

text \<open>
  The manager on the in-memory journal and store, every process lawful, every range complete, and
  a codec that restores nothing else than what it saved (it may fail to restore).
\<close>

definition on_memory :: "('h, memory_journal, 'd memory_store, 'd) mgr \<Rightarrow> bool" where
  "on_memory m \<longleftrightarrow> g_append (m_rt m) = memAppend \<and> m_loadOccs m = Some (\<lambda>j i. Inr (memLoad j i)) \<and>
     (m_maxSeqOf m = None \<or> m_maxSeqOf m = Some (\<lambda>j i. Inr (memMaxSeq j i))) \<and>
     m_put m = memPutInstance \<and> m_create m = memCreateInstance \<and> m_get m = memGetInstance \<and>
     m_latest m = memLatestSnapshot \<and> m_putSnap m = memPutSnapshot"

definition well_managed :: "('h, memory_journal, 'd memory_store, 'd) mgr \<Rightarrow> bool" where
  "well_managed m \<longleftrightarrow> on_memory m \<and> full_range (m_rt m) \<and> effect_executor (g_handle (m_rt m)) \<and>
     (\<forall>(k, def) \<in> set (m_defs m). ids_match def) \<and>
     (\<forall>c d c'. m_marshal m c = Inr d \<longrightarrow> m_restore m d = Inr c' \<longrightarrow> alike c' c)"

text \<open>A summary indexes the log: the log folds, and the summary says what the fold says.\<close>

definition indexes :: "('h, memory_journal, 'd memory_store, 'd) mgr \<Rightarrow> memory_journal \<Rightarrow> string \<Rightarrow> instance_record \<Rightarrow> bool" where
  "indexes m j iid rec \<longleftrightarrow> (\<exists>def. dget (m_defs m) (i_def rec) = Some def \<and>
     (\<forall>t. \<exists>f. foldContext def t (memLoad j iid) = Inr f \<and> agree f f \<and> resting f \<and> c_instance f = iid \<and>
        i_status rec = statusString (c_status f) \<and> i_node rec = c_node f \<and>
        i_wake rec = NextWakeup (dkeys (c_waitings f)) f))"

text \<open>A snapshot indexes it too: what it restores is like the fold of the log up to its number.\<close>

definition snapshot_ok :: "('h, memory_journal, 'd memory_store, 'd) mgr \<Rightarrow> memory_journal \<Rightarrow> string \<Rightarrow> string \<Rightarrow> 'd snapshot \<Rightarrow> bool" where
  "snapshot_ok m j iid defID sn \<longleftrightarrow> sn_upto sn \<le> memMaxSeq j iid \<and>
     (\<forall>def c. dget (m_defs m) defID = Some def \<longrightarrow> m_restore m (sn_data sn) = Inr c \<longrightarrow>
        (\<forall>t. \<exists>f. foldContext def t (prefix_upto (memLoad j iid) (sn_upto sn)) = Inr f \<and> alike c f))"

definition instance_inv :: "('h, memory_journal, 'd memory_store, 'd) mgr \<Rightarrow> memory_journal \<Rightarrow> 'd memory_store \<Rightarrow> string \<Rightarrow> bool" where
  "instance_inv m j st iid \<longleftrightarrow>
     (case memGetInstance st iid of
        Inl e \<Rightarrow> memLoad j iid = [] \<and> isl (memLatestSnapshot st iid)
      | Inr rec \<Rightarrow> indexes m j iid rec \<and>
          (\<forall>sn. memLatestSnapshot st iid = Inr sn \<longrightarrow> snapshot_ok m j iid (i_def rec) sn))"

definition manager_inv :: "('h, memory_journal, 'd memory_store, 'd) mgr \<Rightarrow> ('h, memory_journal, 'd memory_store) mstate \<Rightarrow> bool" where
  "manager_inv m s \<longleftrightarrow> mem_ok (ms_journal s) \<and> mem_store_ok (ms_store s) \<and>
     (\<forall>iid. instance_inv m (ms_journal s) (ms_store s) iid)"

lemma manager_invD:
  assumes "manager_inv m s"
  shows "mem_ok (ms_journal s)" "mem_store_ok (ms_store s)" "instance_inv m (ms_journal s) (ms_store s) iid"
  using assms by (simp_all add: manager_inv_def)

lemma runtime_cfg_simps [simp]:
  "g_def (runtime_cfg m def) = def" "g_append (runtime_cfg m def) = g_append (m_rt m)"
  "g_handle (runtime_cfg m def) = g_handle (m_rt m)" "g_order (runtime_cfg m def) = g_order (m_rt m)"
  by (simp_all add: runtime_cfg_def)

lemma managed_runtime:
  assumes "well_managed m" and "dget (m_defs m) k = Some def"
  shows "lawful (runtime_cfg m def)" "g_append (runtime_cfg m def) = memAppend" "never_refuses (runtime_cfg m def)"
    "full_range (runtime_cfg m def)" "full_range (m_rt m)"
proof -
  have "(k, def) \<in> set (m_defs m)" using assms(2) by (rule map_of_SomeD)
  with assms(1) show "lawful (runtime_cfg m def)" by (auto simp: well_managed_def lawful_def)
  show "g_append (runtime_cfg m def) = memAppend" "full_range (m_rt m)" "full_range (runtime_cfg m def)"
    using assms(1) by (simp_all add: well_managed_def on_memory_def full_range_def)
  then show "never_refuses (runtime_cfg m def)" by (simp add: never_refuses_def memAppend_def Let_def)
qed

subsection \<open>Loading\<close>

lemma agree_rests: "agree c f \<Longrightarrow> resting f \<Longrightarrow> resting c"
  by (simp add: agree_def resting_def well_formed_def slot_ok_def)

lemma tenant_frame [simp]:
  "agree (WithTenant t c) f = agree c f" "resting (WithTenant t c) = resting c" "c_instance (WithTenant t c) = c_instance c"
  by (simp_all add: WithTenant_def agree_def resting_def well_formed_def slot_ok_def IsProcessedEvent_def)

lemma framed_redeliver: "lawful g \<Longrightarrow> framed g s (redeliver g cmds s)"
  by (induction cmds arbitrary: s) (auto intro: framed_trans framed_deliver)

text \<open>Whatever it starts from, loading recovers a context that agrees with the fold of the log.\<close>

lemma recover_agrees:
  assumes ix: "\<And>t. \<exists>f. foldContext def t occs = Inr f \<and> agree f f"
    and snap: "\<And>c n t. snap = Some (c, n) \<Longrightarrow> \<exists>f. foldContext def t (prefix_upto occs n) = Inr f \<and> alike c f"
    and rc: "recoverContext def t0 occs snap = Inr c"
  shows "\<exists>f. foldContext def t occs = Inr f \<and> agree f f \<and> agree c f"
proof -
  from ix [of t] obtain f where f: "foldContext def t occs = Inr f" "agree f f" by blast
  have "alike c f"
  proof (cases snap)
    case None
    with rc have "foldContext def t0 occs = Inr c" by (simp add: recoverContext_def split: sum.splits)
    with f foldContext_time [of def t occs t0] have "f = c\<lparr>c_started := t\<rparr>" by simp
    then show ?thesis by (simp add: alike_def IsProcessedEvent_def)
  next
    case (Some x)
    then obtain c0 n where s: "snap = Some (c0, n)" by (cases x) auto
    from snap [OF s, of t] obtain f0 where "foldContext def t (prefix_upto occs n) = Inr f0" "alike c0 f0" by blast
    from fold_increment [OF this(2,1) f(1)] obtain c' where
      "foldOnto c0 (occurrencesAfter occs n) = Inr c'" "alike c' f" by blast
    with rc s show ?thesis by (auto simp: recoverContext_def split: if_splits)
  qed
  with f show ?thesis by (auto intro: alike_agree)
qed

lemma recover_succeeds:
  assumes ix: "\<And>t. \<exists>f. foldContext def t occs = Inr f \<and> agree f f"
    and snap: "\<And>c n t. snap = Some (c, n) \<Longrightarrow> \<exists>f. foldContext def t (prefix_upto occs n) = Inr f \<and> alike c f"
  shows "\<exists>c. recoverContext def t0 occs snap = Inr c"
proof (cases snap)
  case None
  with ix [of t0] show ?thesis by (auto simp: recoverContext_def)
next
  case (Some x)
  then obtain c0 n where s: "snap = Some (c0, n)" by (cases x) auto
  from snap [OF s, of t0] ix [of t0] fold_increment [of c0 _ def t0 occs n] obtain c' where
    "foldOnto c0 (occurrencesAfter occs n) = Inr c'" by blast
  with s show ?thesis by (simp add: recoverContext_def)
qed

text \<open>What the invariant of the manager says to the loader.\<close>

lemma load_facts:
  assumes m: "well_managed m" and inv: "manager_inv m s" and rec: "memGetInstance (ms_store s) iid = Inr rec"
    and d: "dget (m_defs m) (i_def rec) = Some def"
  shows "\<exists>f. foldContext def t (memLoad (ms_journal s) iid) = Inr f \<and> agree f f \<and> resting f \<and> c_instance f = iid"
    "snapshotContext m iid (ms_store s) = Some (c, n) \<Longrightarrow>
      \<exists>f. foldContext def t (prefix_upto (memLoad (ms_journal s) iid) n) = Inr f \<and> alike c f"
proof -
  from manager_invD(3) [OF inv, of iid] rec
  have ix: "indexes m (ms_journal s) iid rec"
    and sn: "\<And>sn. memLatestSnapshot (ms_store s) iid = Inr sn \<Longrightarrow> snapshot_ok m (ms_journal s) iid (i_def rec) sn"
    by (auto simp: instance_inv_def)
  show "\<exists>f. foldContext def t (memLoad (ms_journal s) iid) = Inr f \<and> agree f f \<and> resting f \<and> c_instance f = iid"
    using ix d by (fastforce simp: indexes_def)
  have "m_latest m = memLatestSnapshot" using m by (simp add: well_managed_def on_memory_def)
  then show "\<exists>f. foldContext def t (prefix_upto (memLoad (ms_journal s) iid) n) = Inr f \<and> alike c f"
    if "snapshotContext m iid (ms_store s) = Some (c, n)"
    using that sn d by (auto simp: snapshotContext_def snapshot_ok_def split: if_splits sum.splits)
qed

lemma loadRuntime_Inr:
  assumes "well_managed m" and "loadRuntime m iid s = Inr (def, rt, rec)"
  shows "memGetInstance (ms_store s) iid = Inr rec" "dget (m_defs m) (i_def rec) = Some def"
    "\<exists>c. recoverContext def (g_clock (m_rt m) (ms_tick s)) (memLoad (ms_journal s) iid)
        (snapshotContext m iid (ms_store s)) = Inr c \<and>
      rt = redeliver (runtime_cfg m def) (PendingCommands (memLoad (ms_journal s) iid))
        (NewRuntime (WithTenant (i_tenant rec) c) (Some (ms_journal s)) (ms_host s) (Suc (ms_tick s)))"
  using assms by (auto simp: loadRuntime_def well_managed_def on_memory_def Let_def split: option.splits sum.splits)

text \<open>A runtime of the instance: at rest, a mirror of its log, which has only grown.\<close>

definition runs :: "('h, memory_journal, 'd memory_store, 'd) mgr \<Rightarrow> process_def \<Rightarrow> string \<Rightarrow> memory_journal
    \<Rightarrow> ('h, memory_journal) rts \<Rightarrow> bool" where
  "runs m def iid j rt \<longleftrightarrow> resting (r_ctx rt) \<and> (\<forall>t. mirrors memLoad mem_ok def t rt) \<and> c_instance (r_ctx rt) = iid \<and>
     r_journalErr rt = None \<and> (\<exists>j'. r_journal rt = Some j' \<and> logged (runtime_cfg m def) iid j j')"

lemma runs_leads:
  assumes m: "well_managed m" "dget (m_defs m) k = Some def" and r: "runs m def iid j rt"
    and l: "leads (runtime_cfg m def) resting rt rt'"
  shows "runs m def iid j rt'"
proof -
  note g = managed_runtime [OF m]
  from r obtain j1 where j1: "r_journal rt = Some j1" "logged (runtime_cfg m def) iid j j1" and i: "c_instance (r_ctx rt) = iid"
    by (auto simp: runs_def)
  from l have st: "fact_steps (runtime_cfg m def) rt rt'" by (simp add: leads_def)
  from fact_steps_grow [OF st j1(1)] i obtain j2 where
    "r_journal rt' = Some j2" "logged (runtime_cfg m def) iid j1 j2" "c_instance (r_ctx rt') = iid" by auto
  moreover from this(2) j1(2) have "logged (runtime_cfg m def) iid j j2" by (rule logged_trans)
  moreover have "resting (r_ctx rt') \<and> (\<forall>t. mirrors memLoad mem_ok def t rt')"
    by (rule mem_log.resting_mirrors [OF g(2) l]) (use r in \<open>simp add: runs_def\<close>)
  moreover have "r_journalErr rt' = None" using fact_steps_noerr [OF st g(3)] r by (simp add: runs_def)
  ultimately show ?thesis by (simp add: runs_def)
qed

lemma load_runs:
  assumes m: "well_managed m" and inv: "manager_inv m s" and ld: "loadRuntime m iid s = Inr (def, rt, rec)"
  shows "runs m def iid (ms_journal s) rt"
proof -
  let ?j = "ms_journal s" and ?st = "ms_store s"
  note l = loadRuntime_Inr [OF m ld]
  note g = managed_runtime [OF m l(2)]
  from l(3) obtain c where c: "recoverContext def (g_clock (m_rt m) (ms_tick s)) (memLoad ?j iid) (snapshotContext m iid ?st) = Inr c"
    and rt: "rt = redeliver (runtime_cfg m def) (PendingCommands (memLoad ?j iid))
        (NewRuntime (WithTenant (i_tenant rec) c) (Some ?j) (ms_host s) (Suc (ms_tick s)))" by blast
  let ?rt0 = "NewRuntime (WithTenant (i_tenant rec) c) (Some ?j) (ms_host s) (Suc (ms_tick s))"
  note fold = load_facts(1) [OF m inv l(1,2)] and snap = load_facts(2) [OF m inv l(1,2)]
  have rec: "\<exists>f. foldContext def t (memLoad ?j iid) = Inr f \<and> agree f f \<and> agree c f" for t
    by (rule recover_agrees [OF _ snap c]) (use fold in blast)
  obtain f where f: "foldContext def 0 (memLoad ?j iid) = Inr f" "resting f" "c_instance f = iid" using fold by blast
  with rec [of 0] have cf: "agree c f" by auto
  then have i: "c_instance c = iid" using f(3) by (simp add: agree_def)
  have "runs m def iid ?j ?rt0" unfolding runs_def
  proof (intro conjI allI)
    show "resting (r_ctx ?rt0)" using agree_rests [OF cf f(2)] by (simp add: NewRuntime_def)
    show "mirrors memLoad mem_ok def t ?rt0" for t
    proof (rule mirrorsI)
      show "r_journal ?rt0 = Some ?j" "mem_ok ?j" using manager_invD(1) [OF inv] by (simp_all add: NewRuntime_def)
      show "\<exists>f. foldContext def t (memLoad ?j (c_instance (r_ctx ?rt0))) = Inr f \<and> agree (r_ctx ?rt0) f"
        using rec [of t] i by (auto simp: NewRuntime_def)
    qed
    show "c_instance (r_ctx ?rt0) = iid" "r_journalErr ?rt0 = None" using i by (simp_all add: NewRuntime_def)
    show "\<exists>j'. r_journal ?rt0 = Some j' \<and> logged (runtime_cfg m def) iid ?j j'"
      by (simp add: NewRuntime_def logged_refl)
  qed
  moreover have "leads (runtime_cfg m def) resting ?rt0 rt" unfolding rt
    by (rule leads_framed [OF framed_redeliver [OF g(1)]])
      (use agree_rests [OF cf f(2)] framed_states(3) [OF framed_redeliver [OF g(1)]] in \<open>simp add: NewRuntime_def\<close>)
  ultimately show ?thesis by (rule runs_leads [OF m l(2)])
qed

subsection \<open>Writing back\<close>

lemma option_eqI_spec: "(\<And>u. x = Some u \<longleftrightarrow> y = Some u) \<Longrightarrow> x = y"
  by (cases x; cases y) auto

lemma instance_inv_frame:
  "instance_inv m j st i \<Longrightarrow> memLoad j' i = memLoad j i \<Longrightarrow> memMaxSeq j' i = memMaxSeq j i
    \<Longrightarrow> memGetInstance st' i = memGetInstance st i \<Longrightarrow> memLatestSnapshot st' i = memLatestSnapshot st i
    \<Longrightarrow> instance_inv m j' st' i"
  by (simp add: instance_inv_def indexes_def snapshot_ok_def split: sum.splits)

lemma snapshot_ok_later:
  assumes "snapshot_ok m j iid d sn" and "memLoad j' iid = memLoad j iid @ new"
    and "\<forall>occ \<in> set new. memMaxSeq j iid < o_seq occ" and "memMaxSeq j iid \<le> memMaxSeq j' iid"
  shows "snapshot_ok m j' iid d sn"
proof -
  have "\<forall>occ \<in> set new. sn_upto sn < o_seq occ" using assms(1,3) by (fastforce simp: snapshot_ok_def)
  from prefix_upto_extends [OF this, of "memLoad j iid"] assms show ?thesis by (simp add: snapshot_ok_def)
qed

text \<open>The snapshot that is saved is one of the whole log.\<close>

lemma snapshot_now:
  assumes m: "well_managed m" "dget (m_defs m) d = Some def" and ok: "mem_ok j"
    and c: "\<And>t. \<exists>f. foldContext def t (memLoad j iid) = Inr f \<and> agree c f"
    and sn: "m_marshal m c = Inr (sn_data sn)" "sn_upto sn = memMaxSeq j iid"
  shows "snapshot_ok m j iid d sn"
  unfolding snapshot_ok_def
proof (intro conjI allI impI)
  show "sn_upto sn \<le> memMaxSeq j iid" by (simp add: sn)
  fix def' c' t assume "dget (m_defs m) d = Some def'" and c': "m_restore m (sn_data sn) = Inr c'"
  then have "def' = def" using m(2) by simp
  have "prefix_upto (memLoad j iid) (sn_upto sn) = memLoad j iid"
    using mem_log.newest [OF ok] by (intro prefix_upto_all) (simp add: sn)
  moreover from c [of t] obtain f where f: "foldContext def t (memLoad j iid) = Inr f" "agree c f" by blast
  have "alike c' c" using m(1) sn(1) c' unfolding well_managed_def by blast
  then have "alike c' f" using agree_alike [OF f(2)] by (rule alike_trans)
  ultimately show "\<exists>f. foldContext def' t (prefix_upto (memLoad j iid) (sn_upto sn)) = Inr f \<and> alike c' f"
    using f(1) \<open>def' = def\<close> by simp
qed

definition snapshots_ok :: "('h, memory_journal, 'd memory_store, 'd) mgr \<Rightarrow> memory_journal \<Rightarrow> 'd memory_store \<Rightarrow> string \<Rightarrow> string \<Rightarrow> bool" where
  "snapshots_ok m j st iid d \<longleftrightarrow> (\<forall>sn. memLatestSnapshot st iid = Inr sn \<longrightarrow> snapshot_ok m j iid d sn)"

lemma maybeSnapshot_keeps:
  assumes m: "well_managed m" "dget (m_defs m) d = Some def" and ok: "mem_ok (ms_journal s)" "mem_store_ok (ms_store s)"
    and c: "\<And>t. \<exists>f. foldContext def t (memLoad (ms_journal s) iid) = Inr f \<and> agree c f"
    and sn: "snapshots_ok m (ms_journal s) (ms_store s) iid d"
    and r: "maybeSnapshot m iid c s = (e, s')"
  shows "ms_journal s' = ms_journal s \<and> mem_store_ok (ms_store s') \<and>
    (\<forall>k. memGetInstance (ms_store s') k = memGetInstance (ms_store s) k) \<and>
    (\<forall>k. k \<noteq> iid \<longrightarrow> memLatestSnapshot (ms_store s') k = memLatestSnapshot (ms_store s) k) \<and>
    snapshots_ok m (ms_journal s') (ms_store s') iid d"
proof (cases "s' = s")
  case True with assms show ?thesis by simp
next
  case False
  have mm: "m_latest m = memLatestSnapshot" "m_putSnap m = memPutSnapshot"
    "m_maxSeqOf m = None \<or> m_maxSeqOf m = Some (\<lambda>j i. Inr (memMaxSeq j i))"
    using m(1) by (simp_all add: well_managed_def on_memory_def)
  from r False mm(3) have "saveSnapshot m iid (memMaxSeq (ms_journal s) iid) c s = (e, s')"
    unfolding maybeSnapshot_def by (auto split: if_splits sum.splits)
  with False mm(2) obtain data st' where data: "m_marshal m c = Inr data" and
    p: "memPutSnapshot \<lparr>sn_id = iid, sn_upto = memMaxSeq (ms_journal s) iid, sn_data = data,
        sn_created = g_clock (m_rt m) (ms_tick s)\<rparr> (ms_store s) = (st', None)" and
    s': "s' = s\<lparr>ms_store := st', ms_tick := Suc (ms_tick s)\<rparr>"
    by (auto simp: saveSnapshot_def memPutSnapshot_def split: sum.splits)
  let ?sn = "\<lparr>sn_id = iid, sn_upto = memMaxSeq (ms_journal s) iid, sn_data = data, sn_created = g_clock (m_rt m) (ms_tick s)\<rparr>"
  have new: "snapshot_ok m (ms_journal s) iid d ?sn" by (rule snapshot_now [OF m ok(1) c]) (simp_all add: data)
  have g: "memGetInstance st' k = memGetInstance (ms_store s) k" for k
    using mem_store.put_snap_keeps [OF ok(2), of ?sn k] by (simp add: p)
  show ?thesis
    using mem_store.put_latest [OF ok(2) p] new g by (auto simp: s' snapshots_ok_def)
qed

lemma sync_keeps:
  assumes m: "well_managed m" "dget (m_defs m) (i_def rec) = Some def"
    and ok: "mem_ok j" "mem_store_ok (ms_store s)"
    and others: "\<And>i. i \<noteq> i_id rec \<Longrightarrow> instance_inv m j (ms_store s) i"
    and sn: "snapshots_ok m j (ms_store s) (i_id rec) (i_def rec)"
    and rt: "runs m def (i_id rec) j rt"
    and r: "syncInstance m rec rt s = (e, s')"
  shows "manager_inv m s'"
proof -
  let ?iid = "i_id rec" and ?c = "r_ctx rt"
  note g = managed_runtime [OF m]
  from rt obtain j' where j': "r_journal rt = Some j'" "logged (runtime_cfg m def) ?iid j j'" by (auto simp: runs_def)
  from rt have rest: "resting ?c" and i: "c_instance ?c = ?iid" by (simp_all add: runs_def)
  have mir: "mem_ok j' \<and> (\<exists>f. foldContext def t (memLoad j' ?iid) = Inr f \<and> agree ?c f)" for t
    using rt j'(1) i by (auto simp: runs_def mirrors_def)
  from mem_log.logged_extends [OF g(2) j'(2) ok(1)] obtain new where
    ext: "memMaxSeq j ?iid \<le> memMaxSeq j' ?iid" "memLoad j' ?iid = memLoad j ?iid @ new"
      "\<forall>occ \<in> set new. memMaxSeq j ?iid < o_seq occ" by blast
  have mo: "m_put m = memPutInstance" using m(1) by (simp add: well_managed_def on_memory_def)
  obtain ks rt1 where k: "rangeKeys (m_rt m) (c_waitings ?c) rt = (ks, rt1)" by fastforce
  obtain t rt2 where n: "now (m_rt m) rt1 = (t, rt2)" by fastforce
  define rec' where "rec' = rec\<lparr>i_status := statusString (c_status ?c), i_node := c_node ?c, i_wake := NextWakeup ks ?c, i_updated := t\<rparr>"
  define st where "st = fst (memPutInstance rec' (ms_store s))"
  have p: "memPutInstance rec' (ms_store s) = (st, None)" by (simp add: st_def memPutInstance_def)
  define s2 where "s2 = (absorb rt2 s)\<lparr>ms_store := st\<rparr>"
  have rj: "r_journal rt2 = Some j'" using k n j'(1) by (auto simp: rangeKeys_def now_def)
  then have s2: "ms_journal s2 = j'" "ms_store s2 = st" by (simp_all add: s2_def absorb_def)
  have sto: "ms_store (absorb rt2 s) = ms_store s" by (simp add: absorb_def)
  have r': "maybeSnapshot m ?iid ?c s2 = (e, s')"
    using r unfolding syncInstance_def by (simp add: k n mo sto p rec'_def [symmetric] s2_def)
  note put = mem_store.put_get [OF ok(2) p]
  have lat: "memLatestSnapshot st q = memLatestSnapshot (ms_store s) q" for q
    unfolding st_def by (rule mem_store.put_keeps [OF ok(2)])
  have "snapshots_ok m j' st ?iid (i_def rec)"
    using sn by (auto simp: snapshots_ok_def lat intro: snapshot_ok_later [OF _ ext(2,3,1)])
  then have sn2: "snapshots_ok m (ms_journal s2) (ms_store s2) ?iid (i_def rec)" by (simp add: s2)
  have ok2: "mem_ok (ms_journal s2)" "mem_store_ok (ms_store s2)"
    "\<And>t. \<exists>f. foldContext def t (memLoad (ms_journal s2) ?iid) = Inr f \<and> agree ?c f"
    using put mir by (simp_all add: s2)
  note keeps = maybeSnapshot_keeps [OF m ok2 sn2 r']
  then have snaps: "ms_journal s' = j'" "mem_store_ok (ms_store s')" "memGetInstance (ms_store s') q = memGetInstance st q"
    "q \<noteq> ?iid \<Longrightarrow> memLatestSnapshot (ms_store s') q = memLatestSnapshot st q" for q
    by (simp_all add: s2)
  have kept: "snapshots_ok m j' (ms_store s') ?iid (i_def rec)" using keeps unfolding snaps(1) by blast
  have ids: "i_id rec' = ?iid" "i_def rec' = i_def rec" by (simp_all add: rec'_def)
  show ?thesis unfolding manager_inv_def
  proof (intro conjI allI)
    show "mem_ok (ms_journal s')" using mir snaps(1) by simp
    show "mem_store_ok (ms_store s')" by (rule snaps(2))
    fix i
    show "instance_inv m (ms_journal s') (ms_store s') i"
    proof (cases "i = ?iid")
      case False
      from mem_log.logged_others [OF g(2) False j'(2) ok(1)] snaps put ids lat others [OF False] False
      show ?thesis by (auto intro: instance_inv_frame)
    next
      case True
      have w: "NextWakeup (dkeys (c_waitings ?c)) ?c = NextWakeup ks ?c"
      proof (rule option_eqI_spec)
        have "ks = g_order (m_rt m) (r_tick rt) (dkeys (c_waitings ?c))" using k by (simp add: rangeKeys_def)
        then have ks: "set ks = set (dkeys (c_waitings ?c))" using g(5) by (simp only: full_range_def)
        show "NextWakeup (dkeys (c_waitings ?c)) ?c = Some u \<longleftrightarrow> NextWakeup ks ?c = Some u" for u
          by (simp add: NextWakeup_spec [OF ks] NextWakeup_spec [OF refl])
      qed
      have "indexes m j' ?iid rec'"
        unfolding indexes_def
      proof (rule exI [of _ def], intro conjI allI)
        show "dget (m_defs m) (i_def rec') = Some def" by (simp add: ids m)
        fix t
        from mir [of t] obtain f where f: "foldContext def t (memLoad j' ?iid) = Inr f" "agree ?c f" by blast
        have "NextWakeup (dkeys (c_waitings f)) f = NextWakeup ks ?c"
          using w f(2) by (simp add: agree_def NextWakeup_def)
        with f rest i show "\<exists>f. foldContext def t (memLoad j' ?iid) = Inr f \<and> agree f f \<and> resting f \<and> c_instance f = ?iid \<and>
           i_status rec' = statusString (c_status f) \<and> i_node rec' = c_node f \<and>
           i_wake rec' = NextWakeup (dkeys (c_waitings f)) f"
          by (intro exI [of _ f]) (auto simp: rec'_def agree_folds agree_resting, auto simp: agree_def)
      qed
      with True snaps(1,3) kept put ids show ?thesis by (auto simp: instance_inv_def snapshots_ok_def)
    qed
  qed
qed

subsection \<open>Operations\<close>

lemma loaded_keeps:
  assumes m: "well_managed m" and inv: "manager_inv m s" and ld: "loadRuntime m iid s = Inr (def, rt, rec)"
    and l: "leads (runtime_cfg m def) resting rt rt'" and r: "syncInstance m rec rt' s = (e, s')"
  shows "manager_inv m s'"
proof -
  note lr = loadRuntime_Inr [OF m ld]
  have id: "i_id rec = iid" by (rule mem_store.own_id [OF manager_invD(2) [OF inv] lr(1)])
  have sn: "snapshots_ok m (ms_journal s) (ms_store s) (i_id rec) (i_def rec)"
    using manager_invD(3) [OF inv, of iid] lr(1) by (simp add: id instance_inv_def snapshots_ok_def)
  have rt: "runs m def (i_id rec) (ms_journal s) rt'"
    unfolding id by (rule runs_leads [OF m lr(2) load_runs [OF m inv ld] l])
  show ?thesis by (rule sync_keeps [OF m lr(2) manager_invD(1,2) [OF inv] manager_invD(3) [OF inv] sn rt r])
qed

lemma finish_keeps:
  "well_managed m \<Longrightarrow> manager_inv m s \<Longrightarrow> loadRuntime m iid s = Inr (def, rt, rec)
    \<Longrightarrow> leads (runtime_cfg m def) resting rt rt' \<Longrightarrow> finish m res rec rt' s = (r, e, s') \<Longrightarrow> manager_inv m s'"
  by (auto simp: finish_def split: prod.splits dest: loaded_keeps)

lemma load_rests:
  "well_managed m \<Longrightarrow> manager_inv m s \<Longrightarrow> loadRuntime m iid s = Inr (def, rt, rec) \<Longrightarrow>
    lawful (runtime_cfg m def) \<and> resting (r_ctx rt)"
  using load_runs managed_runtime(1) loadRuntime_Inr(2) by (fastforce simp: runs_def)

lemma mgrFeed_keeps:
  assumes m: "well_managed m" and inv: "manager_inv m s" and ev: "ev_name ev \<noteq> ''''"
    and r: "mgrFeed m f iid ev s = Some (res, e, s')"
  shows "manager_inv m s'"
proof (cases "loadRuntime m iid s")
  case (Inl x) with r inv show ?thesis by (simp add: mgrFeed_def)
next
  case (Inr y)
  then obtain def rt rec where ld: "loadRuntime m iid s = Inr (def, rt, rec)" by (cases y) auto
  with r obtain rt' where fd: "Feed (runtime_cfg m def) f ev rt = Some rt'" and fin: "finish m (r_res rt') rec rt' s = (res, e, s')"
    by (auto simp: mgrFeed_def bind_eq_Some_conv)
  from load_rests [OF m inv ld] have "lawful (runtime_cfg m def)" "resting (r_ctx rt)" by simp_all
  from finish_keeps [OF m inv ld Feed_resting [OF this ev fd] fin] show ?thesis .
qed

lemma mgrCompensate_keeps:
  assumes m: "well_managed m" and inv: "manager_inv m s" and r: "mgrCompensate m iid s = (res, e, s')"
  shows "manager_inv m s'"
proof (cases "loadRuntime m iid s")
  case (Inl x) with r inv show ?thesis by (simp add: mgrCompensate_def)
next
  case (Inr y)
  then obtain def rt rec where ld: "loadRuntime m iid s = Inr (def, rt, rec)" by (cases y) auto
  with r have fin: "finish m (fst (Compensate (runtime_cfg m def) rt)) rec (snd (Compensate (runtime_cfg m def) rt)) s = (res, e, s')"
    by (simp add: mgrCompensate_def split_def Let_def)
  from load_rests [OF m inv ld] have g: "lawful (runtime_cfg m def)" "resting (r_ctx rt)" by simp_all
  from Compensate_framed [OF g(1)] have fr: "framed (runtime_cfg m def) rt (snd (Compensate (runtime_cfg m def) rt))" .
  then have "leads (runtime_cfg m def) resting rt (snd (Compensate (runtime_cfg m def) rt))"
    using framed_states(3) [OF fr g(2)] by (simp add: leads_framed)
  with finish_keeps [OF m inv ld _ fin] show ?thesis by blast
qed

lemma sweep_keeps:
  assumes m: "well_managed m"
  shows "manager_inv m s \<Longrightarrow> sweep_loop m f t recs n errs s = Some (k, e, s') \<Longrightarrow> manager_inv m s'"
proof (induction recs arbitrary: n errs s)
  case (Cons rec recs)
  show ?case
  proof (cases "loadRuntime m (i_id rec) s")
    case (Inl x) with Cons.IH [OF Cons.prems(1)] Cons.prems(2) show ?thesis by simp
  next
    case (Inr y)
    then obtain def rt cur where ld: "loadRuntime m (i_id rec) s = Inr (def, rt, cur)" by (cases y) auto
    let ?g = "runtime_cfg m def"
    obtain ks rt1 where k: "rangeKeys ?g (c_waitings (r_ctx rt)) rt = (ks, rt1)" by fastforce
    define due where "due = (case NextWakeup ks (r_ctx rt1) of None \<Rightarrow> False | Some u \<Rightarrow> u \<le> t)"
    from Cons.prems(2) obtain rt2 where w: "(if due then WakeDue ?g f t rt1 else Some rt1) = Some rt2"
      and more: "(let (e, s') = syncInstance m cur rt2 s
                  in case e of
                       Some x \<Rightarrow> Some (if due then Suc n else n, Some x, s')
                     | None \<Rightarrow> sweep_loop m f t recs (if due then Suc n else n) errs s') = Some (k, e, s')"
      unfolding sweep_loop.simps ld sum.case prod.case Let_def k due_def [symmetric] bind_eq_Some_conv by blast
    obtain e1 s1 where sy: "syncInstance m cur rt2 s = (e1, s1)" by fastforce
    with more have more: "e1 = None \<and> sweep_loop m f t recs (if due then Suc n else n) errs s1 = Some (k, e, s') \<or> s' = s1"
      by (cases e1) auto
    from load_rests [OF m Cons.prems(1) ld] have g: "lawful ?g" "resting (r_ctx rt)" by simp_all
    have fr: "framed ?g rt rt1" using framed_rangeKeys [of ?g rt "c_waitings (r_ctx rt)"] k by simp
    have r1: "resting (r_ctx rt1)" by (rule framed_states(3) [OF fr g(2)])
    have "leads ?g resting rt1 rt2"
    proof (cases due)
      case True with w WakeDue_resting [OF g(1) r1] show ?thesis by simp
    next
      case False with w r1 show ?thesis by (simp add: leads_def)
    qed
    with fr have l: "leads ?g resting rt rt2" by (rule framed_leads)
    have "manager_inv m s1" by (rule loaded_keeps [OF m Cons.prems(1) ld l sy])
    with more Cons.IH show ?thesis by blast
  qed
qed simp

lemma sweep_due_keeps:
  assumes m: "well_managed m" and inv: "manager_inv m s" and r: "WakeDueSweep m f t limit s = Some (k, e, s')"
  shows "manager_inv m s'"
proof (cases "m_list m (ms_tick s) t limit (ms_store s)")
  case (Inl x) with r inv show ?thesis by (simp add: WakeDueSweep_def)
next
  case (Inr recs)
  have "manager_inv m (s\<lparr>ms_tick := Suc (ms_tick s)\<rparr>)" using inv by (simp add: manager_inv_def)
  moreover have "sweep_loop m f t recs 0 [] (s\<lparr>ms_tick := Suc (ms_tick s)\<rparr>) = Some (k, e, s')"
    using r by (simp add: WakeDueSweep_def Inr)
  ultimately show ?thesis by (rule sweep_keeps [OF m])
qed

lemma start_runs:
  assumes m: "well_managed m" "dget (m_defs m) d = Some def" and j: "mem_ok j" "memLoad j iid = []"
  shows "runs m def iid j (started (runtime_cfg m def) iid xid
    (NewRuntime (WithTenant tn (NewExecutionContext def '''' '''' t0)) (Some j) h k))" (is "runs _ _ _ _ ?s")
proof -
  note g = managed_runtime [OF m]
  let ?n = "NewRuntime (WithTenant tn (NewExecutionContext def '''' '''' t0)) (Some j) h k"
  have mir: "mirrors memLoad mem_ok def t ?s" for t
    by (rule mem_log.started_mirrors [OF g(2) j, unfolded runtime_cfg_simps])
  have i: "c_instance (r_ctx ?s) = iid" and r: "resting (r_ctx ?s)"
    by (simp_all add: started_def NewRuntime_def WithTenant_def NewExecutionContext_def resting_def well_formed_def undo_ok_def slot_ok_def)
  have e: "r_journalErr ?s = None" using g(3) by (simp add: started_def NewRuntime_def)
  let ?m = "modify_ctx (\<lambda>c. c\<lparr>c_instance := iid, c_execution := xid\<rparr>) (?n\<lparr>r_res := no_result\<rparr>)"
  have "?s = recordOcc (runtime_cfg m def) OccStarted (\<lambda>x. x) ?m"
    by (simp add: started_def recordOcc_def now_def NewRuntime_def)
  then have "\<exists>j'. r_journal ?s = Some j' \<and> logged (runtime_cfg m def) iid j j'"
    using recordOcc_logged [of ?m j "\<lambda>x. x" "runtime_cfg m def" OccStarted] by (simp add: NewRuntime_def)
  with mir i r e show ?thesis by (simp add: runs_def)
qed

lemma mgrStart_keeps:
  assumes m: "well_managed m" and inv: "manager_inv m s" and ev: "ev_name ev \<noteq> ''''"
    and r: "mgrStart m f d iid tn vars ev s = Some (res, e, s')"
  shows "manager_inv m s'"
proof (cases "dget (m_defs m) d")
  case None with r inv show ?thesis by (simp add: mgrStart_def)
next
  case (Some def)
  define rec where "rec = \<lparr>i_id = iid, i_def = d, i_tenant = tn, i_status = statusString StatusPending,
      i_node = '''', i_wake = None, i_created = g_clock (m_rt m) (ms_tick s), i_updated = g_clock (m_rt m) (Suc (ms_tick s))\<rparr>"
  have mc: "m_create m = memCreateInstance" using m by (simp add: well_managed_def on_memory_def)
  obtain st x where c: "memCreateInstance rec (ms_store s) = (st, x)" by fastforce
  define s1 where "s1 = s\<lparr>ms_store := st, ms_tick := ms_tick s + 4\<rparr>"
  have s1: "ms_journal s1 = ms_journal s" "ms_store s1 = st" by (simp_all add: s1_def)
  note ok = manager_invD(1,2) [OF inv]
  have lat: "memLatestSnapshot st k = memLatestSnapshot (ms_store s) k" for k
    using mem_store.create_keeps [OF ok(2), of rec k] c by simp
  show ?thesis
  proof (cases x)
    case (Some y)
    with r \<open>dget (m_defs m) d = Some def\<close> c mc have "s' = s1" by (simp add: mgrStart_def rec_def s1_def Let_def)
    moreover from mem_store.create_refused [OF ok(2) c [unfolded Some]] have
      "mem_store_ok st" "memGetInstance st k = memGetInstance (ms_store s) k" for k by auto
    ultimately show ?thesis using inv lat by (auto simp: manager_inv_def s1 intro: instance_inv_frame)
  next
    case None
    note new = mem_store.create_get [OF ok(2) c [unfolded None]]
    have rid: "i_id rec = iid" "i_def rec = d" by (simp_all add: rec_def)
    have empty: "memLoad (ms_journal s) iid = []" "isl (memLatestSnapshot (ms_store s) iid)"
      using manager_invD(3) [OF inv, of iid] new rid by (auto simp: instance_inv_def split: sum.splits)
    let ?g = "runtime_cfg m def"
    let ?n = "NewRuntime (WithTenant tn (NewExecutionContext def '''' '''' (g_clock (m_rt m) (ms_tick s + 2)))) (Some (ms_journal s)) (ms_host s1) (ms_tick s1)"
    let ?xid = "iid @ ''#'' @ show_nat (nat (g_clock (m_rt m) (ms_tick s + 3)))"
    from r \<open>dget (m_defs m) d = Some def\<close> c mc None obtain rt' where
      st: "Start ?g f iid ?xid vars ev ?n = Some rt'" and fin: "finish m (r_res rt') rec rt' s1 = (res, e, s')"
      by (auto simp: mgrStart_def rec_def s1_def Let_def bind_eq_Some_conv)
    have calm: "calm (r_ctx ?n)" by (simp add: NewRuntime_def fresh_calm)
    note l = Start_resting [OF managed_runtime(1) [OF m \<open>dget (m_defs m) d = Some def\<close>] calm ev st]
    have rt: "runs m def (i_id rec) (ms_journal s) rt'" unfolding rid
      by (rule runs_leads [OF m \<open>dget (m_defs m) d = Some def\<close> start_runs [OF m \<open>dget (m_defs m) d = Some def\<close> ok(1) empty(1)] l])
    from fin obtain e1 where sy: "syncInstance m rec rt' s1 = (e1, s')" by (auto simp: finish_def split: prod.splits)
    show ?thesis
    proof (rule sync_keeps [OF m _ ok(1) _ _ _ rt sy])
      show "dget (m_defs m) (i_def rec) = Some def" by (simp add: rid \<open>dget (m_defs m) d = Some def\<close>)
      show "mem_store_ok (ms_store s1)" using new by (simp add: s1)
      show "instance_inv m (ms_journal s) (ms_store s1) i" if "i \<noteq> i_id rec" for i
        using manager_invD(3) [OF inv, of i] new lat that by (auto simp: s1 intro: instance_inv_frame)
      show "snapshots_ok m (ms_journal s) (ms_store s1) (i_id rec) (i_def rec)"
        using empty(2) lat by (auto simp: s1 rid snapshots_ok_def)
    qed
  qed
qed

end
