(* ===== verification/Service.thy ===== *)
theory Service
  imports Guarantees Facade
begin

text \<open>
  What a host may rely on that talks to the manager only: the summaries answer for the log,
  loading is independent of snapshots, refusals change nothing, and the sweep passes over broken
  instances.
\<close>

text \<open>A run of the manager on empty in-memory stores, all events with a name.\<close>

inductive managed :: "('h, memory_journal, 'd memory_store, 'd) mgr \<Rightarrow> ('h, memory_journal, 'd memory_store) mstate \<Rightarrow> bool"
  for m where
  created: "managed m \<lparr>ms_journal = NewMemoryJournal, ms_host = h, ms_store = NewMemoryInstanceStore, ms_tick = k\<rparr>"
| started: "managed m s \<Longrightarrow> ev_name ev \<noteq> '''' \<Longrightarrow> mgrStart m f d iid tn vars ev s = Some (res, e, s') \<Longrightarrow> managed m s'"
| fed: "managed m s \<Longrightarrow> ev_name ev \<noteq> '''' \<Longrightarrow> mgrFeed m f iid ev s = Some (res, e, s') \<Longrightarrow> managed m s'"
| swept: "managed m s \<Longrightarrow> WakeDueSweep m f t limit s = Some (k, e, s') \<Longrightarrow> managed m s'"
| compensated: "managed m s \<Longrightarrow> mgrCompensate m iid s = (res, e, s') \<Longrightarrow> managed m s'"


subsection \<open>A manager on the sample process\<close>

definition sample_mgr :: "int \<Rightarrow> (memory_executor, memory_journal, ctx memory_store, ctx) mgr" where
  "sample_mgr every = \<lparr>m_defs = newManagerDefs [approval_def], m_rt = sample_cfg approval_def, m_autoCompensate = False,
     m_loadOccs = Some (\<lambda>j i. Inr (memLoad j i)), m_maxSeqOf = Some (\<lambda>j i. Inr (memMaxSeq j i)),
     m_put = memPutInstance, m_create = memCreateInstance, m_get = memGetInstance,
     m_list = (\<lambda>n t limit st. memListWakeable t limit (dkeys (st_recs st)) st),
     m_snapshots = True, m_latest = memLatestSnapshot, m_putSnap = memPutSnapshot,
     m_marshal = Inr, m_restore = Inr, m_every = every\<rparr>"

lemma sample_well_managed: "well_managed (sample_mgr n)"
proof -
  have "effect_executor memHandle" using approval_lawful by (simp add: lawful_def sample_cfg_def)
  moreover have "ids_match approval_def" using approval_lawful by (simp add: lawful_def sample_cfg_def)
  moreover have "full_range (sample_cfg approval_def)" by (simp add: full_range_def sample_cfg_def)
  moreover have "newManagerDefs [approval_def] = [(''p'', approval_def)]"
    by (simp add: newManagerDefs_def approval_def_def sample_def_def)
  ultimately show ?thesis
    by (simp add: well_managed_def on_memory_def sample_mgr_def sample_cfg_def alike_def full_range_def)
qed

definition opened :: "(memory_executor, memory_journal, ctx memory_store) mstate" where
  "opened = \<lparr>ms_journal = NewMemoryJournal, ms_host = NewInMemoryExecutor [''pay'', ''refund''],
     ms_store = NewMemoryInstanceStore, ms_tick = 0\<rparr>"

definition after_start :: "(memory_executor, memory_journal, ctx memory_store) mstate option" where
  "after_start = map_option (snd o snd) (mgrStart (sample_mgr 1) 3 ''p'' ''i'' ''t'' [] (sample_event ''e1'' ''submit'') opened)"

definition shows_record :: "string \<Rightarrow> (memory_executor, memory_journal, ctx memory_store) mstate option
    \<Rightarrow> (string \<times> string \<times> bool \<times> int) option" where
  "shows_record iid r = Option.bind r (\<lambda>s. case memGetInstance (ms_store s) iid of Inl e \<Rightarrow> None
     | Inr rec \<Rightarrow> Some (i_status rec, i_node rec, i_wake rec \<noteq> None,
         case memLatestSnapshot (ms_store s) iid of Inl e \<Rightarrow> 0 | Inr sn \<Rightarrow> sn_upto sn))"

lemma after_start_shows: "shows_record ''i'' after_start = Some (''waiting'', ''a'', True, 12)"
  by code_simp

lemma after_startE:
  obtains s rec where "after_start = Some s" "managed (sample_mgr 1) s" "memGetInstance (ms_store s) ''i'' = Inr rec"
    "i_status rec = ''waiting''" "i_node rec = ''a''"
proof -
  from after_start_shows obtain s where s0: "after_start = Some s" by (auto simp: shows_record_def bind_eq_Some_conv)
  from after_start_shows obtain rec where s: "memGetInstance (ms_store s) ''i'' = Inr rec"
    "i_status rec = ''waiting''" "i_node rec = ''a''"
    by (cases "memGetInstance (ms_store s) ''i''") (auto simp: shows_record_def s0)
  from s0 obtain res e where st: "mgrStart (sample_mgr 1) 3 ''p'' ''i'' ''t'' [] (sample_event ''e1'' ''submit'') opened = Some (res, e, s)"
    by (auto simp: after_start_def)
  have "managed (sample_mgr 1) opened" unfolding opened_def by (rule managed.created)
  then have "managed (sample_mgr 1) s" by (rule managed.started [OF _ _ st]) (simp add: sample_event_def)
  with s0 s that show ?thesis by blast
qed

subsection \<open>Properties\<close>





text \<open>C25: a refused start leaves no trace. \<open>Start\<close> returns no result exactly when the definition is
  unknown or the instance exists already; then log, host and store are as before, and
  nothing has run.\<close>

theorem start_refused:
  assumes "well_managed m" and "managed m s" and "mgrStart m f d iid tn vars ev s = Some (res, e, s')"
  shows "(res = None \<longleftrightarrow> dget (m_defs m) d = None \<or> (\<exists>rec. memGetInstance (ms_store s) iid = Inr rec)) \<and>
    (res = None \<longrightarrow> ms_journal s' = ms_journal s \<and> ms_host s' = ms_host s \<and> ms_store s' = ms_store s \<and>
      e = Some (if dget (m_defs m) d = None then ErrDefinitionUnknown d else ErrInstanceExists))"
proof -
  have mc: "m_create m = memCreateInstance" using assms(1) by (simp add: well_managed_def on_memory_def)
  show ?thesis
  proof (cases "dget (m_defs m) d")
    case None with assms(3) show ?thesis by (simp add: mgrStart_def)
  next
    case (Some def)
    show ?thesis
    proof (cases "dget (st_recs (ms_store s)) iid")
      case None
      with assms(3) mc Some obtain x where "res = Some x"
        by (auto simp: mgrStart_def memCreateInstance_def Let_def bind_eq_Some_conv finish_def split_def)
      with None Some show ?thesis by (simp add: memGetInstance_def)
    next
      case (Some r)
      with assms(3) mc \<open>dget (m_defs m) d = Some def\<close> have "res = None" "e = Some ErrInstanceExists"
        "ms_journal s' = ms_journal s" "ms_host s' = ms_host s" "ms_store s' = ms_store s"
        by (auto simp: mgrStart_def memCreateInstance_def Let_def)
      with Some \<open>dget (m_defs m) d = Some def\<close> show ?thesis by (simp add: memGetInstance_def)
    qed
  qed
qed

theorem start_refused_witness:
  "\<exists>s. after_start = Some s \<and>
    (\<forall>res e s'. mgrStart (sample_mgr 1) 3 ''p'' ''i'' ''u'' [] (sample_event ''e9'' ''submit'') s = Some (res, e, s') \<longrightarrow>
      e = Some ErrInstanceExists \<and> ms_journal s' = ms_journal s)"
proof -
  obtain s rec where s: "after_start = Some s" "managed (sample_mgr 1) s" "memGetInstance (ms_store s) ''i'' = Inr rec"
    by (rule after_startE)
  have d: "dget (m_defs (sample_mgr 1)) ''p'' \<noteq> None"
    by (simp add: sample_mgr_def newManagerDefs_def approval_def_def sample_def_def)
  have "e = Some ErrInstanceExists \<and> ms_journal s' = ms_journal s"
    if "mgrStart (sample_mgr 1) 3 ''p'' ''i'' ''u'' [] (sample_event ''e9'' ''submit'') s = Some (res, e, s')" for res e s'
    using start_refused [OF sample_well_managed s(2) that] s(3) d by simp
  with s(1) show ?thesis by blast
qed

text \<open>C26: what \<open>ListWakeable\<close> returns. Every summary listed is stored, waiting and due; there is no
  more than the limit; they come in the order of their IDs; and when the limit did not cut
  the listing short, no due instance is missing.\<close>

theorem wakeable_listing:
  assumes "mem_store_ok st" and "set ks = set (dkeys (st_recs st))" and "memListWakeable t limit ks st = Inr out"
  shows "sorted (map i_id out) \<and> (\<forall>r \<in> set out. wakeable t r \<and> memGetInstance st (i_id r) = Inr r) \<and>
    (0 < limit \<longrightarrow> int (length out) \<le> limit) \<and>
    (limit \<le> 0 \<or> int (length out) < limit \<longrightarrow> (\<forall>k r. memGetInstance st k = Inr r \<and> wakeable t r \<longrightarrow> r \<in> set out))"
proof -
  let ?l = "filter_loop (wakeable t) limit (st_recs st) ks []"
  from assms(3) have out: "out = sort_key i_id ?l" by (simp add: memListWakeable_def memFilter_def)
  have "wakeable t r \<and> memGetInstance st (i_id r) = Inr r" if "r \<in> set out" for r
    using filter_loop_sound [of r "wakeable t" limit "st_recs st" ks "[]"] that assms(1)
    by (auto simp: out memGetInstance_def mem_store_ok_def)
  moreover have "int (length out) \<le> limit" if "0 < limit"
    using filter_loop_bound [of limit "[]" "wakeable t" "st_recs st" ks] that by (simp add: out)
  moreover have "r \<in> set out" if l: "limit \<le> 0 \<or> int (length out) < limit" and r: "memGetInstance st k = Inr r" "wakeable t r" for k r
  proof -
    from r(1) have d: "dget (st_recs st) k = Some r" by (simp add: memGetInstance_def split: option.splits)
    then have "k \<in> set ks" using assms(2) by (metis dget_eq_None_iff option.distinct(1))
    with filter_loop_complete [of limit "wakeable t" "st_recs st" ks "[]" k r] d r(2) l show ?thesis by (simp add: out)
  qed
  ultimately show ?thesis by (auto simp: out)
qed

definition two_due :: "ctx memory_store" where
  "two_due = \<lparr>st_recs = map (\<lambda>(k, u). (k, \<lparr>i_id = k, i_def = ''p'', i_tenant = '''', i_status = ''waiting'',
     i_node = ''a'', i_wake = Some u, i_created = 0, i_updated = 0\<rparr>)) [(''b'', 9), (''a'', 3)], st_snaps = []\<rparr>"

theorem wakeable_listing_witness:
  "\<exists>out. memListWakeable 10 0 [''b'', ''a''] two_due = Inr out \<and> sorted (map i_id out) \<and>
    (\<forall>k r. memGetInstance two_due k = Inr r \<and> wakeable 10 r \<longrightarrow> r \<in> set out)"
proof -
  have ok: "mem_store_ok two_due" by (auto simp: mem_store_ok_def two_due_def split: if_splits)
  have ks: "set [''b'', ''a''] = set (dkeys (st_recs two_due))" by (simp add: two_due_def)
  obtain out where out: "memListWakeable 10 0 [''b'', ''a''] two_due = Inr out" by (simp add: memListWakeable_def)
  from wakeable_listing [OF ok ks out] out show ?thesis by auto
qed

text \<open>The listing is not by time. Of two due instances and a limit of one, the in-memory store may
  return the one due later, whatever the interface says of ascending \<open>WakeUpAt\<close>.\<close>

theorem wakeable_out_of_order:
  "\<exists>out r r'. memListWakeable 10 1 [''b'', ''a''] two_due = Inr out \<and> out = [r] \<and>
    memGetInstance two_due ''a'' = Inr r' \<and> wakeable 10 r' \<and> i_wake r = Some 9 \<and> i_wake r' = Some 3"
  by (intro exI conjI) (code_simp)+

end
