(* ===== verification/Json.thy ===== *)
theory Json
  imports Types
begin

text \<open>
  JSON: values, the text that \<open>encoding/json\<close> writes for a string, and the canonical text of
  \<open>src/dsl/registry.go\<close> (\<open>canonicalJSON\<close>), on which the hashes of versions and evidence rest.
  The theorem of this theory is that the canonical text determines the value up to the order of
  the keys of its objects.
\<close>

subsection \<open>Mapping with errors\<close>

fun traverse :: "('a \<Rightarrow> 'e + 'b) \<Rightarrow> 'a list \<Rightarrow> 'e + 'b list" where
  "traverse f [] = Inr []"
| "traverse f (x # xs) =
     (case f x of Inl e \<Rightarrow> Inl e
      | Inr y \<Rightarrow> (case traverse f xs of Inl e \<Rightarrow> Inl e | Inr ys \<Rightarrow> Inr (y # ys)))"

lemma traverse_cong [fundef_cong]:
  "xs = ys \<Longrightarrow> (\<And>x. x \<in> set ys \<Longrightarrow> f x = g x) \<Longrightarrow> traverse f xs = traverse g ys"
  by (induction ys arbitrary: xs) (auto split: sum.splits)

lemma traverse_Inr: "traverse f xs = Inr ys \<longleftrightarrow> list_all2 (\<lambda>x y. f x = Inr y) xs ys"
proof (induction xs arbitrary: ys)
  case (Cons x xs)
  show ?case by (cases "f x"; cases "traverse f xs") (auto simp: list_all2_Cons1 Cons.IH [symmetric])
qed auto

lemma map_sum_Inr [simp]: "map_sum id f x = Inr y \<longleftrightarrow> (\<exists>z. x = Inr z \<and> y = f z)"
  by (cases x) auto

lemma traverse_id: "(\<And>x. x \<in> set xs \<Longrightarrow> f x = Inr x) \<Longrightarrow> traverse f xs = Inr xs"
  by (induction xs) auto

subsection \<open>Values\<close>

text \<open>What \<open>Decode\<close> with \<open>UseNumber\<close> produces: a number is its literal.\<close>

datatype json =
    JNull
  | JBool bool
  | JNum string
  | JStr string
  | JArr "json list"
  | JObj "json dict"

subsection \<open>Numbers\<close>

text \<open>\<open>isValidNumber\<close> of \<open>encoding/json\<close>: the literals that \<open>Marshal\<close> accepts.\<close>

definition digit :: "char \<Rightarrow> bool" where
  "digit c \<longleftrightarrow> CHR ''0'' \<le> c \<and> c \<le> CHR ''9''"

definition valid_exponent :: "string \<Rightarrow> bool" where
  "valid_exponent s = (case s of [] \<Rightarrow> True
     | c # cs \<Rightarrow> (c = CHR ''e'' \<or> c = CHR ''E'') \<and>
         (case cs of [] \<Rightarrow> False
          | d # ds \<Rightarrow> if d = CHR ''+'' \<or> d = CHR ''-'' then ds \<noteq> [] \<and> list_all digit ds else list_all digit (d # ds)))"

definition valid_fraction :: "string \<Rightarrow> bool" where
  "valid_fraction s = (case s of [] \<Rightarrow> True
     | c # cs \<Rightarrow> if c = CHR ''.''
         then takeWhile digit cs \<noteq> [] \<and> valid_exponent (dropWhile digit cs) else valid_exponent (c # cs))"

definition valid_unsigned :: "string \<Rightarrow> bool" where
  "valid_unsigned s = (case s of [] \<Rightarrow> False
     | c # cs \<Rightarrow> if c = CHR ''0'' then valid_fraction cs
         else digit c \<and> valid_fraction (dropWhile digit cs))"

definition isValidNumber :: "string \<Rightarrow> bool" where
  "isValidNumber s = (case s of [] \<Rightarrow> False
     | c # cs \<Rightarrow> if c = CHR ''-'' then valid_unsigned cs else valid_unsigned (c # cs))"

definition number_char :: "char \<Rightarrow> bool" where
  "number_char c \<longleftrightarrow> digit c \<or> c \<in> set ''+-.eE''"

subsection \<open>Strings\<close>

definition hexdigit :: "nat \<Rightarrow> char" where
  "hexdigit n = ''0123456789abcdef'' ! n"

definition u00 :: "char \<Rightarrow> string" where
  "u00 c = [CHR 0x5C, CHR ''u'', CHR ''0'', CHR ''0'', hexdigit (of_char c div 16), hexdigit (of_char c mod 16)]"

text \<open>
  \<open>Marshal\<close> of a string of valid UTF-8, byte by byte: quotes, backslashes, control characters and
  the three characters of HTML are escaped, and the two line separators U+2028 and U+2029, whose
  bytes are E2 80 A8 and E2 80 A9.
\<close>

definition escapeChar :: "char \<Rightarrow> string" where
  "escapeChar c =
     (if c = CHR 0x22 \<or> c = CHR 0x5C then [CHR 0x5C, c]
      else if c = CHR 0x0A then [CHR 0x5C, CHR ''n'']
      else if c = CHR 0x0D then [CHR 0x5C, CHR ''r'']
      else if c = CHR 0x09 then [CHR 0x5C, CHR ''t'']
      else if c = CHR 0x08 then [CHR 0x5C, CHR ''b'']
      else if c = CHR 0x0C then [CHR 0x5C, CHR ''f'']
      else if c < CHR 0x20 \<or> c = CHR ''<'' \<or> c = CHR ''>'' \<or> c = CHR ''&'' then u00 c
      else [c])"

fun jsonEscape :: "string \<Rightarrow> string" where
  "jsonEscape (c # d # e # cs) =
     (if c = CHR 0xE2 \<and> d = CHR 0x80 \<and> (e = CHR 0xA8 \<or> e = CHR 0xA9)
      then [CHR 0x5C] @ ''u202'' @ [if e = CHR 0xA8 then CHR ''8'' else CHR ''9''] @ jsonEscape cs
      else escapeChar c @ jsonEscape (d # e # cs))"
| "jsonEscape (c # cs) = escapeChar c @ jsonEscape cs"
| "jsonEscape [] = []"

definition jsonQuote :: "string \<Rightarrow> string" where
  "jsonQuote s = [CHR 0x22] @ jsonEscape s @ [CHR 0x22]"

text \<open>Reading it back: the string and what follows the closing quote.\<close>

definition hexvalue :: "char \<Rightarrow> nat" where
  "hexvalue c = (if digit c then of_char c - 48 else of_char c - 87)"

fun unquote :: "string \<Rightarrow> (string \<times> string) option" where
  "unquote (c # cs) =
     (if c = CHR 0x22 then Some ([], cs)
      else if c = CHR 0x5C then
        (case cs of
           [] \<Rightarrow> None
         | d # ds \<Rightarrow>
             if d = CHR ''u'' then
               (case ds of
                  a # b # h # l # es \<Rightarrow>
                    map_option (\<lambda>(s, r). ((if a = CHR ''2'' then [CHR 0xE2, CHR 0x80, if l = CHR ''8'' then CHR 0xA8 else CHR 0xA9]
                                          else [char_of (hexvalue h * 16 + hexvalue l)]) @ s, r)) (unquote es)
                | _ \<Rightarrow> None)
             else map_option (\<lambda>(s, r). ((if d = CHR ''n'' then CHR 0x0A else if d = CHR ''r'' then CHR 0x0D
                    else if d = CHR ''t'' then CHR 0x09 else if d = CHR ''b'' then CHR 0x08
                    else if d = CHR ''f'' then CHR 0x0C else d) # s, r)) (unquote ds))
      else map_option (\<lambda>(s, r). (c # s, r)) (unquote cs))"
| "unquote [] = None"

lemma less_16_cases: "(n::nat) < 16 \<Longrightarrow>
    n < 10 \<or> n = 10 \<or> n = 11 \<or> n = 12 \<or> n = 13 \<or> n = 14 \<or> n = 15"
  by arith

lemma hexvalue_hexdigit: "n < 16 \<Longrightarrow> hexvalue (hexdigit n) = n"
  by (drule less_16_cases) (auto simp: hexvalue_def hexdigit_def digit_def less_eq_char_def dest!: less_10_cases)

lemma u00_reads: "char_of (hexvalue (hexdigit (of_char c div 16)) * 16 + hexvalue (hexdigit (of_char c mod 16))) = c"
proof -
  have "of_char c < (256 :: nat)" by simp
  then have "of_char c div 16 < (16 :: nat)" by (intro less_mult_imp_div_less) simp
  then show ?thesis by (simp add: hexvalue_hexdigit)
qed

lemma unquote_char: "unquote (escapeChar c @ x) = map_option (\<lambda>(s, r). (c # s, r)) (unquote x)"
proof (cases "c < CHR 0x20 \<or> c = CHR ''<'' \<or> c = CHR ''>'' \<or> c = CHR ''&''")
  case True
  then show ?thesis by (simp add: escapeChar_def u00_def u00_reads)
next
  case False
  then show ?thesis by (simp add: escapeChar_def)
qed

lemma unquote_escape: "unquote (jsonEscape s @ CHR 0x22 # r) = Some (s, r)"
  by (induction s rule: jsonEscape.induct) (simp_all add: unquote_char)

lemma jsonQuote_inject: "jsonQuote s @ r = jsonQuote s' @ r' \<longleftrightarrow> s = s' \<and> r = r'"
proof
  assume "jsonQuote s @ r = jsonQuote s' @ r'"
  then have "unquote (jsonEscape s @ CHR 0x22 # r) = unquote (jsonEscape s' @ CHR 0x22 # r')" by (simp add: jsonQuote_def)
  then show "s = s' \<and> r = r'" by (simp only: unquote_escape) simp
qed simp

subsection \<open>The canonical text\<close>

definition joinComma :: "string list \<Rightarrow> string" where
  "joinComma ts = (case ts of [] \<Rightarrow> [] | x # xs \<Rightarrow> x @ concat (map (\<lambda>y. CHR '','' # y) xs))"

lemma size_entry: "(k, v) \<in> set d \<Longrightarrow> size (v :: json) < Suc (size_list (size_prod (\<lambda>x. 0) size) d)"
  by (induction d) (auto simp: less_Suc_eq)

function canonicalJSON :: "json \<Rightarrow> err + string" where
  "canonicalJSON JNull = Inr ''null''"
| "canonicalJSON (JBool b) = Inr (if b then ''true'' else ''false'')"
| "canonicalJSON (JNum s) =
     (let n = (if s = [] then ''0'' else s)
      in if isValidNumber n then Inr n else Inl (EText (''json: invalid number literal '' @ n)))"
| "canonicalJSON (JStr s) = Inr (jsonQuote s)"
| "canonicalJSON (JArr vs) = map_sum id (\<lambda>ts. ''['' @ joinComma ts @ '']'') (traverse canonicalJSON vs)"
| "canonicalJSON (JObj d) =
     map_sum id (\<lambda>ts. ''{'' @ joinComma ts @ ''}'')
       (traverse (\<lambda>(k, v). map_sum id (\<lambda>t. jsonQuote k @ '':'' @ t) (canonicalJSON v)) (sort_key fst d))"
  by pat_completeness auto

termination
proof (relation "measure size")
  show "(v, JArr vs) \<in> measure size" if "v \<in> set vs" for v and vs :: "json list"
    using that by (induction vs) auto
  show "(v, JObj d) \<in> measure size" if "kv \<in> set (sort_key fst d)" "(k, v) = kv" for v k kv and d :: "json dict"
    using that size_entry [of k v d] by simp
qed simp

text \<open>What a decoder produces: valid numbers, and objects whose keys are distinct.\<close>

fun decoded :: "json \<Rightarrow> bool" where
  "decoded (JNum s) = isValidNumber s"
| "decoded (JArr vs) = list_all decoded vs"
| "decoded (JObj d) = (distinct (dkeys d) \<and> list_all (\<lambda>(k, v). decoded v) d)"
| "decoded _ = True"

text \<open>The same value with the keys of every object in order, and its text.\<close>

fun normal :: "json \<Rightarrow> json" where
  "normal (JArr vs) = JArr (map normal vs)"
| "normal (JObj d) = JObj (sort_key fst (map (\<lambda>(k, v). (k, normal v)) d))"
| "normal v = v"

fun text_of :: "json \<Rightarrow> string" where
  "text_of JNull = ''null''"
| "text_of (JBool b) = (if b then ''true'' else ''false'')"
| "text_of (JNum s) = s"
| "text_of (JStr s) = jsonQuote s"
| "text_of (JArr vs) = ''['' @ joinComma (map text_of vs) @ '']''"
| "text_of (JObj d) = ''{'' @ joinComma (map (\<lambda>(k, v). jsonQuote k @ '':'' @ text_of v) d) @ ''}''"

fun numbers_ok :: "json \<Rightarrow> bool" where
  "numbers_ok (JNum s) = isValidNumber s"
| "numbers_ok (JArr vs) = list_all numbers_ok vs"
| "numbers_ok (JObj d) = list_all (\<lambda>(k, v). numbers_ok v) d"
| "numbers_ok JNull = True"
| "numbers_ok (JBool b) = True"
| "numbers_ok (JStr s) = True"

lemma traverse_total: "(\<And>x. x \<in> set xs \<Longrightarrow> f x = Inr (g x)) \<Longrightarrow> traverse f xs = Inr (map g xs)"
  by (induction xs) auto

lemma sort_key_map_entry:
  "sort_key fst (map (\<lambda>p. (fst p, h (snd p))) d) = map (\<lambda>p. (fst p, h (snd p))) (sort_key fst (d :: 'v dict))"
proof -
  have ins: "insort_key fst (fst x, h (snd x)) (map (\<lambda>p. (fst p, h (snd p))) xs) =
      map (\<lambda>p. (fst p, h (snd p))) (insort_key fst x xs)" for x and xs :: "'v dict" by (induction xs) auto
  show ?thesis by (induction d) (auto simp: ins)
qed

lemma canonicalJSON_text: "decoded v \<Longrightarrow> canonicalJSON v = Inr (text_of (normal v))"
proof (induction v rule: canonicalJSON.induct)
  case (3 s)
  then show ?case by (auto simp: isValidNumber_def)
next
  case (5 vs)
  then have "traverse canonicalJSON vs = Inr (map (\<lambda>v. text_of (normal v)) vs)"
    by (intro traverse_total) (auto simp: list_all_iff)
  then show ?case by (simp add: comp_def)
next
  case (6 d)
  have "canonicalJSON v = Inr (text_of (normal v))" if "(k, v) \<in> set d" for k v
    using that 6 by (fastforce simp: list_all_iff)
  then have "traverse (\<lambda>(k, v). map_sum id (\<lambda>t. jsonQuote k @ '':'' @ t) (canonicalJSON v)) (sort_key fst d) =
      Inr (map (\<lambda>(k, v). jsonQuote k @ '':'' @ text_of (normal v)) (sort_key fst d))"
    by (intro traverse_total) auto
  then show ?case by (simp add: sort_key_map_entry comp_def split_def)
qed simp_all

lemma normal_numbers: "decoded v \<Longrightarrow> numbers_ok (normal v)"
  by (induction v rule: decoded.induct) (fastforce simp: list_all_iff)+

subsection \<open>The text determines the value\<close>

text \<open>What can follow a value: nothing, or a separator.\<close>

definition delim :: "string \<Rightarrow> bool" where
  "delim r \<longleftrightarrow> r = [] \<or> hd r = CHR '','' \<or> hd r = CHR '']'' \<or> hd r = CHR ''}''"

lemma number_chars: "isValidNumber s \<Longrightarrow> s \<noteq> [] \<and> list_all number_char s"
proof -
  have dg: "list_all digit xs \<Longrightarrow> list_all number_char xs" for xs by (auto simp: list_all_iff number_char_def)
  have split: "list_all number_char (dropWhile digit xs) \<Longrightarrow> list_all number_char xs" for xs
    by (induction xs) (auto simp: number_char_def split: if_splits)
  have ex: "valid_exponent xs \<Longrightarrow> list_all number_char xs" for xs
    by (auto simp: valid_exponent_def number_char_def list_all_iff split: list.splits if_splits)
  have fr: "valid_fraction xs \<Longrightarrow> list_all number_char xs" for xs
    by (auto simp: valid_fraction_def number_char_def dest: ex [THEN split] ex split: list.splits if_splits)
  have un: "valid_unsigned xs \<Longrightarrow> list_all number_char xs" for xs
    by (auto simp: valid_unsigned_def number_char_def digit_def dest: fr [THEN split] fr split: list.splits if_splits)
  assume "isValidNumber s"
  then show ?thesis
    by (auto simp: isValidNumber_def number_char_def dest: un split: list.splits if_splits)
qed

lemma number_char_not: "number_char c \<Longrightarrow> c \<noteq> CHR '','' \<and> c \<noteq> CHR '']'' \<and> c \<noteq> CHR ''}'' \<and> c \<noteq> CHR ''n'' \<and>
    c \<noteq> CHR ''t'' \<and> c \<noteq> CHR ''f'' \<and> c \<noteq> CHR 0x22 \<and> c \<noteq> CHR ''['' \<and> c \<noteq> CHR ''{''"
  by (auto simp: number_char_def digit_def less_eq_char_def)

text \<open>Text that a reader can split off a longer one.\<close>

definition splits :: "('a \<Rightarrow> string) \<Rightarrow> 'a \<Rightarrow> 'a \<Rightarrow> bool" where
  "splits f x y \<longleftrightarrow> (\<forall>r r'. delim r \<longrightarrow> delim r' \<longrightarrow> f x @ r = f y @ r' \<longrightarrow> x = y \<and> r = r')"

lemma splitsD: "splits f x y \<Longrightarrow> f x @ r = f y @ r' \<Longrightarrow> delim r \<Longrightarrow> delim r' \<Longrightarrow> x = y \<and> r = r'"
  by (simp add: splits_def)

lemma joinComma_Cons: "joinComma (t # ts) @ c # r = t @ (if ts = [] then c # r else CHR '','' # joinComma ts @ c # r)"
  by (cases ts) (simp_all add: joinComma_def)

lemma joinComma_Nil: "joinComma [] = []"
  by (simp add: joinComma_def)

lemma joinComma_stop:
  assumes "\<not> delim t" and "c = CHR '']'' \<or> c = CHR ''}''"
  shows "joinComma (t # ts) @ d # r \<noteq> c # r'"
  unfolding joinComma_Cons using assms by (cases t) (auto simp: delim_def)

lemma joinComma_inject:
  assumes c: "c = CHR '']'' \<or> c = CHR ''}''"
  shows "\<forall>x \<in> set xs \<union> set ys. \<not> delim (f x) \<Longrightarrow> \<forall>x \<in> set xs. \<forall>y \<in> set ys. splits f x y
    \<Longrightarrow> joinComma (map f xs) @ c # r = joinComma (map f ys) @ c # r' \<Longrightarrow> xs = ys \<and> r = r'"
proof (induction xs arbitrary: ys)
  case Nil
  show ?case
  proof (cases ys)
    case (Cons y ys')
    then have "\<not> delim (f y)" using Nil by simp
    from joinComma_stop [OF this c, of "map f ys'" c r' r] Nil(3) show ?thesis by (simp add: Cons joinComma_Nil)
  qed (use Nil(3) in \<open>simp add: joinComma_Nil\<close>)
next
  case (Cons x xs)
  show ?case
  proof (cases ys)
    case Nil
    with Cons.prems joinComma_stop [OF _ c, of "f x" "map f xs" c r r'] show ?thesis by (simp add: joinComma_Nil)
  next
    case (Cons y ys')
    let ?tl = "\<lambda>zs r. if zs = [] then c # r else CHR '','' # joinComma (map f zs) @ c # r"
    have eq: "f x @ ?tl xs r = f y @ ?tl ys' r'" using Cons.prems(3) by (simp add: Cons joinComma_Cons)
    have "delim (?tl xs r)" "delim (?tl ys' r')" using c by (auto simp: delim_def)
    moreover have "splits f x y" using Cons.prems(2) Cons by simp
    ultimately have "x = y \<and> ?tl xs r = ?tl ys' r'" using splitsD [of f x y "?tl xs r" "?tl ys' r'"] eq by blast
    then have xy: "x = y" and tl: "?tl xs r = ?tl ys' r'" by blast+
    have "xs = ys' \<and> r = r'"
    proof (cases "xs = [] \<or> ys' = []")
      case True
      with tl c show ?thesis by (auto split: if_splits)
    next
      case False
      with tl have "joinComma (map f xs) @ c # r = joinComma (map f ys') @ c # r'" by simp
      moreover have "\<forall>z \<in> set xs \<union> set ys'. \<not> delim (f z)" "\<forall>x \<in> set xs. \<forall>y \<in> set ys'. splits f x y"
        using Cons.prems(1,2) Cons by simp_all
      ultimately show ?thesis by (intro Cons.IH)
    qed
    with xy Cons show ?thesis by simp
  qed
qed

lemma text_starts: "numbers_ok v \<Longrightarrow> \<not> delim (text_of v)"
proof (cases v)
  case (JNum s)
  assume "numbers_ok v"
  with JNum number_chars [of s] show ?thesis by (cases s) (auto simp: delim_def dest: number_char_not)
qed (auto simp: delim_def jsonQuote_def)

lemma numbers_split: "isValidNumber s \<Longrightarrow> isValidNumber s' \<Longrightarrow> s @ r = s' @ r' \<Longrightarrow> delim r \<Longrightarrow> delim r' \<Longrightarrow> s = s' \<and> r = r'"
proof -
  have tw: "takeWhile number_char (s @ r) = s" if "isValidNumber s" "delim r" for s r
    using number_chars [OF that(1)] that(2)
    by (cases r) (auto simp: takeWhile_append list_all_iff delim_def dest: number_char_not)
  assume "isValidNumber s" "isValidNumber s'" "s @ r = s' @ r'" "delim r" "delim r'"
  with tw [of s r] tw [of s' r'] show ?thesis by simp
qed

text \<open>The first character tells the constructor.\<close>

fun tag :: "json \<Rightarrow> nat" where
  "tag JNull = 0" | "tag (JBool b) = 1" | "tag (JNum s) = 2" | "tag (JStr s) = 3" | "tag (JArr vs) = 4" | "tag (JObj d) = 5"

definition tag_char :: "char \<Rightarrow> nat" where
  "tag_char c = (if c = CHR ''n'' then 0 else if c = CHR ''t'' \<or> c = CHR ''f'' then 1 else if c = CHR 0x22 then 3
     else if c = CHR ''['' then 4 else if c = CHR ''{'' then 5 else 2)"

lemma number_tag: "number_char c \<Longrightarrow> tag_char c = 2"
  by (simp add: tag_char_def number_char_not)

lemma text_tag: "numbers_ok v \<Longrightarrow> text_of v \<noteq> [] \<and> tag_char (hd (text_of v)) = tag v"
proof (cases v)
  case (JNum s)
  assume "numbers_ok v"
  with JNum number_chars [of s] show ?thesis by (cases s) (simp_all add: number_tag)
qed (simp_all add: tag_char_def jsonQuote_def)

lemma tags_agree: "numbers_ok v \<Longrightarrow> numbers_ok w \<Longrightarrow> text_of v @ r = text_of w @ r' \<Longrightarrow> tag v = tag w"
  using text_tag [of v] text_tag [of w] by (metis hd_append2)

lemma entry_splits:
  "splits text_of v w \<Longrightarrow> splits (\<lambda>(k, v). jsonQuote k @ '':'' @ text_of v) (k, v) (k', w)"
  by (auto simp: splits_def jsonQuote_inject)

lemma splitsI:
  assumes "numbers_ok v" "numbers_ok w"
    and "\<And>r r'. tag v = tag w \<Longrightarrow> delim r \<Longrightarrow> delim r' \<Longrightarrow> text_of v @ r = text_of w @ r' \<Longrightarrow> v = w \<and> r = r'"
  shows "splits text_of v w"
  unfolding splits_def using assms tags_agree by blast

lemma text_splits: "numbers_ok v \<Longrightarrow> numbers_ok w \<Longrightarrow> splits text_of v w"
proof (induction v arbitrary: w rule: numbers_ok.induct)
  case (1 s)
  show ?case
  proof (rule splitsI [OF 1])
    fix r r' assume a: "tag (JNum s) = tag w" "delim r" "delim r'" "text_of (JNum s) @ r = text_of w @ r'"
    then obtain s' where "w = JNum s'" by (cases w) auto
    with a 1 numbers_split [of s s' r r'] show "JNum s = w \<and> r = r'" by simp
  qed
next
  case (2 vs)
  show ?case
  proof (rule splitsI [OF 2(2,3)])
    fix r r' assume a: "tag (JArr vs) = tag w" "delim r" "delim r'" "text_of (JArr vs) @ r = text_of w @ r'"
    then obtain ws where w: "w = JArr ws" by (cases w) auto
    have "vs = ws \<and> r = r'"
    proof (rule joinComma_inject [where f = text_of and c = "CHR '']''"])
      show "joinComma (map text_of vs) @ CHR '']'' # r = joinComma (map text_of ws) @ CHR '']'' # r'"
        using a(4) by (simp add: w)
      show "\<forall>x \<in> set vs \<union> set ws. \<not> delim (text_of x)"
        using 2(2,3) w by (auto simp: list_all_iff text_starts)
      show "\<forall>x \<in> set vs. \<forall>y \<in> set ws. splits text_of x y"
        using 2 w by (auto simp: list_all_iff)
    qed simp
    with w show "JArr vs = w \<and> r = r'" by simp
  qed
next
  case (3 d)
  show ?case
  proof (rule splitsI [OF 3(2,3)])
    let ?f = "\<lambda>(k, v). jsonQuote k @ '':'' @ text_of v"
    fix r r' assume a: "tag (JObj d) = tag w" "delim r" "delim r'" "text_of (JObj d) @ r = text_of w @ r'"
    then obtain d' where w: "w = JObj d'" by (cases w) auto
    have "d = d' \<and> r = r'"
    proof (rule joinComma_inject [where f = ?f and c = "CHR ''}''"])
      show "joinComma (map ?f d) @ CHR ''}'' # r = joinComma (map ?f d') @ CHR ''}'' # r'" using a(4) by (simp add: w)
      show "\<forall>x \<in> set d \<union> set d'. \<not> delim (?f x)" by (auto simp: delim_def jsonQuote_def)
      show "\<forall>x \<in> set d. \<forall>y \<in> set d'. splits ?f x y"
      proof (intro ballI)
        fix x y assume that: "x \<in> set d" "y \<in> set d'"
        obtain k v where x: "x = (k, v)" by (cases x)
        obtain k' v' where y: "y = (k', v')" by (cases y)
        have "numbers_ok v" "numbers_ok v'" using that 3(2,3) w x y by (auto simp: list_all_iff)
        with 3(1) [of x k v v'] that x show "splits ?f x y" unfolding x y by (intro entry_splits) auto
      qed
    qed simp
    with w show "JObj d = w \<and> r = r'" by simp
  qed
next
  case 4 then show ?case by (rule splitsI) (cases w; simp)
next
  case (5 b) then show ?case by (rule splitsI) (cases w; auto split: if_splits)
next
  case (6 s) then show ?case by (rule splitsI) (cases w; auto simp: jsonQuote_inject)
qed

lemma text_inject: "numbers_ok v \<Longrightarrow> numbers_ok w \<Longrightarrow> text_of v = text_of w \<Longrightarrow> v = w"
  using splitsD [OF text_splits, of v w "[]" "[]"] by (simp add: delim_def)

lemma canonical_inject:
  "decoded v \<Longrightarrow> decoded w \<Longrightarrow> canonicalJSON v = canonicalJSON w \<longleftrightarrow> normal v = normal w"
  using text_inject [of "normal v" "normal w"] by (auto simp: canonicalJSON_text normal_numbers)

text \<open>C29: the canonical text is canonical. Two decoded values have one canonical text exactly when they
  are the same value, the order of the keys of their objects aside. So neither the escapes of
  strings, nor adjacent numbers, nor nesting can make two contents look alike to a hash.\<close>

theorem canonical_text_exact:
  assumes "decoded v" and "decoded w"
  shows "canonicalJSON v = canonicalJSON w \<longleftrightarrow> normal v = normal w"
  by (rule canonical_inject [OF assms])

theorem canonical_text_exact_witness:
  "canonicalJSON (JObj [(''b'', JNum ''1''), (''a'', JArr [JStr ''x'', JNull])]) =
     canonicalJSON (JObj [(''a'', JArr [JStr ''x'', JNull]), (''b'', JNum ''1'')]) \<and>
   canonicalJSON (JArr [JNum ''1'', JNum ''2'']) \<noteq> canonicalJSON (JArr [JNum ''12''])"
proof -
  have one: "isValidNumber ''1''" "isValidNumber ''2''" "isValidNumber ''12''" by code_simp+
  have "normal (JObj [(''b'', JNum ''1''), (''a'', JArr [JStr ''x'', JNull])]) =
      normal (JObj [(''a'', JArr [JStr ''x'', JNull]), (''b'', JNum ''1'')])" by code_simp
  then show ?thesis
    using canonical_text_exact [of "JObj [(''b'', JNum ''1''), (''a'', JArr [JStr ''x'', JNull])]"
        "JObj [(''a'', JArr [JStr ''x'', JNull]), (''b'', JNum ''1'')]"]
      canonical_text_exact [of "JArr [JNum ''1'', JNum ''2'']" "JArr [JNum ''12'']"] one by simp
qed

end
