(* ===== verification/Savepoint.thy ===== *)
theory Savepoint
  imports Samples Json
begin

text \<open>
  The savepoint of a context (the second half of \<open>src/dsl/context.go\<close>): \<open>MarshalJSON\<close> writes a
  shadow structure, \<open>UnmarshalJSON\<close> reads it back. What \<open>encoding/json\<close> does to the shadow on the
  way is \<open>json_trip\<close>: declared fields come back as they are, values of interface type come back
  as what JSON can say of them.
\<close>

subsection \<open>Values of interface type\<close>

text \<open>
  A number comes back as a \<open>float64\<close>: \<open>rnd\<close> rounds an integer as \<open>strconv.ParseFloat\<close> does.
  A value of any other dynamic type is encoded by reflection, if it can be, and comes back as a
  plain JSON value: \<open>other\<close>.
\<close>

fun jsonVal :: "(int \<Rightarrow> rat) \<Rightarrow> (string \<Rightarrow> err + val) \<Rightarrow> val \<Rightarrow> err + val" where
  "jsonVal rnd other VNil = Inr VNil"
| "jsonVal rnd other (VBool b) = Inr (VBool b)"
| "jsonVal rnd other (VInt i) = Inr (VFloat (rnd i))"
| "jsonVal rnd other (VFloat q) = Inr (VFloat q)"
| "jsonVal rnd other (VStr s) = Inr (VStr s)"
| "jsonVal rnd other (VList vs) = map_sum id VList (traverse (jsonVal rnd other) vs)"
| "jsonVal rnd other (VObj kvs) =
     map_sum id VObj (traverse (\<lambda>(k, v). map_sum id (Pair k) (jsonVal rnd other v)) kvs)"
| "jsonVal rnd other (VOther s) = other s"

definition jsonEnv :: "(int \<Rightarrow> rat) \<Rightarrow> (string \<Rightarrow> err + val) \<Rightarrow> env \<Rightarrow> err + env" where
  "jsonEnv rnd other = traverse (\<lambda>(k, v). map_sum id (Pair k) (jsonVal rnd other v))"

subsection \<open>The shadow structure\<close>

record result_json =
  rj_command :: string
  rj_status :: string
  rj_error :: "err option"
  rj_outcome :: env

record ctx_json =
  cj_process :: string
  cj_definition :: string
  cj_instance :: string
  cj_execution :: string
  cj_tenant :: string
  cj_node :: string
  cj_status :: string
  cj_vars :: env
  cj_meta :: "string dict"
  cj_event :: "event option"
  cj_scopes :: "parallel_scope list"
  cj_waitings :: "waiting_state dict"
  cj_results :: "result_json list"
  cj_undo :: "undo_entry list"
  cj_visits :: "nat dict"
  cj_attempt :: int
  cj_started :: int
  cj_updated :: int
  cj_completed :: int
  cj_processed :: "int dict"

text \<open>An error is written as its text, and an empty text is read as no error.\<close>

definition resultsToJSON :: "effect_result list \<Rightarrow> result_json list" where
  "resultsToJSON = map (\<lambda>r. \<lparr>rj_command = sr_command r, rj_status = sr_status r, rj_error = errText (sr_error r),
     rj_outcome = sr_outcome r\<rparr>)"

definition resultsFromJSON :: "result_json list \<Rightarrow> effect_result list" where
  "resultsFromJSON = map (\<lambda>r. \<lparr>sr_command = rj_command r, sr_status = rj_status r, sr_error = rj_error r,
     sr_outcome = rj_outcome r, sr_permanent = False\<rparr>)"

definition contextToJSON :: "ctx \<Rightarrow> ctx_json" where
  "contextToJSON c = \<lparr>cj_process = c_process c, cj_definition = c_definition c, cj_instance = c_instance c,
     cj_execution = c_execution c, cj_tenant = c_tenant c, cj_node = c_node c, cj_status = statusString (c_status c),
     cj_vars = c_vars c, cj_meta = c_meta c, cj_event = c_event c, cj_scopes = c_scopes c, cj_waitings = c_waitings c,
     cj_results = resultsToJSON (c_results c), cj_undo = c_undo c, cj_visits = c_visits c, cj_attempt = c_attempt c,
     cj_started = c_started c, cj_updated = c_updated c, cj_completed = c_completed c, cj_processed = c_processed c\<rparr>"

definition contextFromJSON :: "ctx_json \<Rightarrow> ctx" where
  "contextFromJSON s = \<lparr>c_process = cj_process s, c_definition = cj_definition s, c_instance = cj_instance s,
     c_execution = cj_execution s, c_tenant = cj_tenant s, c_node = cj_node s,
     c_status = ParseExecutionStatus (cj_status s), c_vars = cj_vars s, c_meta = cj_meta s, c_event = cj_event s,
     c_scopes = cj_scopes s, c_waitings = cj_waitings s, c_results = resultsFromJSON (cj_results s), c_undo = cj_undo s,
     c_visits = cj_visits s, c_attempt = cj_attempt s, c_started = cj_started s, c_updated = cj_updated s,
     c_completed = cj_completed s, c_processed = cj_processed s\<rparr>"

definition json_event :: "(int \<Rightarrow> rat) \<Rightarrow> (string \<Rightarrow> err + val) \<Rightarrow> event option \<Rightarrow> err + event option" where
  "json_event rnd other ev =
     (case ev of
        None \<Rightarrow> Inr None
      | Some e \<Rightarrow>
          (case ev_payload e of
             None \<Rightarrow> Inr (Some e)
           | Some p \<Rightarrow> map_sum id (\<lambda>p'. Some (e\<lparr>ev_payload := Some p'\<rparr>)) (jsonEnv rnd other p)))"

definition json_result :: "(int \<Rightarrow> rat) \<Rightarrow> (string \<Rightarrow> err + val) \<Rightarrow> result_json \<Rightarrow> err + result_json" where
  "json_result rnd other r = map_sum id (\<lambda>o'. r\<lparr>rj_outcome := o'\<rparr>) (jsonEnv rnd other (rj_outcome r))"

definition json_trip :: "(int \<Rightarrow> rat) \<Rightarrow> (string \<Rightarrow> err + val) \<Rightarrow> ctx_json \<Rightarrow> err + ctx_json" where
  "json_trip rnd other s =
     (case jsonEnv rnd other (cj_vars s) of Inl e \<Rightarrow> Inl e
      | Inr vars \<Rightarrow>
     (case json_event rnd other (cj_event s) of Inl e \<Rightarrow> Inl e
      | Inr ev \<Rightarrow>
     (case traverse (json_result rnd other) (cj_results s) of Inl e \<Rightarrow> Inl e
      | Inr rs \<Rightarrow> Inr (s\<lparr>cj_vars := vars, cj_event := ev, cj_results := rs\<rparr>))))"

text \<open>\<open>Savepoint\<close>, and \<open>RestoreExecutionContext\<close> of what it wrote.\<close>

definition Savepoint :: "(int \<Rightarrow> rat) \<Rightarrow> (string \<Rightarrow> err + val) \<Rightarrow> ctx \<Rightarrow> err + ctx_json" where
  "Savepoint rnd other c = json_trip rnd other (contextToJSON c)"

definition RestoreExecutionContext :: "ctx_json \<Rightarrow> err + ctx" where
  "RestoreExecutionContext s = Inr (contextFromJSON s)"

subsection \<open>What survives\<close>

text \<open>Values that JSON can say as they are: no \<open>int\<close>, which comes back as a \<open>float64\<close>.\<close>

fun plain :: "val \<Rightarrow> bool" where
  "plain (VInt i) = False"
| "plain (VOther s) = False"
| "plain (VList vs) = list_all plain vs"
| "plain (VObj kvs) = list_all (\<lambda>(k, v). plain v) kvs"
| "plain _ = True"

lemma jsonVal_plain: "plain v \<Longrightarrow> jsonVal rnd other v = Inr v"
proof (induction v rule: plain.induct)
  case (3 vs)
  then have "traverse (jsonVal rnd other) vs = Inr vs" by (intro traverse_id) (auto simp: list_all_iff)
  then show ?case by simp
next
  case (4 kvs)
  have "traverse (\<lambda>(k, v). map_sum id (Pair k) (jsonVal rnd other v)) kvs = Inr kvs"
    using 4 by (intro traverse_id) (fastforce simp: list_all_iff)
  then show ?case by simp
qed simp_all

definition plain_env :: "env \<Rightarrow> bool" where
  "plain_env env \<longleftrightarrow> list_all (\<lambda>(k, v). plain v) env"

lemma jsonEnv_plain: "plain_env env \<Longrightarrow> jsonEnv rnd other env = Inr env"
  unfolding jsonEnv_def plain_env_def by (intro traverse_id) (auto simp: list_all_iff jsonVal_plain)

definition plain_ctx :: "ctx \<Rightarrow> bool" where
  "plain_ctx c \<longleftrightarrow> plain_env (c_vars c) \<and>
     (case c_event c of None \<Rightarrow> True | Some e \<Rightarrow> (case ev_payload e of None \<Rightarrow> True | Some p \<Rightarrow> plain_env p)) \<and>
     list_all (\<lambda>r. plain_env (sr_outcome r)) (c_results c)"

lemma results_trip: "resultsFromJSON (resultsToJSON rs) = map folded_result rs"
  by (induction rs) (simp_all add: resultsFromJSON_def resultsToJSON_def folded_result_def)

lemma json_trip_plain:
  assumes "plain_ctx c" shows "json_trip rnd other (contextToJSON c) = Inr (contextToJSON c)"
proof -
  have "json_event rnd other (c_event c) = Inr (c_event c)"
    using assms by (auto simp: json_event_def plain_ctx_def jsonEnv_plain split: option.splits)
  moreover have "traverse (json_result rnd other) (resultsToJSON (c_results c)) = Inr (resultsToJSON (c_results c))"
    using assms by (intro traverse_id) (auto simp: plain_ctx_def list_all_iff resultsToJSON_def json_result_def jsonEnv_plain)
  ultimately show ?thesis
    using assms by (simp add: json_trip_def contextToJSON_def plain_ctx_def jsonEnv_plain)
qed

text \<open>A savepoint keeps the declared type of a value, even when it turns an integer into a float.\<close>

lemma jsonVal_type:
  assumes "has_type t v" and "jsonVal rnd other v = Inr w" and "\<And>s. v \<noteq> VOther s"
  shows "has_type t w"
  using assms by (cases v; cases "t_kind t") (auto simp: has_type_def)

subsection \<open>Continuing from a point of the log\<close>

text \<open>\<open>ResumeAt\<close> of \<open>src/dsl/replay.go\<close>; \<open>j\<close> is the journal the options bind, if any.\<close>

definition ResumeAt ::
  "process_def \<Rightarrow> int \<Rightarrow> occurrence list \<Rightarrow> int \<Rightarrow> 'j option \<Rightarrow> 'h \<Rightarrow> nat \<Rightarrow> err + ('h, 'j) rts" where
  "ResumeAt def t occs bound j h k =
     (case FoldTo def t occs bound of Inl e \<Rightarrow> Inl e | Inr c \<Rightarrow> Inr (NewRuntime c j h k))"

lemma ResumeAt_all: "\<forall>occ \<in> set occs. o_seq occ \<le> bound \<Longrightarrow> ResumeAt def t occs bound j h k = Resume def t occs j h k"
  by (simp add: ResumeAt_def Resume_def FoldTo_def prefix_upto_all)

subsection \<open>Properties\<close>

text \<open>C28: a savepoint restores the context. When the variables, the payload of the current event and
  the outcomes of commands are values JSON can say, restoring a savepoint gives back every field,
  the table of consumed events among them; of a failed command only whether it was permanent is
  lost, and its error becomes its text.\<close>

theorem savepoint_restores:
  assumes "plain_ctx c"
  shows "\<exists>s. Savepoint rnd other c = Inr s \<and>
    RestoreExecutionContext s = Inr (c\<lparr>c_results := map folded_result (c_results c)\<rparr>)"
  using json_trip_plain [OF assms]
  by (simp add: Savepoint_def RestoreExecutionContext_def contextFromJSON_def contextToJSON_def results_trip)

definition saved_ctx :: ctx where
  "saved_ctx = (NewExecutionContext approval_def ''i'' ''x'' 5)\<lparr>c_vars := [(''paid'', VBool True), (''who'', VStr ''ann'')],
     c_status := StatusWaiting, c_node := ''a'', c_processed := [(''e1'', 3)]\<rparr>"

theorem savepoint_restores_witness:
  "\<exists>s c. Savepoint of_int (\<lambda>s. Inl EMarshal) saved_ctx = Inr s \<and> RestoreExecutionContext s = Inr c \<and>
    c_node c = ''a'' \<and> c_status c = StatusWaiting \<and> dget (c_vars c) ''who'' = Some (VStr ''ann'')"
proof -
  have "plain_ctx saved_ctx" by (simp add: plain_ctx_def plain_env_def saved_ctx_def NewExecutionContext_def)
  from savepoint_restores [OF this, of of_int "\<lambda>s. Inl EMarshal"] show ?thesis by (auto simp: saved_ctx_def)
qed

text \<open>But an integer does not survive. A variable that holds an \<open>int\<close> is a \<open>float64\<close> after the
  savepoint, so a manager that loads from a snapshot runs with another context than one that
  folds the log.\<close>

theorem savepoint_changes_integers:
  assumes "dget (c_vars c) k = Some (VInt i)" and "Savepoint rnd other c = Inr s" and "RestoreExecutionContext s = Inr c'"
  shows "dget (c_vars c') k = Some (VFloat (rnd i))"
proof -
  have env: "jsonEnv rnd other env = Inr env' \<Longrightarrow> dget env k = Some (VInt i) \<Longrightarrow> dget env' k = Some (VFloat (rnd i))" for env env'
    by (induction env arbitrary: env') (auto simp: jsonEnv_def split: sum.splits if_splits)
  from assms(2,3) obtain vars where "jsonEnv rnd other (c_vars c) = Inr vars" "c_vars c' = vars"
    by (auto simp: Savepoint_def json_trip_def RestoreExecutionContext_def contextFromJSON_def contextToJSON_def split: sum.splits)
  with env assms(1) show ?thesis by blast
qed

theorem savepoint_changes_integers_witness:
  "\<exists>s c'. Savepoint of_int (\<lambda>s. Inl EMarshal) (saved_ctx\<lparr>c_vars := [(''n'', VInt 3)]\<rparr>) = Inr s \<and>
    RestoreExecutionContext s = Inr c' \<and> dget (c_vars c') ''n'' = Some (VFloat 3)"
proof -
  let ?c = "saved_ctx\<lparr>c_vars := [(''n'', VInt 3)]\<rparr>"
  obtain s where s: "Savepoint of_int (\<lambda>s. Inl EMarshal) ?c = Inr s"
    by (simp add: Savepoint_def json_trip_def contextToJSON_def jsonEnv_def json_event_def saved_ctx_def NewExecutionContext_def
        resultsToJSON_def)
  obtain c' where c': "RestoreExecutionContext s = Inr c'" by (simp add: RestoreExecutionContext_def)
  from savepoint_changes_integers [OF _ s c', of "''n''" 3] s c' show ?thesis by simp
qed

end
