(* ===== verification/Versions.thy ===== *)
theory Versions
  imports Replay Json
begin

text \<open>
  The registry of definition versions (\<open>src/dsl/registry.go\<close>) and the activation of a version
  (\<open>src/dsl/activation.go\<close>). A digest (SHA-256 in hexadecimal) and the JSON value of a definition
  (\<open>json.Marshal\<close> by reflection, decoded again with \<open>UseNumber\<close>) are parameters.
\<close>

subsection \<open>Hashing\<close>

record hasher =
  h_sum :: "string \<Rightarrow> string"
  h_def :: "process_def \<Rightarrow> err + json"

definition canonicalHash :: "hasher \<Rightarrow> json \<Rightarrow> err + string" where
  "canonicalHash h v = map_sum id (h_sum h) (canonicalJSON v)"

text \<open>Thirty-two hexadecimal digits, sixteen bytes.\<close>

definition hashProcessDef :: "hasher \<Rightarrow> process_def \<Rightarrow> err + string" where
  "hashProcessDef h def =
     (case h_def h def of Inl e \<Rightarrow> Inl e | Inr v \<Rightarrow> map_sum id (\<lambda>t. take 32 (h_sum h t)) (canonicalJSON v))"

subsection \<open>The registry\<close>

record version_info =
  vi_proposer :: string
  vi_owner :: string
  vi_note :: string
  vi_registered :: int

record version_entry =
  ve_id :: string
  ve_version :: string
  ve_hash :: string
  ve_info :: version_info

record registry =
  rg_byID :: "version_entry dict dict"
  rg_orders :: "string list dict"

datatype registry_error =
    RDefIDRequired | RDefVersionRequired | RHash err | RConflict string string string

definition NewVersionRegistry :: registry where
  "NewVersionRegistry = \<lparr>rg_byID = [], rg_orders = []\<rparr>"

definition versionsOf :: "registry \<Rightarrow> string \<Rightarrow> version_entry dict" where
  "versionsOf r k = (case dget (rg_byID r) k of None \<Rightarrow> [] | Some d \<Rightarrow> d)"

definition orderOf :: "registry \<Rightarrow> string \<Rightarrow> string list" where
  "orderOf r k = (case dget (rg_orders r) k of None \<Rightarrow> [] | Some vs \<Rightarrow> vs)"

text \<open>\<open>t\<close> is the time of the call. A nil \<open>def\<close> is refused before anything else, and is left out.\<close>

definition RegisterVersion ::
  "hasher \<Rightarrow> int \<Rightarrow> process_def \<Rightarrow> version_info option \<Rightarrow> registry \<Rightarrow> (registry_error + version_entry) \<times> registry" where
  "RegisterVersion h t def info r =
     (if pd_id def = '''' then (Inl RDefIDRequired, r)
      else if pd_version def = '''' then (Inl RDefVersionRequired, r)
      else case hashProcessDef h def of
        Inl e \<Rightarrow> (Inl (RHash e), r)
      | Inr hash \<Rightarrow>
          let byVersion = versionsOf r (pd_id def);
              r0 = r\<lparr>rg_byID := dput (pd_id def) byVersion (rg_byID r)\<rparr>
          in case dget byVersion (pd_version def) of
               Some old \<Rightarrow>
                 if ve_hash old \<noteq> hash then (Inl (RConflict (pd_id def) (pd_version def) (ve_hash old)), r0)
                 else (Inr old, r0)
             | None \<Rightarrow>
                 let entry = \<lparr>ve_id = pd_id def, ve_version = pd_version def, ve_hash = hash,
                       ve_info = (case info of
                           Some i \<Rightarrow> i\<lparr>vi_registered := t\<rparr>
                         | None \<Rightarrow> \<lparr>vi_proposer = '''', vi_owner = '''', vi_note = '''', vi_registered = t\<rparr>)\<rparr>
                 in (Inr entry,
                     r0\<lparr>rg_byID := dput (pd_id def) (dput (pd_version def) entry byVersion) (rg_byID r),
                        rg_orders := dput (pd_id def) (sort (orderOf r (pd_id def) @ [pd_version def])) (rg_orders r)\<rparr>))"

definition GetVersion :: "registry \<Rightarrow> string \<Rightarrow> string \<Rightarrow> version_entry option" where
  "GetVersion r k v = dget (versionsOf r k) v"

text \<open>A version of the order that is no key of the map would be a nil entry.\<close>

definition Versions :: "registry \<Rightarrow> string \<Rightarrow> version_entry option list" where
  "Versions r k = map (dget (versionsOf r k)) (orderOf r k)"

subsection \<open>What the registry keeps\<close>

definition registry_ok :: "registry \<Rightarrow> bool" where
  "registry_ok r \<longleftrightarrow> (\<forall>k. distinct (orderOf r k) \<and> sorted (orderOf r k) \<and>
     set (orderOf r k) = {v. GetVersion r k v \<noteq> None} \<and>
     (\<forall>v e. GetVersion r k v = Some e \<longrightarrow> ve_id e = k \<and> ve_version e = v))"

lemma NewVersionRegistry_ok: "registry_ok NewVersionRegistry"
  by (simp add: registry_ok_def NewVersionRegistry_def orderOf_def GetVersion_def versionsOf_def)

text \<open>The two things a registration can do to what is read.\<close>

lemma RegisterVersion_reads:
  assumes "RegisterVersion h t def info r = (res, r')"
  obtains "\<And>k. versionsOf r' k = versionsOf r k" "\<And>k. orderOf r' k = orderOf r k"
    "\<And>e. res = Inr e \<Longrightarrow> GetVersion r (pd_id def) (pd_version def) = Some e \<and> hashProcessDef h def = Inr (ve_hash e)"
  | e where "res = Inr e" "ve_id e = pd_id def" "ve_version e = pd_version def" "hashProcessDef h def = Inr (ve_hash e)"
    "GetVersion r (pd_id def) (pd_version def) = None"
    "\<And>k. versionsOf r' k = (if k = pd_id def then dput (pd_version def) e (versionsOf r k) else versionsOf r k)"
    "\<And>k. orderOf r' k = (if k = pd_id def then sort (orderOf r k @ [pd_version def]) else orderOf r k)"
proof (cases "\<exists>e. res = Inr e \<and> GetVersion r (pd_id def) (pd_version def) = None")
  case True
  then obtain e where e: "res = Inr e" "GetVersion r (pd_id def) (pd_version def) = None" by blast
  with assms show ?thesis
    by (intro that(2) [of e])
      (auto simp: RegisterVersion_def Let_def GetVersion_def versionsOf_def orderOf_def split: if_splits sum.splits)
next
  case False
  with assms show ?thesis
    by (intro that(1))
      (auto simp: RegisterVersion_def Let_def GetVersion_def versionsOf_def orderOf_def split: if_splits sum.splits option.splits)
qed

lemma RegisterVersion_keeps:
  assumes ok: "registry_ok r" and r: "RegisterVersion h t def info r = (res, r')"
  shows "registry_ok r' \<and> (\<forall>k v e. GetVersion r k v = Some e \<longrightarrow> GetVersion r' k v = Some e)"
  using r
proof (cases rule: RegisterVersion_reads)
  case 1
  with ok show ?thesis by (simp add: registry_ok_def GetVersion_def)
next
  case (2 e)
  have "pd_version def \<notin> set (orderOf r (pd_id def))" using ok 2(5) by (simp add: registry_ok_def)
  with ok 2 show ?thesis
    by (auto simp: registry_ok_def GetVersion_def sorted_insort distinct_insort)
qed

lemma RegisterVersion_result:
  assumes "RegisterVersion h t def info r = (res, r')"
  shows "case res of Inl x \<Rightarrow> \<forall>k v. GetVersion r' k v = GetVersion r k v
     | Inr e \<Rightarrow> GetVersion r' (pd_id def) (pd_version def) = Some e \<and> hashProcessDef h def = Inr (ve_hash e)"
  using assms
proof (cases rule: RegisterVersion_reads)
  case 1
  then show ?thesis by (auto simp: GetVersion_def split: sum.split)
next
  case (2 e)
  then show ?thesis by (simp add: GetVersion_def)
qed

lemma Versions_complete:
  assumes "registry_ok r"
  shows "\<exists>es. Versions r k = map Some es \<and> set es = {e. \<exists>v. GetVersion r k v = Some e} \<and> sorted (map ve_version es) \<and>
      distinct (map ve_version es)"
proof -
  let ?es = "map (\<lambda>v. the (GetVersion r k v)) (orderOf r k)"
  have o: "distinct (orderOf r k)" "sorted (orderOf r k)" "set (orderOf r k) = {v. GetVersion r k v \<noteq> None}"
    and ids: "\<And>v e. GetVersion r k v = Some e \<Longrightarrow> ve_version e = v" using assms by (auto simp: registry_ok_def)
  have v: "ve_version (the (GetVersion r k v)) = v" if "v \<in> set (orderOf r k)" for v using that o(3) ids by auto
  have "Versions r k = map Some ?es" using o(3) by (auto simp: Versions_def GetVersion_def)
  moreover have "set ?es = {e. \<exists>v. GetVersion r k v = Some e}" using o(3) by force
  moreover have "map ve_version ?es = orderOf r k" using v by (simp add: map_idI)
  ultimately show ?thesis using o(1,2) by metis
qed

subsection \<open>Activation\<close>

text \<open>
  States by (ID, version), and the journal the activator was built with (\<open>None\<close> for none). The
  registry is an argument (\<open>None\<close> for a nil one): the activator only reads it. \<open>app\<close> is the journal's \<open>Append\<close>.
\<close>

record 'j activator =
  av_states :: "((string \<times> string) \<times> activation_state) list"
  av_journal :: "'j option"

datatype activation_error =
    APrincipalRequired | ANilRegistry | AUnknownVersion string string | AAttribution string string | AJournal err

definition NewActivator :: "'j option \<Rightarrow> 'j activator" where
  "NewActivator j = \<lparr>av_states = [], av_journal = j\<rparr>"

definition ActivationStateOf :: "registry option \<Rightarrow> string \<Rightarrow> string \<Rightarrow> 'j activator \<Rightarrow> activation_state option" where
  "ActivationStateOf reg k v a =
     (case map_of (av_states a) (k, v) of
        Some st \<Rightarrow> Some st
      | None \<Rightarrow>
          (case Option.bind reg (\<lambda>r. GetVersion r k v) of
             None \<Rightarrow> None
           | Some e \<Rightarrow> Some \<lparr>as_def = k, as_version = v, as_hash = ve_hash e, as_status = ''draft'',
               as_proposer = vi_proposer (ve_info e), as_owner = vi_owner (ve_info e), as_by = None, as_at = 0\<rparr>))"

definition activated_state :: "string \<Rightarrow> string \<Rightarrow> version_entry \<Rightarrow> principal \<Rightarrow> int \<Rightarrow> activation_state" where
  "activated_state k v e p t = \<lparr>as_def = k, as_version = v, as_hash = ve_hash e, as_status = ''active'',
     as_proposer = vi_proposer (ve_info e), as_owner = vi_owner (ve_info e), as_by = Some p, as_at = t\<rparr>"

definition activation_fact :: "string \<Rightarrow> string \<Rightarrow> principal \<Rightarrow> int \<Rightarrow> activation_state \<Rightarrow> occurrence" where
  "activation_fact k v p t st = (blank_occ OccDefActivated)\<lparr>o_time := t, o_actor := Some p, o_defid := k,
     o_defversion := v, o_activation := Some st\<rparr>"

text \<open>Fact first: the state flips when the journal has taken the fact.\<close>

definition enterActivation ::
  "('j \<Rightarrow> occurrence \<Rightarrow> 'j \<times> err option) \<Rightarrow> occurrence \<Rightarrow> string \<times> string \<Rightarrow> activation_state
    \<Rightarrow> 'j activator \<Rightarrow> (activation_error + activation_state) \<times> 'j activator" where
  "enterActivation app occ key next a =
     (case av_journal a of
        None \<Rightarrow> (Inr next, a\<lparr>av_states := AList.update key next (av_states a)\<rparr>)
      | Some j \<Rightarrow>
          (case app j occ of
             (j', Some x) \<Rightarrow> (Inl (AJournal x), a\<lparr>av_journal := Some j'\<rparr>)
           | (j', None) \<Rightarrow> (Inr next, a\<lparr>av_journal := Some j', av_states := AList.update key next (av_states a)\<rparr>)))"

definition Activate ::
  "('j \<Rightarrow> occurrence \<Rightarrow> 'j \<times> err option) \<Rightarrow> registry option \<Rightarrow> int \<Rightarrow> string \<Rightarrow> string \<Rightarrow> principal option
    \<Rightarrow> 'j activator \<Rightarrow> (activation_error + activation_state) \<times> 'j activator" where
  "Activate app reg t k v actor a =
     (case actor of
        None \<Rightarrow> (Inl APrincipalRequired, a)
      | Some p \<Rightarrow>
          if p_kind p = '''' \<or> p_id p = '''' then (Inl APrincipalRequired, a)
          else if reg = None then (Inl ANilRegistry, a)
          else
            (case GetVersion (the reg) k v of
               None \<Rightarrow> (Inl (AUnknownVersion k v), a)
             | Some e \<Rightarrow>
                 if vi_proposer (ve_info e) = '''' \<or> vi_owner (ve_info e) = '''' then (Inl (AAttribution k v), a)
                 else
                   let next = activated_state k v e p t;
                       enter = enterActivation app (activation_fact k v p t next) (k, v) next a
                   in (case map_of (av_states a) (k, v) of
                         Some st \<Rightarrow> if as_status st = ''active'' then (Inr st, a) else enter
                       | None \<Rightarrow> enter)))"

definition foldActivation :: "occurrence list \<Rightarrow> ((string \<times> string) \<times> activation_state) list" where
  "foldActivation occs = foldl (\<lambda>out occ.
     if o_kind occ \<noteq> OccDefActivated then out
     else case o_activation occ of None \<Rightarrow> out
          | Some st \<Rightarrow> AList.update (o_defid occ, o_defversion occ) st out) [] occs"

lemma foldActivation_snoc:
  "foldActivation (occs @ [occ]) =
     (if o_kind occ \<noteq> OccDefActivated then foldActivation occs
      else case o_activation occ of None \<Rightarrow> foldActivation occs
           | Some st \<Rightarrow> AList.update (o_defid occ, o_defversion occ) st (foldActivation occs))"
  by (simp add: foldActivation_def split: option.split)

text \<open>What an activation can do: refuse, answer with the state that is there, or enter a new one.\<close>

lemma Activate_cases:
  assumes "Activate app (Some r) t k v actor a = (res, a')"
  obtains (refused) x where "res = Inl x" "a' = a"
  | (same) st where "res = Inr st" "a' = a" "map_of (av_states a) (k, v) = Some st" "as_status st = ''active''"
  | (entered) e p where "GetVersion r k v = Some e" "vi_proposer (ve_info e) \<noteq> ''''" "vi_owner (ve_info e) \<noteq> ''''"
      "p_kind p \<noteq> ''''" "p_id p \<noteq> ''''" "\<And>st. map_of (av_states a) (k, v) = Some st \<Longrightarrow> as_status st \<noteq> ''active''"
      "enterActivation app (activation_fact k v p t (activated_state k v e p t)) (k, v) (activated_state k v e p t) a = (res, a')"
proof (cases actor)
  case None
  show ?thesis by (rule refused) (use assms None in \<open>auto simp: Activate_def\<close>)
next
  case (Some p)
  show ?thesis
  proof (cases "p_kind p = '''' \<or> p_id p = ''''")
    case True
    show ?thesis by (rule refused) (use assms Some True in \<open>auto simp: Activate_def\<close>)
  next
    case pr: False
    show ?thesis
    proof (cases "GetVersion r k v")
      case None
      show ?thesis by (rule refused) (use assms \<open>actor = Some p\<close> None pr in \<open>auto simp: Activate_def\<close>)
    next
      case (Some e)
      show ?thesis
      proof (cases "vi_proposer (ve_info e) = '''' \<or> vi_owner (ve_info e) = ''''")
        case True
        show ?thesis by (rule refused) (use assms \<open>actor = Some p\<close> pr Some True in \<open>auto simp: Activate_def\<close>)
      next
        case at: False
        note act = assms [unfolded Activate_def \<open>actor = Some p\<close> option.case Some, simplified pr at if_False Let_def option.sel option.distinct]
        show ?thesis
        proof (cases "map_of (av_states a) (k, v)")
          case None
          with act \<open>actor = Some p\<close> pr at Some entered [of e p] show ?thesis by simp
        next
          case m: (Some st)
          with act \<open>actor = Some p\<close> pr at Some entered [of e p] same [of st] show ?thesis by (auto split: if_splits)
        qed
      qed
    qed
  qed
qed

end
