(* ===== verification/Attribution.thy ===== *)
theory Attribution
  imports Samples Versions
begin

text \<open>
  Attributed change: what the registry and the activator keep over any sequence of registrations
  and activations, with instances writing to the same journal in between.
\<close>

inductive attributed :: "hasher \<Rightarrow> registry \<Rightarrow> memory_journal activator \<Rightarrow> bool" for h where
  opened: "attributed h NewVersionRegistry (NewActivator (Some NewMemoryJournal))"
| registered: "attributed h r a \<Longrightarrow> RegisterVersion h t def info r = (res, r') \<Longrightarrow> attributed h r' a"
| activated: "attributed h r a \<Longrightarrow> Activate memAppend (Some r) t k v actor a = (res, a') \<Longrightarrow> attributed h r a'"
| other_fact: "attributed h r a \<Longrightarrow> av_journal a = Some j \<Longrightarrow> o_instance occ \<noteq> '''' \<Longrightarrow> memAppend j occ = (j', e)
    \<Longrightarrow> attributed h r (a\<lparr>av_journal := Some j'\<rparr>)"

text \<open>An active state answers who proposed, who owns, who activated which content.\<close>

definition accountable :: "registry \<Rightarrow> string \<Rightarrow> string \<Rightarrow> activation_state \<Rightarrow> bool" where
  "accountable r k v st \<longleftrightarrow> (\<exists>e p t. GetVersion r k v = Some e \<and> st = activated_state k v e p t \<and>
     vi_proposer (ve_info e) \<noteq> '''' \<and> vi_owner (ve_info e) \<noteq> '''' \<and> p_kind p \<noteq> '''' \<and> p_id p \<noteq> '''')"

definition account :: "memory_journal activator \<Rightarrow> occurrence list" where
  "account a = (case av_journal a of None \<Rightarrow> [] | Some j \<Rightarrow> memLoad j '''')"

text \<open>A fact of the definition account: whole, outside every instance, and accountable.\<close>

definition definition_fact :: "registry \<Rightarrow> occurrence \<Rightarrow> bool" where
  "definition_fact r occ \<longleftrightarrow> o_kind occ = OccDefActivated \<and> o_instance occ = '''' \<and> o_execution occ = '''' \<and>
     (\<exists>st. o_activation occ = Some st \<and> accountable r (o_defid occ) (o_defversion occ) st)"

definition attribution_inv :: "registry \<Rightarrow> memory_journal activator \<Rightarrow> bool" where
  "attribution_inv r a \<longleftrightarrow> registry_ok r \<and> (\<exists>j. av_journal a = Some j \<and> mem_ok j) \<and>
     map_of (foldActivation (account a)) = map_of (av_states a) \<and> list_all (definition_fact r) (account a) \<and>
     (\<forall>k v st. map_of (av_states a) (k, v) = Some st \<longrightarrow> accountable r k v st)"

lemma accountable_later:
  "accountable r k v st \<Longrightarrow> (\<And>e. GetVersion r k v = Some e \<Longrightarrow> GetVersion r' k v = Some e) \<Longrightarrow> accountable r' k v st"
  by (auto simp: accountable_def)

lemma append_account:
  assumes "mem_ok j" and "memAppend j occ = (j', e)"
  shows "mem_ok j' \<and> e = None \<and> memLoad j' '''' = memLoad j '''' @ (if o_instance occ = '''' then [occ\<lparr>o_seq := mj_next j + 1\<rparr>] else [])"
  using mem_append_ok [OF assms(1), of occ] mem_append_load [of j occ "''''"] assms(2)
  by (auto simp: memAppend_def Let_def)

lemma Activate_keeps:
  assumes inv: "attribution_inv r a" and act: "Activate memAppend (Some r) t k v actor a = (res, a')"
  shows "attribution_inv r a' \<and> (\<forall>key st. map_of (av_states a) key = Some st \<longrightarrow> map_of (av_states a') key = Some st)"
  using act
proof (cases rule: Activate_cases)
  case (entered e p)
  let ?n = "activated_state k v e p t"
  from inv obtain j where j: "av_journal a = Some j" "mem_ok j" by (auto simp: attribution_inv_def)
  obtain j' x where ap: "memAppend j (activation_fact k v p t ?n) = (j', x)" by fastforce
  note app = append_account [OF j(2) ap]
  from entered(7) j(1) ap app have a': "a' = a\<lparr>av_journal := Some j', av_states := AList.update (k, v) ?n (av_states a)\<rparr>"
    by (simp add: enterActivation_def)
  have new: "map_of (av_states a) (k, v) = None"
  proof (rule ccontr)
    assume "map_of (av_states a) (k, v) \<noteq> None"
    then obtain st where "map_of (av_states a) (k, v) = Some st" by blast
    with inv entered(6) show False by (fastforce simp: attribution_inv_def accountable_def activated_state_def)
  qed
  have acc: "account a' = account a @ [(activation_fact k v p t ?n)\<lparr>o_seq := mj_next j + 1\<rparr>]"
    using app j(1) a' by (simp add: account_def activation_fact_def blank_occ_def)
  then have "map_of (foldActivation (account a')) = map_of (av_states a')"
    using inv a' by (simp add: foldActivation_snoc activation_fact_def blank_occ_def attribution_inv_def update_conv')
  moreover have "accountable r k v ?n" using entered by (auto simp: accountable_def)
  moreover have "definition_fact r ((activation_fact k v p t ?n)\<lparr>o_seq := mj_next j + 1\<rparr>)"
    using entered by (auto simp: definition_fact_def activation_fact_def blank_occ_def accountable_def)
  ultimately have "attribution_inv r a'"
    using inv app a' acc by (auto simp: attribution_inv_def update_conv')
  with new a' show ?thesis by (auto simp: update_conv')
qed (use inv in simp_all)

lemma attributed_inv: "attributed h r a \<Longrightarrow> attribution_inv r a"
proof (induction rule: attributed.induct)
  case opened
  show ?case
    by (simp add: attribution_inv_def NewVersionRegistry_ok NewActivator_def account_def NewMemoryJournal_ok
        memLoad_def foldActivation_def, simp add: NewMemoryJournal_def)
next
  case (registered r a t def info res r')
  from registered.IH have ok: "registry_ok r" by (simp add: attribution_inv_def)
  note k = RegisterVersion_keeps [OF ok registered.hyps(2)]
  have "accountable r' k v st" if "map_of (av_states a) (k, v) = Some st" for k v st
    using registered.IH that k by (auto simp: attribution_inv_def intro: accountable_later [of r])
  moreover have "definition_fact r' occ" if "definition_fact r occ" for occ
    using that k accountable_later [of r _ _ _ r'] unfolding definition_fact_def by blast
  ultimately show ?case using registered.IH k by (auto simp: attribution_inv_def list_all_iff)
next
  case (activated r a t k v actor res a')
  with Activate_keeps show ?case by blast
next
  case (other_fact r a j occ j' e)
  then have "mem_ok j" by (auto simp: attribution_inv_def)
  from append_account [OF this other_fact.hyps(4)] other_fact show ?case
    by (simp add: attribution_inv_def account_def)
qed

subsection \<open>A sample change\<close>

definition sample_hasher :: hasher where
  "sample_hasher = \<lparr>h_sum = (\<lambda>t. CHR ''#'' # t), h_def = (\<lambda>def. Inr (JObj [(''ID'', JStr (pd_id def)), (''StartNode'', JStr (pd_start def))]))\<rparr>"

definition sample_info :: version_info where
  "sample_info = \<lparr>vi_proposer = ''ann'', vi_owner = ''bob'', vi_note = '''', vi_registered = 0\<rparr>"

definition human :: "string \<Rightarrow> principal" where
  "human k = \<lparr>p_kind = ''human'', p_id = k, p_display = '''', p_model = '''', p_version = '''', p_prompt = ''''\<rparr>"

definition sample_registry :: registry where
  "sample_registry = snd (RegisterVersion sample_hasher 7 (sample_def ''s'' []) (Some sample_info) NewVersionRegistry)"

definition sample_activated :: "(activation_error + activation_state) \<times> memory_journal activator" where
  "sample_activated = Activate memAppend (Some sample_registry) 9 ''p'' ''1'' (Some (human ''eve'')) (NewActivator (Some NewMemoryJournal))"

lemma sample_attributed:
  "attributed sample_hasher sample_registry (NewActivator (Some NewMemoryJournal))"
  "attributed sample_hasher sample_registry (snd sample_activated)"
proof -
  show reg: "attributed sample_hasher sample_registry (NewActivator (Some NewMemoryJournal))"
    unfolding sample_registry_def
    by (rule attributed.registered [OF attributed.opened, where res = "fst (RegisterVersion sample_hasher 7 (sample_def ''s'' [])
          (Some sample_info) NewVersionRegistry)"]) simp
  show "attributed sample_hasher sample_registry (snd sample_activated)"
    unfolding sample_activated_def
    by (rule attributed.activated [OF reg, where res = "fst sample_activated"]) (simp add: sample_activated_def)
qed

lemma sample_activation:
  "map_option (\<lambda>st. (as_proposer st, as_owner st, map_option p_id (as_by st), as_at st))
    (map_of (av_states (snd sample_activated)) (''p'', ''1'')) = Some (''ann'', ''bob'', Some ''eve'', 9)"
  by code_simp

subsection \<open>Properties\<close>

text \<open>C30: the registry is append-only. In every registry that registrations can build, no registration
  changes or removes an entry, whatever it returns; what it returns is the entry that is then
  stored under the definition's ID and version, with the hash of its content; and \<open>Versions\<close> lists
  exactly the stored entries, by ascending version, each once.\<close>

theorem registry_append_only:
  assumes "attributed h r a" and "RegisterVersion h t def info r = (res, r')"
  shows "(\<forall>k v e. GetVersion r k v = Some e \<longrightarrow> GetVersion r' k v = Some e) \<and>
    (case res of Inl x \<Rightarrow> \<forall>k v. GetVersion r' k v = GetVersion r k v
     | Inr e \<Rightarrow> GetVersion r' (pd_id def) (pd_version def) = Some e \<and> hashProcessDef h def = Inr (ve_hash e)) \<and>
    (\<exists>es. Versions r' k = map Some es \<and> set es = {e. \<exists>v. GetVersion r' k v = Some e} \<and> sorted (map ve_version es) \<and>
      distinct (map ve_version es))"
proof -
  have "registry_ok r" using attributed_inv [OF assms(1)] by (simp add: attribution_inv_def)
  note keep = RegisterVersion_keeps [OF this assms(2)]
  have res: "case res of Inl x \<Rightarrow> \<forall>k v. GetVersion r' k v = GetVersion r k v
     | Inr e \<Rightarrow> GetVersion r' (pd_id def) (pd_version def) = Some e \<and> hashProcessDef h def = Inr (ve_hash e)"
    by (rule RegisterVersion_result [OF assms(2)])
  have "\<exists>es. Versions r' k = map Some es \<and> set es = {e. \<exists>v. GetVersion r' k v = Some e} \<and> sorted (map ve_version es) \<and>
      distinct (map ve_version es)" by (rule Versions_complete) (use keep in simp)
  with keep res show ?thesis by blast
qed

theorem registry_append_only_witness:
  "\<exists>r' res. RegisterVersion sample_hasher 8 (sample_def ''t'' []) None sample_registry = (res, r') \<and>
    (\<forall>e. GetVersion sample_registry ''p'' ''1'' = Some e \<longrightarrow> GetVersion r' ''p'' ''1'' = Some e)"
proof -
  obtain res r' where r: "RegisterVersion sample_hasher 8 (sample_def ''t'' []) None sample_registry = (res, r')" by fastforce
  from registry_append_only [OF sample_attributed(1) r] r show ?thesis by blast
qed

text \<open>C31: activation is event-sourced. Whatever is registered, activated and written by instances to
  the same journal, the fold of the definition account is the table of activation states.\<close>

theorem activation_folds:
  assumes "attributed h r a" and "av_journal a = Some j"
  shows "map_of (foldActivation (memLoad j '''')) = map_of (av_states a)"
  using attributed_inv [OF assms(1)] assms(2) by (simp add: attribution_inv_def account_def)

theorem activation_folds_witness:
  "\<exists>j st. av_journal (snd sample_activated) = Some j \<and>
    map_of (foldActivation (memLoad j '''')) (''p'', ''1'') = Some st \<and> as_owner st = ''bob''"
proof -
  from attributed_inv [OF sample_attributed(2)] obtain j where j: "av_journal (snd sample_activated) = Some j"
    by (auto simp: attribution_inv_def)
  from activation_folds [OF sample_attributed(2) j] sample_activation j show ?thesis by auto
qed

text \<open>C32: nothing is active that nobody answers for. An active version is one that is registered, with
  its content hash, its proposer and its owner, both named, and the principal who activated it
  has a kind and an identity; and no later activation, of this or any other version, changes it.\<close>

theorem activation_accountable:
  assumes "attributed h r a" and "ActivationStateOf (Some r) k v a = Some st" and "as_status st = ''active''"
    and "Activate memAppend (Some r) t k' v' actor a = (res, a')"
  shows "(\<exists>e p. GetVersion r k v = Some e \<and> as_hash st = ve_hash e \<and> as_proposer st = vi_proposer (ve_info e) \<and>
      as_owner st = vi_owner (ve_info e) \<and> as_proposer st \<noteq> '''' \<and> as_owner st \<noteq> '''' \<and>
      as_by st = Some p \<and> p_kind p \<noteq> '''' \<and> p_id p \<noteq> '''') \<and>
    ActivationStateOf (Some r) k v a' = Some st"
proof -
  note inv = attributed_inv [OF assms(1)]
  from assms(2,3) have st: "map_of (av_states a) (k, v) = Some st"
    by (auto simp: ActivationStateOf_def split: option.splits)
  with inv have "accountable r k v st" by (simp add: attribution_inv_def)
  moreover from Activate_keeps [OF inv assms(4)] st have "map_of (av_states a') (k, v) = Some st" by blast
  ultimately show ?thesis by (auto simp: accountable_def activated_state_def ActivationStateOf_def)
qed

theorem activation_accountable_witness:
  "\<exists>st. ActivationStateOf (Some sample_registry) ''p'' ''1'' (snd sample_activated) = Some st \<and> as_at st = 9 \<and>
    ActivationStateOf (Some sample_registry) ''p'' ''1''
      (snd (Activate memAppend (Some sample_registry) 11 ''p'' ''1'' (Some (human ''bob'')) (snd sample_activated))) = Some st"
proof -
  from sample_activation obtain st where st: "map_of (av_states (snd sample_activated)) (''p'', ''1'') = Some st" "as_at st = 9"
    by auto
  have "accountable sample_registry ''p'' ''1'' st"
    using attributed_inv [OF sample_attributed(2)] st(1) by (simp add: attribution_inv_def)
  then have "as_status st = ''active''" by (auto simp: accountable_def activated_state_def)
  moreover have "ActivationStateOf (Some sample_registry) ''p'' ''1'' (snd sample_activated) = Some st"
    using st(1) by (simp add: ActivationStateOf_def)
  ultimately show ?thesis
    using activation_accountable [OF sample_attributed(2) _ _ surjective_pairing] st(2) by blast
qed

end
