(* ===== verification/Evidence.thy ===== *)
theory Evidence
  imports Versions
begin

text \<open>
  Evidence bundles (\<open>src/dsl/evidence.go\<close>): a history of definitions, the account of activations and
  the log of one execution, chained by hashes and bound by a root hash. JSON by reflection is a
  parameter (\<open>h_def\<close>, \<open>cd_occ\<close>, \<open>cd_time\<close>), as is the deep copy of a value by encoding and decoding
  it (\<open>cd_cloneDef\<close>, \<open>cd_cloneOcc\<close>); the structures of this file are encoded field by field.
\<close>

subsection \<open>Structures\<close>

record codec = hasher +
  cd_occ :: "occurrence \<Rightarrow> err + json"
  cd_time :: "int \<Rightarrow> json"
  cd_cloneDef :: "process_def \<Rightarrow> err + process_def"
  cd_cloneOcc :: "occurrence \<Rightarrow> err + occurrence"

definition EvidenceFormatV1 :: string where
  "EvidenceFormatV1 = ''weiyang-evidence/v1''"

record evidence_definition =
  ed_def :: "process_def option"
  ed_hash :: string
  ed_info :: version_info

record evidence_entry =
  ee_occ :: occurrence
  ee_prev :: string
  ee_hash :: string

record evidence_bundle =
  eb_format :: string
  eb_defs :: "evidence_definition list"
  eb_defLog :: "evidence_entry list"
  eb_execLog :: "evidence_entry list"
  eb_root :: string

datatype chain_error =
    CPrevious nat | CSequence nat | CHash nat err | CMismatch nat | CClone nat err

datatype evidence_error =
    VFormat string | VNoHistory | VInvalidDefinition nat | VOrder string string | VHash string string err
  | VDefinitionMismatch string string | VDefinitionLog chain_error | VDefinitionBoundary nat
  | VUnknownActivation nat | VActivationMismatch nat | VExecutionLog chain_error | VEmptyExecution
  | VExecutionBoundary nat | VMixed nat | VNotStarted | VRoot err | VRootMismatch
  | XNilRegistry | XNoHistory | XUnregistered string string | XClone string string err | XHash string string err
  | XDefinitionLog chain_error | XExecutionLog chain_error | XRoot err | XVerify evidence_error

subsection \<open>Hashing\<close>

definition entry_json :: "string \<Rightarrow> json \<Rightarrow> json" where
  "entry_json prev v = JObj [(''domain'', JStr (EvidenceFormatV1 @ ''/occurrence'')), (''previous'', JStr prev), (''occurrence'', v)]"

definition hashEvidenceEntry :: "codec \<Rightarrow> string \<Rightarrow> occurrence \<Rightarrow> err + string" where
  "hashEvidenceEntry h prev occ =
     (case cd_occ h occ of Inl e \<Rightarrow> Inl e | Inr v \<Rightarrow> canonicalHash (hasher.truncate h) (entry_json prev v))"

text \<open>An empty string field with \<open>omitempty\<close> is not written.\<close>

definition optional_field :: "string \<Rightarrow> string \<Rightarrow> json dict" where
  "optional_field k s = (if s = '''' then [] else [(k, JStr s)])"

definition info_json :: "codec \<Rightarrow> version_info \<Rightarrow> json" where
  "info_json h i = JObj (optional_field ''proposer'' (vi_proposer i) @ optional_field ''owner'' (vi_owner i) @
     optional_field ''note'' (vi_note i) @ [(''registeredAt'', cd_time h (vi_registered i))])"

definition definition_json :: "codec \<Rightarrow> evidence_definition \<Rightarrow> err + json" where
  "definition_json h d =
     (case (case ed_def d of None \<Rightarrow> Inr JNull | Some def \<Rightarrow> h_def h def) of
        Inl e \<Rightarrow> Inl e
      | Inr v \<Rightarrow> Inr (JObj [(''definition'', v), (''hash'', JStr (ed_hash d)), (''info'', info_json h (ed_info d))]))"

definition chainHead :: "evidence_entry list \<Rightarrow> string" where
  "chainHead chain = (if chain = [] then '''' else ee_hash (last chain))"

definition summary_json :: "evidence_entry list \<Rightarrow> json" where
  "summary_json chain = JObj [(''count'', JNum (show_nat (length chain))), (''head'', JStr (chainHead chain))]"

definition root_json :: "codec \<Rightarrow> evidence_bundle \<Rightarrow> err + json" where
  "root_json h b =
     (case traverse (definition_json h) (eb_defs b) of
        Inl e \<Rightarrow> Inl e
      | Inr ds \<Rightarrow> Inr (JObj [(''format'', JStr (eb_format b)), (''definitions'', JArr ds),
          (''definitionLog'', summary_json (eb_defLog b)), (''executionLog'', summary_json (eb_execLog b))]))"

definition evidenceRootHash :: "codec \<Rightarrow> evidence_bundle \<Rightarrow> err + string" where
  "evidenceRootHash h b =
     (case root_json h b of Inl e \<Rightarrow> Inl e | Inr v \<Rightarrow> canonicalHash (hasher.truncate h) v)"

subsection \<open>Verification\<close>

fun verify_chain :: "codec \<Rightarrow> nat \<Rightarrow> string \<Rightarrow> int \<Rightarrow> evidence_entry list \<Rightarrow> chain_error + string" where
  "verify_chain h i prev seq [] = Inr prev"
| "verify_chain h i prev seq (e # es) =
     (if ee_prev e \<noteq> prev then Inl (CPrevious i)
      else if 0 < i \<and> o_seq (ee_occ e) \<le> seq then Inl (CSequence i)
      else case hashEvidenceEntry h prev (ee_occ e) of
        Inl x \<Rightarrow> Inl (CHash i x)
      | Inr hash \<Rightarrow>
          if hash \<noteq> ee_hash e then Inl (CMismatch i)
          else verify_chain h (Suc i) hash (o_seq (ee_occ e)) es)"

definition verifyEvidenceChain :: "codec \<Rightarrow> evidence_entry list \<Rightarrow> chain_error + string" where
  "verifyEvidenceChain h chain = verify_chain h 0 '''' 0 chain"

text \<open>The loop over the definitions: \<open>prev\<close> is the key before, \<open>known\<close> the versions by key.\<close>

type_synonym known_versions = "((string \<times> string) \<times> evidence_definition) list"

fun verify_defs :: "codec \<Rightarrow> nat \<Rightarrow> string \<times> string \<Rightarrow> known_versions \<Rightarrow> evidence_definition list
    \<Rightarrow> evidence_error + known_versions" where
  "verify_defs h i prev known [] = Inr known"
| "verify_defs h i prev known (d # ds) =
     (case ed_def d of
        None \<Rightarrow> Inl (VInvalidDefinition i)
      | Some def \<Rightarrow>
          if pd_id def = '''' \<or> pd_version def = '''' then Inl (VInvalidDefinition i)
          else if 0 < i \<and> (pd_id def < fst prev \<or> fst prev = pd_id def \<and> pd_version def \<le> snd prev)
            then Inl (VOrder (pd_id def) (pd_version def))
          else
            (case hashProcessDef (hasher.truncate h) def of
               Inl e \<Rightarrow> Inl (VHash (pd_id def) (pd_version def) e)
             | Inr hash \<Rightarrow>
                 if hash \<noteq> ed_hash d then Inl (VDefinitionMismatch (pd_id def) (pd_version def))
                 else verify_defs h (Suc i) (pd_id def, pd_version def)
                        (AList.update (pd_id def, pd_version def) d known) ds))"

fun verify_defLog :: "known_versions \<Rightarrow> nat \<Rightarrow> evidence_entry list \<Rightarrow> evidence_error option" where
  "verify_defLog known i [] = None"
| "verify_defLog known i (e # es) =
     (let occ = ee_occ e in
      if o_kind occ \<noteq> OccDefActivated \<or> o_instance occ \<noteq> '''' \<or> o_execution occ \<noteq> '''' then Some (VDefinitionBoundary i)
      else case (map_of known (o_defid occ, o_defversion occ), o_activation occ) of
        (Some version, Some st) \<Rightarrow>
          if as_def st \<noteq> o_defid occ \<or> as_version st \<noteq> o_defversion occ \<or> as_hash st \<noteq> ed_hash version \<or>
             as_proposer st \<noteq> vi_proposer (ed_info version) \<or> as_owner st \<noteq> vi_owner (ed_info version)
          then Some (VActivationMismatch i)
          else verify_defLog known (Suc i) es
      | _ \<Rightarrow> Some (VUnknownActivation i))"

text \<open>The loop over the execution: the IDs of the first fact, and whether the start was seen.\<close>

fun verify_execLog :: "nat \<Rightarrow> string \<times> string \<Rightarrow> bool \<Rightarrow> evidence_entry list \<Rightarrow> evidence_error + bool" where
  "verify_execLog i ids begun [] = Inr begun"
| "verify_execLog i ids begun (e # es) =
     (let occ = ee_occ e in
      if o_kind occ = OccDefActivated \<or> o_instance occ = '''' \<or> o_defid occ \<noteq> '''' \<or> o_defversion occ \<noteq> '''' \<or>
         o_activation occ \<noteq> None then Inl (VExecutionBoundary i)
      else if i \<noteq> 0 \<and> (o_instance occ \<noteq> fst ids \<or> o_execution occ \<noteq> snd ids) then Inl (VMixed i)
      else verify_execLog (Suc i) (if i = 0 then (o_instance occ, o_execution occ) else ids)
             (begun \<or> o_kind occ = OccStarted) es)"

definition VerifyEvidence :: "codec \<Rightarrow> evidence_bundle \<Rightarrow> evidence_error option" where
  "VerifyEvidence h b =
     (if eb_format b \<noteq> EvidenceFormatV1 then Some (VFormat (eb_format b))
      else if eb_defs b = [] then Some VNoHistory
      else case verify_defs h 0 ('''', '''') [] (eb_defs b) of
        Inl e \<Rightarrow> Some e
      | Inr known \<Rightarrow>
     (case verifyEvidenceChain h (eb_defLog b) of
        Inl e \<Rightarrow> Some (VDefinitionLog e)
      | Inr defHead \<Rightarrow>
     (case verify_defLog known 0 (eb_defLog b) of
        Some e \<Rightarrow> Some e
      | None \<Rightarrow>
     (case verifyEvidenceChain h (eb_execLog b) of
        Inl e \<Rightarrow> Some (VExecutionLog e)
      | Inr execHead \<Rightarrow>
          if eb_execLog b = [] then Some VEmptyExecution
          else
     (case verify_execLog 0 ('''', '''') False (eb_execLog b) of
        Inl e \<Rightarrow> Some e
      | Inr begun \<Rightarrow>
          if \<not> begun then Some VNotStarted
          else
     (case evidenceRootHash h b of
        Inl e \<Rightarrow> Some (VRoot e)
      | Inr rootHash \<Rightarrow>
          if rootHash \<noteq> eb_root b \<or> defHead = '''' \<and> eb_defLog b \<noteq> [] \<or> execHead = ''''
          then Some VRootMismatch else None))))))"

subsection \<open>Export\<close>

fun export_chain :: "codec \<Rightarrow> nat \<Rightarrow> string \<Rightarrow> occurrence list \<Rightarrow> chain_error + evidence_entry list" where
  "export_chain h i prev [] = Inr []"
| "export_chain h i prev (occ # occs) =
     (case cd_cloneOcc h occ of
        Inl e \<Rightarrow> Inl (CClone i e)
      | Inr cl \<Rightarrow>
          (case hashEvidenceEntry h prev cl of
             Inl e \<Rightarrow> Inl (CHash i e)
           | Inr hash \<Rightarrow>
               map_sum id (\<lambda>es. \<lparr>ee_occ = cl, ee_prev = prev, ee_hash = hash\<rparr> # es) (export_chain h (Suc i) hash occs)))"

definition exportEvidenceChain :: "codec \<Rightarrow> occurrence list \<Rightarrow> chain_error + evidence_entry list" where
  "exportEvidenceChain h occs = export_chain h 0 '''' occs"

definition export_def :: "codec \<Rightarrow> registry \<Rightarrow> process_def \<Rightarrow> evidence_error + evidence_definition" where
  "export_def h r def =
     (case GetVersion r (pd_id def) (pd_version def) of
        None \<Rightarrow> Inl (XUnregistered (pd_id def) (pd_version def))
      | Some entry \<Rightarrow>
     (case cd_cloneDef h def of
        Inl e \<Rightarrow> Inl (XClone (pd_id def) (pd_version def) e)
      | Inr cl \<Rightarrow>
     (case hashProcessDef (hasher.truncate h) cl of
        Inl e \<Rightarrow> Inl (XHash (pd_id def) (pd_version def) e)
      | Inr hash \<Rightarrow> Inr \<lparr>ed_def = Some cl, ed_hash = hash, ed_info = ve_info entry\<rparr>)))"

definition version_key :: "evidence_definition \<Rightarrow> string \<times> string" where
  "version_key d = (case ed_def d of None \<Rightarrow> ('''', '''') | Some def \<Rightarrow> (pd_id def, pd_version def))"

text \<open>
  \<open>sort.Slice\<close> by ID, then by version. It is not stable, but two versions with one key make the
  verification fail in whatever order they stand.
\<close>

definition sort_history :: "evidence_definition list \<Rightarrow> evidence_definition list" where
  "sort_history ds = sort_key (\<lambda>d. fst (version_key d)) (sort_key (\<lambda>d. snd (version_key d)) ds)"

definition ExportEvidence ::
  "codec \<Rightarrow> process_def list \<Rightarrow> registry option \<Rightarrow> occurrence list \<Rightarrow> occurrence list
    \<Rightarrow> evidence_error + evidence_bundle" where
  "ExportEvidence h defs reg defLog execLog =
     (case reg of
        None \<Rightarrow> Inl XNilRegistry
      | Some r \<Rightarrow>
          if defs = [] then Inl XNoHistory
          else
     (case traverse (export_def h r) defs of
        Inl e \<Rightarrow> Inl e
      | Inr history \<Rightarrow>
     (case exportEvidenceChain h defLog of
        Inl e \<Rightarrow> Inl (XDefinitionLog e)
      | Inr defChain \<Rightarrow>
     (case exportEvidenceChain h execLog of
        Inl e \<Rightarrow> Inl (XExecutionLog e)
      | Inr execChain \<Rightarrow>
          let b = \<lparr>eb_format = EvidenceFormatV1, eb_defs = sort_history history, eb_defLog = defChain,
                   eb_execLog = execChain, eb_root = ''''\<rparr>
          in
     (case evidenceRootHash h b of
        Inl e \<Rightarrow> Inl (XRoot e)
      | Inr rootHash \<Rightarrow>
          (case VerifyEvidence h (b\<lparr>eb_root := rootHash\<rparr>) of
             Some e \<Rightarrow> Inl (XVerify e)
           | None \<Rightarrow> Inr (b\<lparr>eb_root := rootHash\<rparr>)))))))"

subsection \<open>What a verified bundle consists of\<close>

lemma verify_chain_linked:
  "verify_chain h i prev seq chain = Inr hd' \<Longrightarrow> chain \<noteq> [] \<Longrightarrow> hd' = ee_hash (last chain)"
  by (induction h i prev seq chain rule: verify_chain.induct) (auto split: if_splits sum.splits)

lemma verify_chain_append:
  "verify_chain h i prev seq (xs @ [e]) = Inr hd' \<Longrightarrow>
    ee_prev e = (if xs = [] then prev else ee_hash (last xs)) \<and> hashEvidenceEntry h (ee_prev e) (ee_occ e) = Inr (ee_hash e) \<and>
    verify_chain h i prev seq xs = Inr (ee_prev e)"
proof (induction xs arbitrary: i prev seq)
  case Nil
  then show ?case by (auto split: if_splits sum.splits)
next
  case (Cons x xs)
  from Cons.prems have x: "ee_prev x = prev" "\<not> (0 < i \<and> o_seq (ee_occ x) \<le> seq)"
    "hashEvidenceEntry h prev (ee_occ x) = Inr (ee_hash x)"
    and v: "verify_chain h (Suc i) (ee_hash x) (o_seq (ee_occ x)) (xs @ [e]) = Inr hd'"
    by (auto split: if_splits sum.splits)
  from Cons.IH [OF v] have ih: "ee_prev e = (if xs = [] then ee_hash x else ee_hash (last xs))"
    "hashEvidenceEntry h (ee_prev e) (ee_occ e) = Inr (ee_hash e)"
    "verify_chain h (Suc i) (ee_hash x) (o_seq (ee_occ x)) xs = Inr (ee_prev e)" by blast+
  show ?case
  proof (intro conjI)
    show "ee_prev e = (if x # xs = [] then prev else ee_hash (last (x # xs)))" using ih(1) by simp
    show "hashEvidenceEntry h (ee_prev e) (ee_occ e) = Inr (ee_hash e)" by (rule ih(2))
    show "verify_chain h i prev seq (x # xs) = Inr (ee_prev e)" using x ih(3) by auto
  qed
qed

lemma chainHead_verified: "verifyEvidenceChain h chain = Inr hd' \<Longrightarrow> hd' = chainHead chain"
  by (cases "chain = []") (auto simp: verifyEvidenceChain_def chainHead_def dest: verify_chain_linked)

lemma VerifyEvidence_None:
  assumes "VerifyEvidence h b = None"
  shows "eb_format b = EvidenceFormatV1" "verifyEvidenceChain h (eb_defLog b) = Inr (chainHead (eb_defLog b))"
    "verifyEvidenceChain h (eb_execLog b) = Inr (chainHead (eb_execLog b))" "evidenceRootHash h b = Inr (eb_root b)"
proof -
  from assms obtain dh eh where "eb_format b = EvidenceFormatV1" and
    d: "verifyEvidenceChain h (eb_defLog b) = Inr dh" and e: "verifyEvidenceChain h (eb_execLog b) = Inr eh" and
    "evidenceRootHash h b = Inr (eb_root b)"
    unfolding VerifyEvidence_def by (auto split: if_splits sum.splits option.splits)
  then show "eb_format b = EvidenceFormatV1" "verifyEvidenceChain h (eb_defLog b) = Inr (chainHead (eb_defLog b))"
    "verifyEvidenceChain h (eb_execLog b) = Inr (chainHead (eb_execLog b))" "evidenceRootHash h b = Inr (eb_root b)"
    using chainHead_verified [OF d] chainHead_verified [OF e] by simp_all
qed

subsection \<open>Objects with known keys\<close>

lemma map_of_sort: "distinct (map fst d) \<Longrightarrow> map_of (sort_key fst d) = map_of (d :: 'v dict)"
  by (rule map_of_inject_set [THEN iffD2]) (simp_all add: distinct_map)

lemma normal_object:
  assumes "distinct (dkeys d)" and "distinct (dkeys d')" and "normal (JObj d) = normal (JObj d')"
  shows "map_option normal (dget d k) = map_option normal (dget d' k)"
proof -
  have n: "dget (sort_key fst (map (\<lambda>(k, v). (k, normal v)) d)) k = map_option normal (dget d k)" if "distinct (dkeys d)" for d
  proof -
    have "distinct (map fst (map (\<lambda>(k, v). (k, normal v)) d))" using that by (simp add: comp_def split_def)
    from map_of_sort [OF this] show ?thesis by (simp add: map_of_map)
  qed
  from n [OF assms(1)] n [OF assms(2)] assms(3) show ?thesis by simp
qed

lemma digits_show_nat: "list_all digit (show_nat n) \<and> show_nat n \<noteq> [] \<and> (hd (show_nat n) = CHR ''0'' \<longrightarrow> n = 0)"
proof (induction n rule: show_nat.induct)
  case (1 n)
  have d: "digit (''0123456789'' ! m)" "''0123456789'' ! m = CHR ''0'' \<longleftrightarrow> m = 0" if "m < 10" for m
    using less_10_cases [OF that] by (auto simp: digit_def less_eq_char_def)
  show ?case
  proof (cases "n < 10")
    case True with d [OF True] show ?thesis by (simp add: show_nat.simps [of n])
  next
    case False
    with 1 d(1) [of "n mod 10"] show ?thesis by (auto simp: show_nat.simps [of n])
  qed
qed

lemma number_show_nat: "isValidNumber (show_nat n)"
proof (cases "show_nat n")
  case (Cons c cs)
  with digits_show_nat [of n] have c: "digit c" "list_all digit cs" "c = CHR ''0'' \<Longrightarrow> n = 0" by auto
  have z: "cs = []" if "n = 0" using Cons that by (simp add: show_nat.simps [of 0])
  have dw: "dropWhile digit cs = []" using c(2) by (simp add: list_all_iff dropWhile_eq_Nil_conv)
  have "c \<noteq> CHR ''-''" using c(1) by (auto simp: digit_def less_eq_char_def)
  with c(1,3) z Cons show ?thesis
    by (simp add: isValidNumber_def valid_unsigned_def valid_fraction_def dw)
qed (use digits_show_nat [of n] in simp)

subsection \<open>Tampering\<close>

text \<open>What the codec owes: decoded values of valid numbers.\<close>

definition codec_ok :: "codec \<Rightarrow> bool" where
  "codec_ok h \<longleftrightarrow> (\<forall>occ v. cd_occ h occ = Inr v \<longrightarrow> decoded v) \<and> (\<forall>def v. h_def h def = Inr v \<longrightarrow> decoded v) \<and>
     (\<forall>t. decoded (cd_time h t))"

text \<open>The texts whose digests a verification computes for its chains and its root.\<close>

definition entry_text :: "codec \<Rightarrow> evidence_entry \<Rightarrow> err + string" where
  "entry_text h e = (case cd_occ h (ee_occ e) of Inl x \<Rightarrow> Inl x | Inr v \<Rightarrow> canonicalJSON (entry_json (ee_prev e) v))"

definition root_text :: "codec \<Rightarrow> evidence_bundle \<Rightarrow> err + string" where
  "root_text h b = (case root_json h b of Inl x \<Rightarrow> Inl x | Inr v \<Rightarrow> canonicalJSON v)"

definition hashed_texts :: "codec \<Rightarrow> evidence_bundle \<Rightarrow> string set" where
  "hashed_texts h b = {t. Inr t \<in> insert (root_text h b) (entry_text h ` (set (eb_defLog b) \<union> set (eb_execLog b)))}"

text \<open>What a reader sees of an entry and of a definition: their canonical texts.\<close>

definition fact_text :: "codec \<Rightarrow> evidence_entry \<Rightarrow> err + string" where
  "fact_text h e = (case cd_occ h (ee_occ e) of Inl x \<Rightarrow> Inl x | Inr v \<Rightarrow> canonicalJSON v)"

definition definition_text :: "codec \<Rightarrow> evidence_definition \<Rightarrow> err + string" where
  "definition_text h d = (case definition_json h d of Inl x \<Rightarrow> Inl x | Inr v \<Rightarrow> canonicalJSON v)"

lemma hashed_entry:
  assumes "hashEvidenceEntry h (ee_prev e) (ee_occ e) = Inr (ee_hash e)"
  obtains v t where "cd_occ h (ee_occ e) = Inr v" "canonicalJSON (entry_json (ee_prev e) v) = Inr t"
    "entry_text h e = Inr t" "ee_hash e = h_sum h t"
  using assms by (auto simp: hashEvidenceEntry_def canonicalHash_def entry_text_def hasher.defs split: sum.splits)

lemma entry_inject:
  assumes "decoded v" and "decoded v'" and "canonicalJSON (entry_json p v) = canonicalJSON (entry_json p' v')"
  shows "p = p' \<and> canonicalJSON v = canonicalJSON v'"
proof -
  have d: "decoded (entry_json q w) \<longleftrightarrow> decoded w" for q w by (simp add: entry_json_def)
  have "normal (entry_json p v) = normal (entry_json p' v')" using assms canonical_inject by (simp add: d)
  note n = normal_object [OF _ _ this [unfolded entry_json_def]]
  from n [of "''previous''"] n [of "''occurrence''"] show ?thesis
    using canonical_inject [OF assms(1,2)] by simp
qed

text \<open>Two verified chains of one length and one head carry the same facts.\<close>

lemma chains_agree:
  assumes ok: "codec_ok h" and inj: "inj_on (h_sum h) T"
  shows "length xs = length ys \<Longrightarrow> verifyEvidenceChain h xs = Inr (chainHead xs) \<Longrightarrow> verifyEvidenceChain h ys = Inr (chainHead ys)
    \<Longrightarrow> chainHead xs = chainHead ys \<Longrightarrow> {t. Inr t \<in> entry_text h ` (set xs \<union> set ys)} \<subseteq> T
    \<Longrightarrow> map (fact_text h) xs = map (fact_text h) ys"
proof (induction xs arbitrary: ys rule: rev_induct)
  case Nil
  from Nil(1) have "ys = []" by simp
  then show ?case by simp
next
  case (snoc e xs)
  then obtain ys' e' where ys: "ys = ys' @ [e']" by (cases ys rule: rev_cases) auto
  from verify_chain_append [of h 0 "''''" 0 xs e] snoc.prems(2)
  have e: "hashEvidenceEntry h (ee_prev e) (ee_occ e) = Inr (ee_hash e)" "ee_prev e = chainHead xs"
    "verifyEvidenceChain h xs = Inr (chainHead xs)" by (auto simp: verifyEvidenceChain_def chainHead_def)
  from verify_chain_append [of h 0 "''''" 0 ys' e'] snoc.prems(3) ys
  have e': "hashEvidenceEntry h (ee_prev e') (ee_occ e') = Inr (ee_hash e')" "ee_prev e' = chainHead ys'"
    "verifyEvidenceChain h ys' = Inr (chainHead ys')" by (auto simp: verifyEvidenceChain_def chainHead_def)
  from e(1) obtain v t where v: "cd_occ h (ee_occ e) = Inr v" "canonicalJSON (entry_json (ee_prev e) v) = Inr t"
    "entry_text h e = Inr t" "ee_hash e = h_sum h t" by (rule hashed_entry)
  from e'(1) obtain v' t' where v': "cd_occ h (ee_occ e') = Inr v'" "canonicalJSON (entry_json (ee_prev e') v') = Inr t'"
    "entry_text h e' = Inr t'" "ee_hash e' = h_sum h t'" by (rule hashed_entry)
  have "h_sum h t = h_sum h t'" using snoc.prems(4) v(4) v'(4) by (simp add: ys chainHead_def)
  moreover have "t \<in> T" "t' \<in> T" using snoc.prems(5) v(3) v'(3) by (force simp: ys)+
  ultimately have "t = t'" using inj by (simp add: inj_on_def)
  with v(2) v'(2) have "canonicalJSON (entry_json (ee_prev e) v) = canonicalJSON (entry_json (ee_prev e') v')" by simp
  moreover have "decoded v" "decoded v'" using ok v(1) v'(1) by (auto simp: codec_ok_def)
  ultimately have "ee_prev e = ee_prev e'" "canonicalJSON v = canonicalJSON v'" using entry_inject by blast+
  moreover have "map (fact_text h) xs = map (fact_text h) ys'"
    using snoc.prems(1,5) e e' \<open>ee_prev e = ee_prev e'\<close> by (intro snoc.IH) (auto simp: ys)
  moreover have "fact_text h e = fact_text h e'"
    using \<open>canonicalJSON v = canonicalJSON v'\<close> v(1) v'(1) by (simp add: fact_text_def)
  ultimately show ?case by (simp add: ys)
qed

lemma definition_json_decoded: "codec_ok h \<Longrightarrow> definition_json h d = Inr v \<Longrightarrow> decoded v"
  by (auto simp: definition_json_def codec_ok_def info_json_def optional_field_def split: option.splits sum.splits)

lemma definitions_decoded:
  "codec_ok h \<Longrightarrow> traverse (definition_json h) ds = Inr vs \<Longrightarrow> list_all decoded vs"
  by (induction ds arbitrary: vs) (auto split: sum.splits intro: definition_json_decoded)

lemma definitions_agree:
  assumes ok: "codec_ok h" and n: "map normal vs = map normal ws"
    and vs: "traverse (definition_json h) ds = Inr vs" and ws: "traverse (definition_json h) es = Inr ws"
  shows "map (definition_text h) ds = map (definition_text h) es"
proof -
  have dt: "map (definition_text h) ds = map canonicalJSON vs" if "traverse (definition_json h) ds = Inr vs" for ds vs
    using that by (auto simp: traverse_Inr list_all2_conv_all_nth definition_text_def intro: nth_equalityI)
  have "canonicalJSON (vs ! i) = canonicalJSON (ws ! i)" if "i < length vs" for i
  proof -
    have l: "length vs = length ws" using n by (metis length_map)
    then have "normal (vs ! i) = normal (ws ! i)" using n that by (metis nth_map)
    moreover have "decoded (vs ! i)" "decoded (ws ! i)"
      using definitions_decoded [OF ok vs] definitions_decoded [OF ok ws] that l by (auto simp: list_all_iff)
    ultimately show ?thesis using canonical_inject by blast
  qed
  moreover have "length vs = length ws" using n by (metis length_map)
  ultimately have "map canonicalJSON vs = map canonicalJSON ws" by (intro nth_equalityI) simp_all
  then show ?thesis using dt [OF vs] dt [OF ws] by simp
qed

lemma roots_agree:
  assumes ok: "codec_ok h" and r: "root_json h b = Inr v" "root_json h b' = Inr v'"
    and eq: "canonicalJSON v = canonicalJSON v'"
  shows "map (definition_text h) (eb_defs b) = map (definition_text h) (eb_defs b')"
    "length (eb_defLog b) = length (eb_defLog b')" "chainHead (eb_defLog b) = chainHead (eb_defLog b')"
    "length (eb_execLog b) = length (eb_execLog b')" "chainHead (eb_execLog b) = chainHead (eb_execLog b')"
proof -
  from r obtain ds es where ds: "traverse (definition_json h) (eb_defs b) = Inr ds"
    and es: "traverse (definition_json h) (eb_defs b') = Inr es"
    and v: "v = JObj [(''format'', JStr (eb_format b)), (''definitions'', JArr ds),
          (''definitionLog'', summary_json (eb_defLog b)), (''executionLog'', summary_json (eb_execLog b))]"
    and v': "v' = JObj [(''format'', JStr (eb_format b')), (''definitions'', JArr es),
          (''definitionLog'', summary_json (eb_defLog b')), (''executionLog'', summary_json (eb_execLog b'))]"
    by (auto simp: root_json_def split: sum.splits)
  have dec: "decoded v" "decoded v'"
    using definitions_decoded [OF ok ds] definitions_decoded [OF ok es] by (simp_all add: v v' summary_json_def number_show_nat)
  with eq have "normal v = normal v'" using canonical_inject by blast
  note n = normal_object [OF _ _ this [unfolded v v']]
  have "map normal ds = map normal es" using n [of "''definitions''"] by simp
  then show "map (definition_text h) (eb_defs b) = map (definition_text h) (eb_defs b')"
    by (rule definitions_agree [OF ok _ ds es])
  have s: "length xs = length ys \<and> chainHead xs = chainHead ys" if "normal (summary_json xs) = normal (summary_json ys)" for xs ys
    using normal_object [OF _ _ that [unfolded summary_json_def], of "''count''"]
      normal_object [OF _ _ that [unfolded summary_json_def], of "''head''"] by simp
  show "length (eb_defLog b) = length (eb_defLog b')" "chainHead (eb_defLog b) = chainHead (eb_defLog b')"
    using s [of "eb_defLog b" "eb_defLog b'"] n [of "''definitionLog''"] by simp_all
  show "length (eb_execLog b) = length (eb_execLog b')" "chainHead (eb_execLog b) = chainHead (eb_execLog b')"
    using s [of "eb_execLog b" "eb_execLog b'"] n [of "''executionLog''"] by simp_all
qed

lemma same_root_same_content:
  assumes ok: "codec_ok h" and v: "VerifyEvidence h b = None" "VerifyEvidence h b' = None"
    and inj: "inj_on (h_sum h) (hashed_texts h b \<union> hashed_texts h b')" and root: "eb_root b = eb_root b'"
  shows "map (definition_text h) (eb_defs b) = map (definition_text h) (eb_defs b') \<and>
    map (fact_text h) (eb_defLog b) = map (fact_text h) (eb_defLog b') \<and>
    map (fact_text h) (eb_execLog b) = map (fact_text h) (eb_execLog b')"
proof -
  note b = VerifyEvidence_None [OF v(1)] and b' = VerifyEvidence_None [OF v(2)]
  let ?T = "hashed_texts h b \<union> hashed_texts h b'"
  from b(4) obtain w t where w: "root_json h b = Inr w" "canonicalJSON w = Inr t" "h_sum h t = eb_root b"
    by (auto simp: evidenceRootHash_def canonicalHash_def hasher.defs split: sum.splits)
  from b'(4) obtain w' t' where w': "root_json h b' = Inr w'" "canonicalJSON w' = Inr t'" "h_sum h t' = eb_root b'"
    by (auto simp: evidenceRootHash_def canonicalHash_def hasher.defs split: sum.splits)
  have "t \<in> ?T" "t' \<in> ?T" using w w' by (simp_all add: hashed_texts_def root_text_def)
  then have "t = t'" using inj w(3) w'(3) root by (simp add: inj_on_def)
  then have eq: "canonicalJSON w = canonicalJSON w'" using w(2) w'(2) by simp
  note r = roots_agree [OF ok w(1) w'(1) eq]
  have "{t. Inr t \<in> entry_text h ` (set (eb_defLog b) \<union> set (eb_defLog b'))} \<subseteq> ?T"
    "{t. Inr t \<in> entry_text h ` (set (eb_execLog b) \<union> set (eb_execLog b'))} \<subseteq> ?T"
    by (auto simp: hashed_texts_def)
  with r chains_agree [OF ok inj r(2) b(2) b'(2) r(3)] chains_agree [OF ok inj r(4) b(3) b'(3) r(5)]
  show ?thesis by blast
qed

end
