(* ===== verification/Bundle.thy ===== *)
theory Bundle
  imports Attribution Evidence
begin

text \<open>
  What evidence bundles are good for: the accounts the engine keeps can always be exported, the
  export is verified, and no two different bundles with one root hash are both verified.
\<close>

subsection \<open>The order of the history\<close>

definition key_le :: "string \<times> string \<Rightarrow> string \<times> string \<Rightarrow> bool" where
  "key_le p q \<longleftrightarrow> fst p < fst q \<or> fst p = fst q \<and> snd p \<le> snd q"

lemma insort_lexicographic:
  "sorted_wrt (\<lambda>a b. key_le (version_key a) (version_key b)) zs \<Longrightarrow>
    (\<forall>z \<in> set zs. snd (version_key y) \<le> snd (version_key z)) \<Longrightarrow>
    sorted_wrt (\<lambda>a b. key_le (version_key a) (version_key b)) (insort_key (\<lambda>d. fst (version_key d)) y zs)"
  by (induction zs) (auto simp: key_le_def set_insort_key not_le intro: less_trans)

lemma sort_history_sorted: "sorted_wrt (\<lambda>a b. key_le (version_key a) (version_key b)) (sort_history ds)"
proof -
  have "sorted (map (\<lambda>d. snd (version_key d)) ys) \<Longrightarrow>
      sorted_wrt (\<lambda>a b. key_le (version_key a) (version_key b)) (sort_key (\<lambda>d. fst (version_key d)) ys)" for ys
    by (induction ys) (auto intro!: insort_lexicographic)
  then show ?thesis by (simp add: sort_history_def)
qed

lemma sort_history_set [simp]: "set (sort_history ds) = set ds" "distinct (map f (sort_history ds)) = distinct (map f ds)"
  by (simp_all add: sort_history_def distinct_map)

lemma sort_history_Nil [simp]: "sort_history ds = [] \<longleftrightarrow> ds = []"
  by (metis set_empty sort_history_set(1))

subsection \<open>Verified definitions\<close>

definition sound_definition :: "codec \<Rightarrow> evidence_definition \<Rightarrow> bool" where
  "sound_definition h d \<longleftrightarrow> (\<exists>def. ed_def d = Some def \<and> pd_id def \<noteq> '''' \<and> pd_version def \<noteq> '''' \<and>
     hashProcessDef (hasher.truncate h) def = Inr (ed_hash d))"

lemma verify_defs_passes:
  "list_all (sound_definition h) ds \<Longrightarrow> distinct (map version_key ds)
    \<Longrightarrow> sorted_wrt (\<lambda>a b. key_le (version_key a) (version_key b)) ds
    \<Longrightarrow> (0 < i \<longrightarrow> (\<forall>d \<in> set ds. key_le prev (version_key d) \<and> prev \<noteq> version_key d))
    \<Longrightarrow> \<exists>known'. verify_defs h i prev known ds = Inr known' \<and>
       (\<forall>d \<in> set ds. map_of known' (version_key d) = Some d) \<and>
       (\<forall>key. key \<notin> version_key ` set ds \<longrightarrow> map_of known' key = map_of known key)"
proof (induction ds arbitrary: i prev known)
  case (Cons d ds)
  then obtain def where d: "ed_def d = Some def" "pd_id def \<noteq> ''''" "pd_version def \<noteq> ''''"
    "hashProcessDef (hasher.truncate h) def = Inr (ed_hash d)" by (auto simp: sound_definition_def)
  then have key: "version_key d = (pd_id def, pd_version def)" by (simp add: version_key_def)
  have ordered: "\<not> (0 < i \<and> (pd_id def < fst prev \<or> fst prev = pd_id def \<and> pd_version def \<le> snd prev))"
    using Cons.prems(4) key by (auto simp: key_le_def prod_eq_iff)
  let ?known = "AList.update (pd_id def, pd_version def) d known"
  have "\<exists>known'. verify_defs h (Suc i) (version_key d) ?known ds = Inr known' \<and>
       (\<forall>d \<in> set ds. map_of known' (version_key d) = Some d) \<and>
       (\<forall>key. key \<notin> version_key ` set ds \<longrightarrow> map_of known' key = map_of ?known key)"
    using Cons.prems by (intro Cons.IH) auto
  then obtain known' where k: "verify_defs h (Suc i) (version_key d) ?known ds = Inr known'"
    "\<forall>d \<in> set ds. map_of known' (version_key d) = Some d"
    "\<forall>key. key \<notin> version_key ` set ds \<longrightarrow> map_of known' key = map_of ?known key" by blast
  have "version_key d \<notin> version_key ` set ds" using Cons.prems(2) by simp
  then have "map_of known' (version_key d) = Some d" using k(3) key by (simp add: update_conv')
  moreover have "verify_defs h i prev known (d # ds) = Inr known'" using d ordered k(1) key by auto
  ultimately show ?case using k(2,3) key by (intro exI [of _ known']) (auto simp: update_conv')
qed auto

subsection \<open>Exported chains\<close>

definition faithful :: "codec \<Rightarrow> occurrence list \<Rightarrow> bool" where
  "faithful h occs \<longleftrightarrow> (\<forall>occ \<in> set occs. cd_cloneOcc h occ = Inr occ \<and> (\<exists>v. cd_occ h occ = Inr v \<and> decoded v))"

lemma hash_succeeds:
  assumes "faithful h [occ]"
  shows "\<exists>t. hashEvidenceEntry h prev occ = Inr (h_sum h t)"
proof -
  from assms obtain v where v: "cd_occ h occ = Inr v" "decoded v" by (auto simp: faithful_def)
  have "decoded (entry_json prev v)" using v(2) by (simp add: entry_json_def)
  from canonicalJSON_text [OF this] v(1) show ?thesis
    by (auto simp: hashEvidenceEntry_def canonicalHash_def hasher.defs)
qed

lemma export_chain_passes:
  "faithful h occs \<Longrightarrow> sorted_wrt (<) (map o_seq occs) \<Longrightarrow> (0 < i \<longrightarrow> (\<forall>occ \<in> set occs. seq < o_seq occ))
    \<Longrightarrow> \<exists>chain. export_chain h i prev occs = Inr chain \<and> map ee_occ chain = occs \<and>
      (\<exists>hd'. verify_chain h i prev seq chain = Inr hd' \<and> (occs \<noteq> [] \<longrightarrow> (\<exists>t. hd' = h_sum h t)))"
proof (induction occs arbitrary: i prev seq)
  case (Cons occ occs)
  have "faithful h [occ]" using Cons.prems(1) by (simp add: faithful_def)
  from hash_succeeds [OF this, of prev] obtain t where t: "hashEvidenceEntry h prev occ = Inr (h_sum h t)" by blast
  have "\<exists>chain. export_chain h (Suc i) (h_sum h t) occs = Inr chain \<and> map ee_occ chain = occs \<and>
      (\<exists>hd'. verify_chain h (Suc i) (h_sum h t) (o_seq occ) chain = Inr hd' \<and> (occs \<noteq> [] \<longrightarrow> (\<exists>t. hd' = h_sum h t)))"
    using Cons.prems by (intro Cons.IH) (auto simp: faithful_def)
  then obtain chain hd' where c: "export_chain h (Suc i) (h_sum h t) occs = Inr chain" "map ee_occ chain = occs"
    "verify_chain h (Suc i) (h_sum h t) (o_seq occ) chain = Inr hd'" "occs \<noteq> [] \<longrightarrow> (\<exists>t. hd' = h_sum h t)" by blast
  have hd': "\<exists>t. hd' = h_sum h t"
  proof (cases occs)
    case Nil
    with c show ?thesis by auto
  next
    case Cons
    with c(4) show ?thesis by simp
  qed
  have "export_chain h i prev (occ # occs) = Inr (\<lparr>ee_occ = occ, ee_prev = prev, ee_hash = h_sum h t\<rparr> # chain)"
    using Cons.prems(1) t c(1) by (simp add: faithful_def)
  moreover have "verify_chain h i prev seq (\<lparr>ee_occ = occ, ee_prev = prev, ee_hash = h_sum h t\<rparr> # chain) = Inr hd'"
    using Cons.prems(3) t c(3) by auto
  ultimately show ?case using c(2) hd' by auto
qed simp

subsection \<open>Export\<close>

text \<open>The facts of one execution, as \<open>LoadOccurrences\<close> returns them.\<close>

definition one_execution :: "occurrence list \<Rightarrow> bool" where
  "one_execution occs \<longleftrightarrow> (\<exists>iid xid. iid \<noteq> '''' \<and> (\<forall>occ \<in> set occs. o_instance occ = iid \<and> o_execution occ = xid \<and>
     o_kind occ \<noteq> OccDefActivated \<and> o_defid occ = '''' \<and> o_defversion occ = '''' \<and> o_activation occ = None)) \<and>
     (\<exists>occ \<in> set occs. o_kind occ = OccStarted)"

lemma verify_execLog_passes:
  assumes "iid \<noteq> ''''"
  shows "\<forall>e \<in> set chain. o_instance (ee_occ e) = iid \<and> o_execution (ee_occ e) = xid \<and> o_kind (ee_occ e) \<noteq> OccDefActivated \<and>
      o_defid (ee_occ e) = '''' \<and> o_defversion (ee_occ e) = '''' \<and> o_activation (ee_occ e) = None \<Longrightarrow>
    i \<noteq> 0 \<longrightarrow> ids = (iid, xid) \<Longrightarrow>
    verify_execLog i ids begun chain = Inr (begun \<or> (\<exists>e \<in> set chain. o_kind (ee_occ e) = OccStarted))"
  using assms by (induction chain arbitrary: i ids begun) auto

text \<open>The definition is the one that was registered: its ID, its version and its hash.\<close>

definition delivered :: "codec \<Rightarrow> registry \<Rightarrow> process_def \<Rightarrow> bool" where
  "delivered h r def \<longleftrightarrow> pd_id def \<noteq> '''' \<and> pd_version def \<noteq> '''' \<and> cd_cloneDef h def = Inr def \<and>
     (\<exists>v. h_def h def = Inr v \<and> decoded v) \<and>
     (\<exists>e. GetVersion r (pd_id def) (pd_version def) = Some e \<and> hashProcessDef (hasher.truncate h) def = Inr (ve_hash e))"

definition exported :: "registry \<Rightarrow> process_def \<Rightarrow> evidence_definition" where
  "exported r def = (let e = the (GetVersion r (pd_id def) (pd_version def))
     in \<lparr>ed_def = Some def, ed_hash = ve_hash e, ed_info = ve_info e\<rparr>)"

lemma exported_facts:
  assumes "delivered h r def"
  shows "export_def h r def = Inr (exported r def)" "sound_definition h (exported r def)"
    "version_key (exported r def) = (pd_id def, pd_version def)" "\<exists>v. definition_json h (exported r def) = Inr v"
  using assms by (auto simp: delivered_def export_def_def exported_def sound_definition_def version_key_def definition_json_def)

lemma verify_defLog_passes:
  assumes known: "\<And>def. def \<in> set defs \<Longrightarrow> map_of known (pd_id def, pd_version def) = Some (exported r def)"
  shows "\<forall>e \<in> set chain. definition_fact r (ee_occ e) \<and>
      (\<exists>def \<in> set defs. o_defid (ee_occ e) = pd_id def \<and> o_defversion (ee_occ e) = pd_version def)
    \<Longrightarrow> verify_defLog known i chain = None"
proof (induction chain arbitrary: i)
  case (Cons e chain)
  then obtain def st where def: "def \<in> set defs" "o_defid (ee_occ e) = pd_id def" "o_defversion (ee_occ e) = pd_version def"
    and fact: "o_kind (ee_occ e) = OccDefActivated" "o_instance (ee_occ e) = ''''" "o_execution (ee_occ e) = ''''"
    "o_activation (ee_occ e) = Some st" "accountable r (pd_id def) (pd_version def) st"
    by (auto simp: definition_fact_def)
  from fact(5) obtain en where en: "GetVersion r (pd_id def) (pd_version def) = Some en"
    "as_def st = pd_id def" "as_version st = pd_version def" "as_hash st = ve_hash en"
    "as_proposer st = vi_proposer (ve_info en)" "as_owner st = vi_owner (ve_info en)"
    by (auto simp: accountable_def activated_state_def)
  have "verify_defLog known i (e # chain) = verify_defLog known (Suc i) chain"
    using fact en known [OF def(1)] by (simp add: def(2,3) exported_def)
  then show ?case using Cons by simp
qed simp

lemma root_succeeds:
  assumes "\<forall>d \<in> set (eb_defs b). \<exists>v. definition_json h d = Inr v" and "codec_ok h"
  shows "\<exists>t. evidenceRootHash h b = Inr (h_sum h t)"
proof -
  have "traverse (definition_json h) (eb_defs b) = Inr (map (\<lambda>d. projr (definition_json h d)) (eb_defs b))"
    using assms(1) by (intro traverse_total) force
  then obtain vs where vs: "traverse (definition_json h) (eb_defs b) = Inr vs" by blast
  let ?v = "JObj [(''format'', JStr (eb_format b)), (''definitions'', JArr vs),
          (''definitionLog'', summary_json (eb_defLog b)), (''executionLog'', summary_json (eb_execLog b))]"
  have "decoded ?v" using definitions_decoded [OF assms(2) vs] by (simp add: summary_json_def number_show_nat)
  from canonicalJSON_text [OF this] vs show ?thesis
    by (auto simp: evidenceRootHash_def root_json_def canonicalHash_def hasher.defs)
qed

lemma root_of_root [simp]: "evidenceRootHash h (b\<lparr>eb_root := x\<rparr>) = evidenceRootHash h b"
  by (simp add: evidenceRootHash_def root_json_def cong: sum.case_cong)

lemma export_succeeds:
  assumes codec: "codec_ok h" "\<And>t. h_sum h t \<noteq> ''''"
    and defs: "defs \<noteq> []" "\<forall>def \<in> set defs. delivered h r def" "distinct (map (\<lambda>def. (pd_id def, pd_version def)) defs)"
    and dlog: "faithful h dlog" "sorted_wrt (<) (map o_seq dlog)"
      "\<forall>occ \<in> set dlog. definition_fact r occ \<and> (\<exists>def \<in> set defs. o_defid occ = pd_id def \<and> o_defversion occ = pd_version def)"
    and elog: "faithful h elog" "sorted_wrt (<) (map o_seq elog)" "one_execution elog"
  shows "\<exists>b. ExportEvidence h defs (Some r) dlog elog = Inr b \<and> VerifyEvidence h b = None \<and>
    map ee_occ (eb_defLog b) = dlog \<and> map ee_occ (eb_execLog b) = elog"
proof -
  let ?hist = "map (exported r) defs"
  have hist: "traverse (export_def h r) defs = Inr ?hist"
    using defs(2) exported_facts(1) by (intro traverse_total) blast
  from export_chain_passes [OF dlog(1,2), of 0 0 "''''"] obtain dc dh where
    dc: "exportEvidenceChain h dlog = Inr dc" "map ee_occ dc = dlog" "verifyEvidenceChain h dc = Inr dh"
      "dlog \<noteq> [] \<longrightarrow> (\<exists>t. dh = h_sum h t)"
    by (auto simp: exportEvidenceChain_def verifyEvidenceChain_def)
  from export_chain_passes [OF elog(1,2), of 0 0 "''''"] obtain ec eh where
    ec: "exportEvidenceChain h elog = Inr ec" "map ee_occ ec = elog" "verifyEvidenceChain h ec = Inr eh"
      "elog \<noteq> [] \<longrightarrow> (\<exists>t. eh = h_sum h t)"
    by (auto simp: exportEvidenceChain_def verifyEvidenceChain_def)
  let ?b = "\<lparr>eb_format = EvidenceFormatV1, eb_defs = sort_history ?hist, eb_defLog = dc, eb_execLog = ec, eb_root = ''''\<rparr>"
  have "\<forall>d \<in> set (eb_defs ?b). \<exists>v. definition_json h d = Inr v" using defs(2) exported_facts(4) by auto
  from root_succeeds [OF this codec(1)] obtain t where root: "evidenceRootHash h ?b = Inr (h_sum h t)" by blast
  let ?b' = "?b\<lparr>eb_root := h_sum h t\<rparr>"
  have root': "evidenceRootHash h ?b' = Inr (h_sum h t)" unfolding root_of_root by (rule root)
  have keys: "map version_key ?hist = map (\<lambda>def. (pd_id def, pd_version def)) defs" using defs(2) exported_facts(3) by auto
  have sound: "\<forall>d \<in> set ?hist. sound_definition h d" using defs(2) exported_facts(2) by auto
  have "\<exists>known. verify_defs h 0 ('''', '''') [] (sort_history ?hist) = Inr known \<and>
      (\<forall>d \<in> set (sort_history ?hist). map_of known (version_key d) = Some d) \<and>
      (\<forall>key. key \<notin> version_key ` set (sort_history ?hist) \<longrightarrow> map_of known key = map_of [] key)"
    using defs(3) sound sort_history_sorted
    by (intro verify_defs_passes) (simp_all add: list_all_iff keys del: set_map map_map)
  then obtain known where known: "verify_defs h 0 ('''', '''') [] (sort_history ?hist) = Inr known"
    "\<forall>d \<in> set ?hist. map_of known (version_key d) = Some d" by auto
  have "map_of known (pd_id def, pd_version def) = Some (exported r def)" if "def \<in> set defs" for def
    using known(2) that defs(2) exported_facts(3) by fastforce
  from verify_defLog_passes [of defs known r dc 0, OF this] dlog(3) dc(2)
  have dl: "verify_defLog known 0 dc = None" by (metis (no_types, lifting) image_eqI list.set_map)
  from elog(3) obtain iid xid where x: "iid \<noteq> ''''"
    "\<forall>occ \<in> set elog. o_instance occ = iid \<and> o_execution occ = xid \<and>
     o_kind occ \<noteq> OccDefActivated \<and> o_defid occ = '''' \<and> o_defversion occ = '''' \<and> o_activation occ = None"
    "\<exists>occ \<in> set elog. o_kind occ = OccStarted" by (auto simp: one_execution_def)
  have sub: "ee_occ e \<in> set elog" if "e \<in> set ec" for e using that ec(2) by auto
  have "verify_execLog 0 ('''', '''') False ec = Inr (False \<or> (\<exists>e \<in> set ec. o_kind (ee_occ e) = OccStarted))"
    by (rule verify_execLog_passes [OF x(1)]) (use x(2) sub in auto)
  moreover have "\<exists>e \<in> set ec. o_kind (ee_occ e) = OccStarted" using x(3) ec(2) by auto
  ultimately have el: "verify_execLog 0 ('''', '''') False ec = Inr True" by simp
  have ne: "elog \<noteq> []" "ec \<noteq> []" "sort_history ?hist \<noteq> []" using x(3) ec(2) defs(1) by auto
  have heads: "dh \<noteq> ''''" if "dc \<noteq> []"
  proof -
    have "dlog \<noteq> []" using that dc(2) by auto
    with dc(4) obtain t where "dh = h_sum h t" by blast
    with codec(2) [of t] show ?thesis by simp
  qed
  from ec(4) ne(1) obtain t' where "eh = h_sum h t'" by blast
  with codec(2) [of t'] have eh: "eh \<noteq> ''''" by simp
  have ver: "VerifyEvidence h ?b' = None"
    using known(1) dc(3) dl ec(3) el root' ne heads eh by (auto simp: VerifyEvidence_def)
  have "ExportEvidence h defs (Some r) dlog elog = Inr ?b'"
    using defs(1) hist dc(1) ec(1) root ver by (simp add: ExportEvidence_def Let_def)
  with ver dc(2) ec(2) show ?thesis by auto
qed

subsection \<open>A sample bundle\<close>

definition sample_codec :: codec where
  "sample_codec = \<lparr>h_sum = h_sum sample_hasher, h_def = h_def sample_hasher,
     cd_occ = (\<lambda>occ. Inr (JObj [(''seq'', JNum (show_nat (nat (o_seq occ)))), (''instanceId'', JStr (o_instance occ))])),
     cd_time = (\<lambda>t. JNum (show_nat (nat t))), cd_cloneDef = Inr, cd_cloneOcc = Inr\<rparr>"

definition sample_log :: "string \<Rightarrow> occurrence list" where
  "sample_log k = [(blank_occ OccStarted)\<lparr>o_seq := 1, o_instance := k, o_execution := ''x''\<rparr>]"

lemma sample_codec_facts:
  "hasher.truncate sample_codec = sample_hasher" "codec_ok sample_codec" "h_sum sample_codec t \<noteq> ''''"
  "inj_on (h_sum sample_codec) T" "faithful sample_codec occs"
  by (simp_all add: sample_codec_def sample_hasher_def hasher.defs codec_ok_def number_show_nat inj_on_def faithful_def)

lemma sample_delivered: "delivered sample_codec sample_registry (sample_def ''s'' [])"
  by (simp add: delivered_def sample_codec_facts(1),
      simp add: sample_codec_def sample_hasher_def sample_registry_def RegisterVersion_def sample_def_def hashProcessDef_def
        NewVersionRegistry_def versionsOf_def GetVersion_def Let_def split: sum.split)

lemma sample_one_execution: "k \<noteq> '''' \<Longrightarrow> one_execution (sample_log k)"
  by (simp add: one_execution_def sample_log_def blank_occ_def)

subsection \<open>Properties\<close>



text \<open>C34: tampering shows. Two bundles that both verify and have one root hash say the same: the same
  definitions with the same hashes and attributions, and the same facts in both accounts, in the
  same order, none missing. The digest may collide elsewhere; all that is asked is that it
  is injective on the texts these two verifications hash.\<close>

theorem tampering_shows:
  assumes "codec_ok h" and "VerifyEvidence h b = None" and "VerifyEvidence h b' = None"
    and "inj_on (h_sum h) (hashed_texts h b \<union> hashed_texts h b')" and "eb_root b = eb_root b'"
  shows "map (definition_text h) (eb_defs b) = map (definition_text h) (eb_defs b') \<and>
    map (fact_text h) (eb_defLog b) = map (fact_text h) (eb_defLog b') \<and>
    map (fact_text h) (eb_execLog b) = map (fact_text h) (eb_execLog b')"
  by (rule same_root_same_content [OF assms])

theorem tampering_shows_witness:
  "\<exists>b b'. VerifyEvidence sample_codec b = None \<and> VerifyEvidence sample_codec b' = None \<and>
    map ee_occ (eb_execLog b) = sample_log ''i'' \<and> map ee_occ (eb_execLog b') = sample_log ''k'' \<and> eb_root b \<noteq> eb_root b'"
proof -
  have ex: "\<exists>b. VerifyEvidence sample_codec b = None \<and> map ee_occ (eb_execLog b) = sample_log k" if "k \<noteq> ''''" for k
    using export_succeeds [of sample_codec "[sample_def ''s'' []]" sample_registry "[]" "sample_log k"]
      sample_codec_facts sample_delivered sample_one_execution [OF that] by (auto simp: sample_log_def)
  from ex [of "''i''"] obtain b where b: "VerifyEvidence sample_codec b = None" "map ee_occ (eb_execLog b) = sample_log ''i''" by auto
  from ex [of "''k''"] obtain b' where b': "VerifyEvidence sample_codec b' = None" "map ee_occ (eb_execLog b') = sample_log ''k''" by auto
  have ft: "fact_text sample_codec e = Inr (text_of (normal (JObj [(''seq'', JNum (show_nat (nat (o_seq (ee_occ e))))), (''instanceId'', JStr (o_instance (ee_occ e)))])))" for e
    by (simp only: fact_text_def sample_codec_def codec.simps sum.case)
      (rule canonicalJSON_text, simp add: number_show_nat)
  have "map (fact_text sample_codec) (eb_execLog b) \<noteq> map (fact_text sample_codec) (eb_execLog b')"
  proof -
    from b(2) obtain e where e: "eb_execLog b = [e]" "o_seq (ee_occ e) = 1" "o_instance (ee_occ e) = ''i''"
      by (auto simp: sample_log_def map_eq_Cons_conv)
    from b'(2) obtain e' where e': "eb_execLog b' = [e']" "o_seq (ee_occ e') = 1" "o_instance (ee_occ e') = ''k''"
      by (auto simp: sample_log_def map_eq_Cons_conv)
    have "text_of (normal (JObj [(''seq'', JNum (show_nat 1)), (''instanceId'', JStr ''i'')])) \<noteq>
        text_of (normal (JObj [(''seq'', JNum (show_nat 1)), (''instanceId'', JStr ''k'')]))" by code_simp
    with e e' show ?thesis by (simp add: ft del: normal.simps text_of.simps)
  qed
  with tampering_shows [OF sample_codec_facts(2) b(1) b'(1) sample_codec_facts(4)] b b' show ?thesis by blast
qed

end
