(* ===== verification/Parser.thy ===== *)
theory Parser
  imports Process Json
begin

text \<open>
  The parser (\<open>src/dsl/parser.go\<close>) and the decoding of type declarations (\<open>types.go\<close>), from the
  JSON value of the text. \<open>json.Unmarshal\<close> into the raw structures is written out: a field is
  looked up by its name, letter case aside, \<open>null\<close> and absence leave the zero value, and any value
  of a wrong kind is an error. \<open>pe_text\<close> is the source text of a value (a \<open>json.RawMessage\<close>),
  \<open>pe_float\<close> the reading of a number as a \<open>float64\<close>, \<open>None\<close> when it is out of range, and
  \<open>pe_order\<close> the order of a \<open>range\<close> over a map.
\<close>

record parser_env =
  pe_text :: "json \<Rightarrow> string"
  pe_float :: "string \<Rightarrow> rat option"
  pe_order :: "string list \<Rightarrow> string list"

subsection \<open>Fields of a JSON object\<close>

definition lower :: "char \<Rightarrow> char" where
  "lower c = (if CHR ''A'' \<le> c \<and> c \<le> CHR ''Z'' then char_of ((of_char c :: nat) + 32) else c)"

text \<open>The last key that names the field wins.\<close>

definition jfield :: "string \<Rightarrow> json dict \<Rightarrow> json option" where
  "jfield name d = map_option snd (find (\<lambda>(k, v). map lower k = map lower name) (rev d))"

text \<open>A map takes the keys as they are, the last of equal ones.\<close>

definition jmap :: "json dict \<Rightarrow> json dict" where
  "jmap d = foldl (\<lambda>m (k, v). dput k v m) [] d"

lemma jfield_size: "jfield name d = Some v \<Longrightarrow> size v < Suc (size_list (size_prod (\<lambda>x. 0) size) d)"
proof -
  assume "jfield name d = Some v"
  then obtain k where "(k, v) \<in> set d" by (auto simp: jfield_def find_Some_iff) (metis nth_mem set_rev length_rev)
  then show ?thesis by (rule size_entry)
qed

lemma jmap_set: "set (jmap d) \<subseteq> set d"
proof -
  have "set (foldl (\<lambda>m (k, v). dput k v m) m d) \<subseteq> set m \<union> set d" for m
  proof (induction d arbitrary: m)
    case (Cons x d)
    obtain k v where x: "x = (k, v)" by (cases x)
    have "set (dput k v m) \<subseteq> insert (k, v) (set m)" by (induction m) auto
    with Cons.IH [of "dput k v m"] show ?case by (auto simp: x)
  qed simp
  from this [of "[]"] show ?thesis by (simp add: jmap_def)
qed

lemma jmap_keys: "distinct (dkeys (jmap d))"
proof -
  have "distinct (dkeys m) \<Longrightarrow> distinct (dkeys (foldl (\<lambda>m (k, v). dput k v m) m d))" for m
    by (induction d arbitrary: m) (auto intro: distinct_update)
  then show ?thesis by (simp add: jmap_def)
qed

datatype type_error =
    TBase err | TInvalid json | TField string type_error | TElem type_error | TNoValues | TNoType json

datatype parse_error =
    PJson | PVersionRequired | PUnsupportedVersion string | PIDRequired | PNoNodes
  | PVariable string type_error | PVariableInit string
  | PNodeIDRequired nat | PDuplicateID nat string | PAIOutput nat string type_error
  | PNoTarget nat nat string | PManyStarts string string | PNoStart

subsection \<open>Decoding of fields\<close>

definition dstr :: "json option \<Rightarrow> unit + string" where
  "dstr v = (case v of None \<Rightarrow> Inr '''' | Some JNull \<Rightarrow> Inr '''' | Some (JStr s) \<Rightarrow> Inr s | _ \<Rightarrow> Inl ())"

definition dbool :: "json option \<Rightarrow> unit + bool" where
  "dbool v = (case v of None \<Rightarrow> Inr False | Some JNull \<Rightarrow> Inr False | Some (JBool b) \<Rightarrow> Inr b | _ \<Rightarrow> Inl ())"

definition read_int :: "string \<Rightarrow> int option" where
  "read_int s =
     (case s of [] \<Rightarrow> None
      | c # cs \<Rightarrow>
          let neg = (c = CHR ''-''); ds = (if neg then cs else s);
              i = (if neg then - int (read_nat ds) else int (read_nat ds))
          in if ds \<noteq> [] \<and> list_all digit ds \<and> - (2 ^ 63) \<le> i \<and> i < 2 ^ 63 then Some i else None)"

definition dint :: "json option \<Rightarrow> unit + int" where
  "dint v = (case v of None \<Rightarrow> Inr 0 | Some JNull \<Rightarrow> Inr 0
     | Some (JNum s) \<Rightarrow> (case read_int s of None \<Rightarrow> Inl () | Some i \<Rightarrow> Inr i) | _ \<Rightarrow> Inl ())"

definition dlist :: "(json \<Rightarrow> unit + 'a) \<Rightarrow> json option \<Rightarrow> unit + 'a list" where
  "dlist f v = (case v of None \<Rightarrow> Inr [] | Some JNull \<Rightarrow> Inr [] | Some (JArr vs) \<Rightarrow> traverse f vs | _ \<Rightarrow> Inl ())"

definition dptr :: "(json \<Rightarrow> unit + 'a) \<Rightarrow> json option \<Rightarrow> unit + 'a option" where
  "dptr f v = (case v of None \<Rightarrow> Inr None | Some JNull \<Rightarrow> Inr None | Some w \<Rightarrow> map_sum id Some (f w))"

lemma dptr_cong [fundef_cong]: "v = v' \<Longrightarrow> (\<And>w. v' = Some w \<Longrightarrow> f w = g w) \<Longrightarrow> dptr f v = dptr g v'"
  by (auto simp: dptr_def split: option.split json.split)

definition dmap :: "(json \<Rightarrow> unit + 'a) \<Rightarrow> json option \<Rightarrow> unit + 'a dict" where
  "dmap f v = (case v of None \<Rightarrow> Inr [] | Some JNull \<Rightarrow> Inr []
     | Some (JObj d) \<Rightarrow> traverse (\<lambda>(k, w). map_sum id (Pair k) (f w)) (jmap d) | _ \<Rightarrow> Inl ())"

text \<open>The fields of a structure; \<open>null\<close> leaves them all zero.\<close>

definition dobj :: "json \<Rightarrow> unit + json dict" where
  "dobj v = (case v of JNull \<Rightarrow> Inr [] | JObj d \<Rightarrow> Inr d | _ \<Rightarrow> Inl ())"

subsection \<open>Declared types\<close>

definition objectOf :: "json option \<Rightarrow> json dict" where
  "objectOf v = (case v of Some (JObj d) \<Rightarrow> jmap d | _ \<Rightarrow> [])"

lemma objectOf_entry:
  assumes "(k, v) \<in> set (objectOf w)"
  obtains d where "w = Some (JObj d)" "(k, v) \<in> set d"
proof -
  from assms obtain d where w: "w = Some (JObj d)" and "(k, v) \<in> set (jmap d)"
    by (cases w; cases "the w") (auto simp: objectOf_def)
  with jmap_set [of d] that show ?thesis by blast
qed

text \<open>The order in which \<open>json.Unmarshal\<close> is tried: a string first, which \<open>null\<close> satisfies too.\<close>

function DecodeTypeSpec :: "json \<Rightarrow> type_error + ty" where
  "DecodeTypeSpec (JStr s) = map_sum TBase id (simpleType s)"
| "DecodeTypeSpec JNull = map_sum TBase id (simpleType '''')"
| "DecodeTypeSpec (JObj d) =
     (case (dstr (jfield ''type'' d), dmap Inr (jfield ''fields'' d), dlist (\<lambda>v. dstr (Some v)) (jfield ''values'' d)) of
        (Inr ty, Inr flds, Inr vals) \<Rightarrow>
          if ty = ''object'' then
            map_sum id ObjectType
              (traverse (\<lambda>(k, v). case DecodeTypeSpec v of Inl e \<Rightarrow> Inl (TField k e) | Inr t \<Rightarrow> Inr (k, Some t, False))
                 (sort_key fst (objectOf (jfield ''fields'' d))))
          else if ty = ''array'' then
            (case jfield ''elem'' d of
               None \<Rightarrow> Inr (ArrayType (Some (simple_ty TypeAny)))
             | Some v \<Rightarrow> (case DecodeTypeSpec v of Inl e \<Rightarrow> Inl (TElem e) | Inr t \<Rightarrow> Inr (ArrayType (Some t))))
          else if ty = ''enum'' then (if vals = [] then Inl TNoValues else Inr (EnumType vals))
          else if ty = '''' then Inl (TNoType (JObj d))
          else map_sum TBase id (simpleType ty)
      | _ \<Rightarrow> Inl (TInvalid (JObj d)))"
| "DecodeTypeSpec (JBool b) = Inl (TInvalid (JBool b))"
| "DecodeTypeSpec (JNum s) = Inl (TInvalid (JNum s))"
| "DecodeTypeSpec (JArr vs) = Inl (TInvalid (JArr vs))"
  by pat_completeness auto

termination
proof (relation "measure size")
  fix d :: "json dict" and v kv k
  assume "kv \<in> set (sort_key fst (objectOf (jfield ''fields'' d)))" "(k, v) = kv"
  then have "(k, v) \<in> set (objectOf (jfield ''fields'' d))" by simp
  then obtain fd where "jfield ''fields'' d = Some (JObj fd)" "(k, v) \<in> set fd" by (rule objectOf_entry)
  then have "size v < size (JObj fd)" "size (JObj fd) < size (JObj d)"
    using size_entry [of k v fd] jfield_size [of "''fields''" d] by auto
  then show "(v, JObj d) \<in> measure size" by simp
next
  fix d :: "json dict" and v
  assume "jfield ''elem'' d = Some v"
  then show "(v, JObj d) \<in> measure size" using jfield_size by simp
qed simp

subsection \<open>Raw structures\<close>

text \<open>A transition, a deadline, a fork and a join have the fields of the final structure.\<close>

datatype raw_effect = RawEffect
  (re_type: string)
  (re_target: string)
  (re_payload: "json option")
  (re_critical: bool)
  (re_compensation: "raw_effect option")

record raw_ai =
  ra_type :: string
  ra_target :: string
  ra_prompt :: string
  ra_event :: string
  ra_output :: "json dict"
  ra_choose :: "string list"
  ra_onError :: string

record raw_node =
  rn_id :: string
  rn_type :: string
  rn_label :: string
  rn_effects :: "raw_effect list"
  rn_trans :: "transition list"
  rn_fork :: "fork_config option"
  rn_join :: "join_config option"
  rn_input :: "string dict"
  rn_output :: "string dict"
  rn_duration :: string
  rn_deadline :: "deadline_config option"
  rn_requirePrincipal :: bool
  rn_ai :: "raw_ai option"

record raw_dsl =
  rd_id :: string
  rd_name :: string
  rd_version :: string
  rd_nodes :: "raw_node list"
  rd_vars :: "json dict"

text \<open>\<open>bindE\<close> runs what follows on the value, if there is one.\<close>

definition bindE :: "'e + 'a \<Rightarrow> ('a \<Rightarrow> 'e + 'b) \<Rightarrow> 'e + 'b" where
  "bindE r f = (case r of Inl e \<Rightarrow> Inl e | Inr x \<Rightarrow> f x)"

lemma bindE_cong [fundef_cong]: "r = r' \<Longrightarrow> (\<And>x. r' = Inr x \<Longrightarrow> f x = f' x) \<Longrightarrow> bindE r f = bindE r' f'"
  by (cases r') (simp_all add: bindE_def)

lemma bindE_Inr [simp]: "bindE r f = Inr y \<longleftrightarrow> (\<exists>x. r = Inr x \<and> f x = Inr y)"
  by (cases r) (simp_all add: bindE_def)

definition decodeTransition :: "json \<Rightarrow> unit + transition" where
  "decodeTransition v =
     bindE (dobj v) (\<lambda>d. bindE (dstr (jfield ''event'' d)) (\<lambda>e. bindE (dstr (jfield ''when'' d)) (\<lambda>w.
     bindE (dstr (jfield ''next'' d)) (\<lambda>n. bindE (dstr (jfield ''case'' d)) (\<lambda>c.
     Inr \<lparr>tr_event = e, tr_when = w, tr_next = n, tr_case = c\<rparr>)))))"

definition decodeDeadline :: "json \<Rightarrow> unit + deadline_config" where
  "decodeDeadline v =
     bindE (dobj v) (\<lambda>d. bindE (dstr (jfield ''after'' d)) (\<lambda>a. bindE (dstr (jfield ''next'' d)) (\<lambda>n.
     Inr \<lparr>dl_after = a, dl_next = n\<rparr>)))"

definition decodeFork :: "json \<Rightarrow> unit + fork_config" where
  "decodeFork v =
     bindE (dobj v) (\<lambda>d. bindE (dstr (jfield ''mode'' d)) (\<lambda>m. bindE (dstr (jfield ''joinNode'' d)) (\<lambda>j.
     bindE (dstr (jfield ''onFail'' d)) (\<lambda>f. Inr \<lparr>fk_mode = m, fk_join = j, fk_onfail = f\<rparr>))))"

definition decodeJoin :: "json \<Rightarrow> unit + join_config" where
  "decodeJoin v =
     bindE (dobj v) (\<lambda>d. bindE (dstr (jfield ''mode'' d)) (\<lambda>m. bindE (dint (jfield ''required'' d)) (\<lambda>r.
     bindE (dstr (jfield ''timeout'' d)) (\<lambda>t. Inr \<lparr>jn_mode = m, jn_required = r, jn_timeout = t\<rparr>))))"

function decodeEffect :: "json \<Rightarrow> unit + raw_effect" where
  "decodeEffect v =
     bindE (dobj v) (\<lambda>d. bindE (dstr (jfield ''type'' d)) (\<lambda>ty. bindE (dstr (jfield ''target'' d)) (\<lambda>tg.
     bindE (dbool (jfield ''critical'' d)) (\<lambda>c.
     bindE (dptr decodeEffect (jfield ''compensation'' d)) (\<lambda>k.
     Inr (RawEffect ty tg (jfield ''payload'' d) c k))))))"
  by pat_completeness auto

termination
proof (relation "measure size")
  fix v w :: json and d
  assume "dobj v = Inr d" "jfield ''compensation'' d = Some w"
  then have "v = JObj d" by (cases v) (auto simp: dobj_def jfield_def)
  with jfield_size \<open>jfield ''compensation'' d = Some w\<close> show "(w, v) \<in> measure size" by simp
qed simp

declare decodeEffect.simps [simp del]

definition decodeAI :: "json \<Rightarrow> unit + raw_ai" where
  "decodeAI v =
     bindE (dobj v) (\<lambda>d. bindE (dstr (jfield ''type'' d)) (\<lambda>ty. bindE (dstr (jfield ''target'' d)) (\<lambda>tg.
     bindE (dstr (jfield ''prompt'' d)) (\<lambda>p. bindE (dstr (jfield ''event'' d)) (\<lambda>e.
     bindE (dmap Inr (jfield ''output'' d)) (\<lambda>out. bindE (dlist (\<lambda>w. dstr (Some w)) (jfield ''choose'' d)) (\<lambda>ch.
     bindE (dstr (jfield ''onError'' d)) (\<lambda>oe.
     Inr \<lparr>ra_type = ty, ra_target = tg, ra_prompt = p, ra_event = e, ra_output = out, ra_choose = ch, ra_onError = oe\<rparr>))))))))"

definition decodeNode :: "json \<Rightarrow> unit + raw_node" where
  "decodeNode v =
     bindE (dobj v) (\<lambda>d. bindE (dstr (jfield ''id'' d)) (\<lambda>k. bindE (dstr (jfield ''type'' d)) (\<lambda>ty.
     bindE (dstr (jfield ''label'' d)) (\<lambda>l. bindE (dlist decodeEffect (jfield ''sideEffects'' d)) (\<lambda>ses.
     bindE (dlist decodeTransition (jfield ''transitions'' d)) (\<lambda>trs. bindE (dptr decodeFork (jfield ''fork'' d)) (\<lambda>fk.
     bindE (dptr decodeJoin (jfield ''join'' d)) (\<lambda>jn. bindE (dmap (\<lambda>w. dstr (Some w)) (jfield ''input'' d)) (\<lambda>inp.
     bindE (dmap (\<lambda>w. dstr (Some w)) (jfield ''output'' d)) (\<lambda>outp. bindE (dstr (jfield ''duration'' d)) (\<lambda>du.
     bindE (dptr decodeDeadline (jfield ''deadline'' d)) (\<lambda>dl. bindE (dbool (jfield ''requirePrincipal'' d)) (\<lambda>rp.
     bindE (dptr decodeAI (jfield ''ai'' d)) (\<lambda>ai.
     Inr \<lparr>rn_id = k, rn_type = ty, rn_label = l, rn_effects = ses, rn_trans = trs, rn_fork = fk, rn_join = jn,
          rn_input = inp, rn_output = outp, rn_duration = du, rn_deadline = dl, rn_requirePrincipal = rp, rn_ai = ai\<rparr>))))))))))))))"

definition decodeDSL :: "json \<Rightarrow> unit + raw_dsl" where
  "decodeDSL v =
     bindE (dobj v) (\<lambda>d. bindE (dstr (jfield ''id'' d)) (\<lambda>k. bindE (dstr (jfield ''name'' d)) (\<lambda>n.
     bindE (dstr (jfield ''version'' d)) (\<lambda>ve. bindE (dlist decodeNode (jfield ''nodes'' d)) (\<lambda>ns.
     bindE (dmap Inr (jfield ''variables'' d)) (\<lambda>vars.
     Inr \<lparr>rd_id = k, rd_name = n, rd_version = ve, rd_nodes = ns, rd_vars = vars\<rparr>))))))"

subsection \<open>Values of interface type\<close>

text \<open>\<open>json.Unmarshal\<close> into an \<open>interface{}\<close>.\<close>

function val_of_json :: "parser_env \<Rightarrow> json \<Rightarrow> unit + val" where
  "val_of_json pe JNull = Inr VNil"
| "val_of_json pe (JBool b) = Inr (VBool b)"
| "val_of_json pe (JNum s) = (case pe_float pe s of None \<Rightarrow> Inl () | Some q \<Rightarrow> Inr (VFloat q))"
| "val_of_json pe (JStr s) = Inr (VStr s)"
| "val_of_json pe (JArr vs) = map_sum id VList (traverse (val_of_json pe) vs)"
| "val_of_json pe (JObj d) = map_sum id VObj (traverse (\<lambda>(k, v). map_sum id (Pair k) (val_of_json pe v)) (jmap d))"
  by pat_completeness auto

termination
proof (relation "measure (size \<circ> snd)")
  show "((pe, v), pe, JArr vs) \<in> measure (size \<circ> snd)" if "v \<in> set vs" for pe :: parser_env and v and vs :: "json list"
    using that by (induction vs) auto
  show "((pe, v), pe, JObj d) \<in> measure (size \<circ> snd)" if "kv \<in> set (jmap d)" "(k, v) = kv" for pe :: parser_env and k v kv and d :: "json dict"
    using that size_entry [of k v d] jmap_set by fastforce
qed simp

subsection \<open>Variables\<close>

definition decodeVar :: "parser_env \<Rightarrow> string \<Rightarrow> json \<Rightarrow> parse_error + ty \<times> val option" where
  "decodeVar pe name decl =
     (let keys = objectOf (Some decl);
          init = (case decl of JObj d \<Rightarrow> jfield ''init'' d | _ \<Rightarrow> None);
          typeRaw = (case dget keys ''type'' of Some v \<Rightarrow> v | None \<Rightarrow> decl);
          spec = (if dget keys ''fields'' \<noteq> None then decl else typeRaw)
      in case DecodeTypeSpec spec of
           Inl e \<Rightarrow> Inl (PVariable name e)
         | Inr t \<Rightarrow>
             (case init of
                None \<Rightarrow> Inr (t, None)
              | Some v \<Rightarrow> (case val_of_json pe v of Inl u \<Rightarrow> Inl (PVariableInit name) | Inr x \<Rightarrow> Inr (t, Some x))))"

fun decodeVarDecls :: "parser_env \<Rightarrow> json dict \<Rightarrow> string list \<Rightarrow> ty dict \<Rightarrow> env \<Rightarrow> parse_error + ty dict \<times> env" where
  "decodeVarDecls pe vars [] schema init = Inr (schema, init)"
| "decodeVarDecls pe vars (k # ks) schema init =
     (case dget vars k of
        None \<Rightarrow> decodeVarDecls pe vars ks schema init
      | Some decl \<Rightarrow>
          (case decodeVar pe k decl of
             Inl e \<Rightarrow> Inl e
           | Inr (t, v) \<Rightarrow>
               decodeVarDecls pe vars ks (dput k t schema) (case v of None \<Rightarrow> init | Some x \<Rightarrow> dput k x init)))"

subsection \<open>Nodes\<close>

definition rawPayload :: "parser_env \<Rightarrow> json option \<Rightarrow> payload" where
  "rawPayload pe v = RawBytes (case v of None \<Rightarrow> '''' | Some w \<Rightarrow> pe_text pe w)"

definition buildEffect :: "parser_env \<Rightarrow> bool \<Rightarrow> raw_effect \<Rightarrow> side_effect" where
  "buildEffect pe v2 re = SideEffect (re_type re) (re_target re) (rawPayload pe (re_payload re)) (v2 \<and> re_critical re)
     (case re_compensation re of
        None \<Rightarrow> None
      | Some c \<Rightarrow> if v2 then Some (SideEffect (re_type c) (re_target c) (rawPayload pe (re_payload c)) False None) else None)"

fun build_outputs :: "parser_env \<Rightarrow> nat \<Rightarrow> json dict \<Rightarrow> string list \<Rightarrow> (string \<times> bool) dict \<Rightarrow> ty dict
    \<Rightarrow> parse_error + (string \<times> bool) dict \<times> ty dict" where
  "build_outputs pe i out [] specs types = Inr (specs, types)"
| "build_outputs pe i out (k # ks) specs types =
     (case dget out k of
        None \<Rightarrow> build_outputs pe i out ks specs types
      | Some spec \<Rightarrow>
          (case DecodeTypeSpec spec of
             Inl e \<Rightarrow> Inl (PAIOutput i k e)
           | Inr t \<Rightarrow> build_outputs pe i out ks (dput k (pe_text pe spec, True) specs) (dput k t types)))"

definition buildAI :: "parser_env \<Rightarrow> nat \<Rightarrow> raw_ai \<Rightarrow> parse_error + ai_config" where
  "buildAI pe i ra =
     (case build_outputs pe i (ra_output ra) (pe_order pe (dkeys (ra_output ra))) [] [] of
        Inl e \<Rightarrow> Inl e
      | Inr (specs, types) \<Rightarrow> Inr \<lparr>ai_type = ra_type ra, ai_target = ra_target ra, ai_prompt = ra_prompt ra,
          ai_event = ra_event ra, ai_specs = specs, ai_types = types, ai_choose = ra_choose ra, ai_onError = ra_onError ra\<rparr>)"

fun missing_target :: "string list \<Rightarrow> nat \<Rightarrow> nat \<Rightarrow> transition list \<Rightarrow> parse_error option" where
  "missing_target ids i k [] = None"
| "missing_target ids i k (tr # trs) =
     (if tr_next tr \<noteq> '''' \<and> tr_next tr \<notin> set ids then Some (PNoTarget i k (tr_next tr))
      else missing_target ids i (Suc k) trs)"

definition buildNode :: "parser_env \<Rightarrow> bool \<Rightarrow> string list \<Rightarrow> nat \<Rightarrow> raw_node \<Rightarrow> parse_error + node" where
  "buildNode pe v2 ids i rn =
     bindE (case rn_ai rn of
              None \<Rightarrow> Inr None
            | Some ra \<Rightarrow> if v2 then map_sum id Some (buildAI pe i ra) else Inr None) (\<lambda>ai.
     case missing_target ids i 0 (rn_trans rn) of
       Some e \<Rightarrow> Inl e
     | None \<Rightarrow> Inr \<lparr>n_id = rn_id rn, n_type = rn_type rn, n_label = rn_label rn,
         n_effects = map (buildEffect pe v2) (rn_effects rn), n_trans = rn_trans rn,
         n_fork = rn_fork rn, n_join = rn_join rn,
         n_input = (if v2 then rn_input rn else []), n_output = (if v2 then rn_output rn else []),
         n_duration = (if v2 then rn_duration rn else ''''), n_deadline = (if v2 then rn_deadline rn else None),
         n_requirePrincipal = (v2 \<and> rn_requirePrincipal rn), n_ai = ai\<rparr>)"

text \<open>The loop over the nodes: \<open>ids\<close> are all IDs, \<open>seen\<close> those before, \<open>start\<close> the start node so far.\<close>

fun parse_nodes :: "parser_env \<Rightarrow> bool \<Rightarrow> string list \<Rightarrow> nat \<Rightarrow> string list \<Rightarrow> string \<Rightarrow> node dict \<Rightarrow> raw_node list
    \<Rightarrow> parse_error + node dict \<times> string" where
  "parse_nodes pe v2 ids i seen start nodes [] = Inr (nodes, start)"
| "parse_nodes pe v2 ids i seen start nodes (rn # rns) =
     (if rn_id rn = '''' then Inl (PNodeIDRequired i)
      else if rn_id rn \<in> set seen then Inl (PDuplicateID i (rn_id rn))
      else
        (case buildNode pe v2 ids i rn of
           Inl e \<Rightarrow> Inl e
         | Inr n \<Rightarrow>
             if rn_type rn = ''start'' \<and> start \<noteq> '''' then Inl (PManyStarts start (rn_id rn))
             else parse_nodes pe v2 ids (Suc i) (rn_id rn # seen) (if rn_type rn = ''start'' then rn_id rn else start)
                    (dput (rn_id rn) n nodes) rns))"

subsection \<open>The parser\<close>

definition parseCore :: "parser_env \<Rightarrow> raw_dsl \<Rightarrow> bool \<Rightarrow> parse_error + process_def" where
  "parseCore pe raw v2 =
     (if rd_id raw = '''' then Inl PIDRequired
      else if rd_nodes raw = [] then Inl PNoNodes
      else
        bindE (if v2 then decodeVarDecls pe (rd_vars raw) (pe_order pe (dkeys (rd_vars raw))) [] [] else Inr ([], [])) (\<lambda>(schema, init).
        bindE (parse_nodes pe v2 (map rn_id (rd_nodes raw)) 0 [] '''' [] (rd_nodes raw)) (\<lambda>(nodes, start).
        if start = '''' then Inl PNoStart
        else Inr \<lparr>pd_id = rd_id raw, pd_name = rd_name raw, pd_version = rd_version raw, pd_nodes = nodes,
               pd_start = start, pd_schema = schema, pd_init = init\<rparr>)))"

definition ParseDSL :: "parser_env \<Rightarrow> json \<Rightarrow> parse_error + process_def" where
  "ParseDSL pe v =
     (case decodeDSL v of
        Inl u \<Rightarrow> Inl PJson
      | Inr raw \<Rightarrow>
          if rd_version raw = '''' then Inl PVersionRequired
          else if rd_version raw = ''1'' \<or> rd_version raw = ''1.0'' then parseCore pe raw False
          else if rd_version raw = ''2'' \<or> rd_version raw = ''2.0'' then parseCore pe raw True
          else Inl (PUnsupportedVersion (rd_version raw)))"

subsection \<open>What a parsed definition is\<close>

definition parsed_nodes :: "string list \<Rightarrow> string list \<Rightarrow> string \<Rightarrow> node dict \<Rightarrow> bool" where
  "parsed_nodes ids seen start nodes \<longleftrightarrow> distinct (dkeys nodes) \<and> set (dkeys nodes) = set seen \<and>
     (\<forall>k n. dget nodes k = Some n \<longrightarrow> n_id n = k \<and> k \<noteq> '''' \<and> (n_type n = ''start'' \<longleftrightarrow> k = start) \<and>
        (\<forall>tr \<in> set (n_trans n). tr_next tr = '''' \<or> tr_next tr \<in> set ids)) \<and>
     (start \<noteq> '''' \<longrightarrow> start \<in> set seen)"

lemma missing_target_None:
  "missing_target ids i k trs = None \<longleftrightarrow> (\<forall>tr \<in> set trs. tr_next tr = '''' \<or> tr_next tr \<in> set ids)"
  by (induction trs arbitrary: k) auto

lemma buildNode_facts:
  "buildNode pe v2 ids i rn = Inr n \<Longrightarrow> n_id n = rn_id rn \<and> n_type n = rn_type rn \<and>
    (\<forall>tr \<in> set (n_trans n). tr_next tr = '''' \<or> tr_next tr \<in> set ids)"
  by (auto simp: buildNode_def missing_target_None split: option.splits)

lemma parse_nodes_sound:
  "parse_nodes pe v2 ids i seen start nodes rns = Inr (nodes', start') \<Longrightarrow> parsed_nodes ids seen start nodes
    \<Longrightarrow> parsed_nodes ids (rev (map rn_id rns) @ seen) start' nodes'"
proof (induction rns arbitrary: i seen start nodes)
  case (Cons rn rns)
  from Cons.prems(1) obtain n where n: "rn_id rn \<noteq> ''''" "rn_id rn \<notin> set seen" "buildNode pe v2 ids i rn = Inr n"
    "\<not> (rn_type rn = ''start'' \<and> start \<noteq> '''')" and
    rest: "parse_nodes pe v2 ids (Suc i) (rn_id rn # seen) (if rn_type rn = ''start'' then rn_id rn else start)
      (dput (rn_id rn) n nodes) rns = Inr (nodes', start')"
    by (auto split: if_splits sum.splits)
  have "rn_id rn \<noteq> start" using Cons.prems(2) n(1,2) by (auto simp: parsed_nodes_def)
  then have "parsed_nodes ids (rn_id rn # seen) (if rn_type rn = ''start'' then rn_id rn else start) (dput (rn_id rn) n nodes)"
    using Cons.prems(2) n buildNode_facts [OF n(3)]
    by (auto simp: parsed_nodes_def dkeys_dput distinct_update dget_eq_None_iff simp del: set_map dest: map_of_SomeD)
  from Cons.IH [OF rest this] show ?case by simp
qed simp

end
