(* ===== verification/Parsing.thy ===== *)
theory Parsing
  imports Parser Deployment
begin

text \<open>
  What the parser accepts and what it promises: the texts that parse, the well-formedness of the
  definition that comes out, and the way from the text to a run.
\<close>

subsection \<open>The texts that parse\<close>

text \<open>A \<open>range\<close> visits every key.\<close>

definition visits_all :: "parser_env \<Rightarrow> bool" where
  "visits_all pe \<longleftrightarrow> (\<forall>ks. set (pe_order pe ks) = set ks)"

definition raw_node_ok :: "bool \<Rightarrow> string list \<Rightarrow> raw_node \<Rightarrow> bool" where
  "raw_node_ok v2 ids rn \<longleftrightarrow> (\<forall>tr \<in> set (rn_trans rn). tr_next tr = '''' \<or> tr_next tr \<in> set ids) \<and>
     (v2 \<longrightarrow> (\<forall>ra k spec. rn_ai rn = Some ra \<longrightarrow> dget (ra_output ra) k = Some spec \<longrightarrow> (\<exists>t. DecodeTypeSpec spec = Inr t)))"

definition raw_ok :: "parser_env \<Rightarrow> raw_dsl \<Rightarrow> bool \<Rightarrow> bool" where
  "raw_ok pe raw v2 \<longleftrightarrow> rd_id raw \<noteq> '''' \<and>
     (v2 \<longrightarrow> (\<forall>k decl. dget (rd_vars raw) k = Some decl \<longrightarrow> (\<exists>t x. decodeVar pe k decl = Inr (t, x)))) \<and>
     (let ids = map rn_id (rd_nodes raw)
      in '''' \<notin> set ids \<and> distinct ids \<and> (\<forall>rn \<in> set (rd_nodes raw). raw_node_ok v2 ids rn)) \<and>
     length (filter (\<lambda>rn. rn_type rn = ''start'') (rd_nodes raw)) = 1"

lemma build_outputs_succeeds:
  "(\<exists>r. build_outputs pe i out ks specs types = Inr r) \<longleftrightarrow>
    (\<forall>k \<in> set ks. \<forall>spec. dget out k = Some spec \<longrightarrow> (\<exists>t. DecodeTypeSpec spec = Inr t))"
  by (induction ks arbitrary: specs types) (auto split: option.splits sum.splits)

lemma decodeVarDecls_succeeds:
  "(\<exists>r. decodeVarDecls pe vars ks schema init = Inr r) \<longleftrightarrow>
    (\<forall>k \<in> set ks. \<forall>decl. dget vars k = Some decl \<longrightarrow> (\<exists>t x. decodeVar pe k decl = Inr (t, x)))"
  by (induction ks arbitrary: schema init) (auto split: option.splits sum.splits)

lemma listed:
  assumes "visits_all pe"
  shows "(\<forall>k \<in> set (pe_order pe (dkeys d)). \<forall>v. dget d k = Some v \<longrightarrow> P k v) \<longleftrightarrow> (\<forall>k v. dget d k = Some v \<longrightarrow> P k v)"
  using assms by (auto simp: visits_all_def) (metis fst_conv map_of_SomeD)

lemma buildAI_succeeds:
  "visits_all pe \<Longrightarrow> (\<exists>a. buildAI pe i ra = Inr a) \<longleftrightarrow> (\<forall>k spec. dget (ra_output ra) k = Some spec \<longrightarrow> (\<exists>t. DecodeTypeSpec spec = Inr t))"
  using build_outputs_succeeds [of pe i "ra_output ra" "pe_order pe (dkeys (ra_output ra))" "[]" "[]"]
  by (simp only: listed) (auto simp: buildAI_def split: sum.splits)

lemma buildNode_succeeds:
  assumes "visits_all pe"
  shows "(\<exists>n. buildNode pe v2 ids i rn = Inr n) \<longleftrightarrow> raw_node_ok v2 ids rn"
proof -
  have "(\<exists>n. buildNode pe v2 ids i rn = Inr n) \<longleftrightarrow>
      missing_target ids i 0 (rn_trans rn) = None \<and> (v2 \<longrightarrow> (\<forall>ra. rn_ai rn = Some ra \<longrightarrow> (\<exists>a. buildAI pe i ra = Inr a)))"
    by (cases "rn_ai rn"; cases "missing_target ids i 0 (rn_trans rn)"; cases "buildAI pe i (the (rn_ai rn))")
      (auto simp: buildNode_def bindE_def)
  then show ?thesis by (auto simp: raw_node_ok_def missing_target_None buildAI_succeeds [OF assms])
qed

definition starts :: "string \<Rightarrow> raw_node list \<Rightarrow> nat" where
  "starts start rns = (if start = '''' then 0 else 1) + length (filter (\<lambda>rn. rn_type rn = ''start'') rns)"

lemma starts_Cons: "rn_id rn \<noteq> '''' \<Longrightarrow> \<not> (rn_type rn = ''start'' \<and> start \<noteq> '''') \<Longrightarrow>
    starts start (rn # rns) = starts (if rn_type rn = ''start'' then rn_id rn else start) rns"
  by (simp add: starts_def)

lemma parse_nodes_succeeds:
  assumes "visits_all pe"
  shows "(\<exists>ns st. parse_nodes pe v2 ids i seen start nodes rns = Inr (ns, st)) \<longleftrightarrow>
    (\<forall>rn \<in> set rns. rn_id rn \<noteq> '''' \<and> rn_id rn \<notin> set seen \<and> raw_node_ok v2 ids rn) \<and>
    distinct (map rn_id rns) \<and> starts start rns \<le> 1"
proof (induction rns arbitrary: i seen start nodes)
  case Nil
  show ?case by (simp add: starts_def)
next
  case (Cons rn rns)
  show ?case
  proof (cases "rn_id rn = '''' \<or> rn_id rn \<in> set seen \<or> \<not> raw_node_ok v2 ids rn \<or> (rn_type rn = ''start'' \<and> start \<noteq> '''')")
    case True
    then show ?thesis
      using buildNode_succeeds [OF assms, of v2 ids i rn] by (auto simp: starts_def split: sum.split)
  next
    case False
    then obtain n where "buildNode pe v2 ids i rn = Inr n" using buildNode_succeeds [OF assms] by blast
    with False show ?thesis by (auto simp: Cons.IH starts_Cons intro: rev_image_eqI)
  qed
qed

lemma parse_nodes_start:
  "parse_nodes pe v2 ids i seen start nodes rns = Inr (ns, st) \<Longrightarrow> st \<noteq> '''' \<longleftrightarrow> starts start rns \<noteq> 0"
  by (induction pe v2 ids i seen start nodes rns rule: parse_nodes.induct)
    (auto simp: starts_def split: if_splits sum.splits)

lemma parseCore_succeeds:
  assumes "visits_all pe"
  shows "(\<exists>def. parseCore pe raw v2 = Inr def) \<longleftrightarrow> raw_ok pe raw v2"
proof -
  let ?ns = "rd_nodes raw"
  let ?vars = "if v2 then decodeVarDecls pe (rd_vars raw) (pe_order pe (dkeys (rd_vars raw))) [] [] else Inr ([], [])"
  let ?nodes = "parse_nodes pe v2 (map rn_id ?ns) 0 [] '''' [] ?ns"
  have vars: "(\<exists>r. ?vars = Inr r) \<longleftrightarrow> (v2 \<longrightarrow> (\<forall>k decl. dget (rd_vars raw) k = Some decl \<longrightarrow> (\<exists>t x. decodeVar pe k decl = Inr (t, x))))"
    using decodeVarDecls_succeeds [of pe "rd_vars raw" "pe_order pe (dkeys (rd_vars raw))" "[]" "[]"]
    by (simp only: listed [OF assms] split: if_split) auto
  have "(\<exists>def. parseCore pe raw v2 = Inr def) \<longleftrightarrow>
      rd_id raw \<noteq> '''' \<and> ?ns \<noteq> [] \<and> (\<exists>r. ?vars = Inr r) \<and> (\<exists>ns st. ?nodes = Inr (ns, st) \<and> st \<noteq> '''')"
    by (cases ?vars; cases ?nodes) (auto simp: parseCore_def bindE_def simp del: bindE_Inr split: prod.splits)
  moreover have "(\<exists>ns st. ?nodes = Inr (ns, st) \<and> st \<noteq> '''') \<longleftrightarrow> (\<exists>ns st. ?nodes = Inr (ns, st)) \<and> starts '''' ?ns \<noteq> 0"
    using parse_nodes_start by metis
  moreover
  let ?starts = "filter (\<lambda>rn. rn_type rn = ''start'') ?ns"
  have "starts '''' ?ns \<le> 1 \<and> starts '''' ?ns \<noteq> 0 \<longleftrightarrow> length ?starts = 1" unfolding starts_def by arith
  moreover have "length ?starts = 1 \<Longrightarrow> ?ns \<noteq> []" by auto
  moreover have "'''' \<notin> set (map rn_id ?ns) \<longleftrightarrow> (\<forall>rn \<in> set ?ns. rn_id rn \<noteq> '''')" by (auto intro: rev_image_eqI)
  ultimately show ?thesis
    unfolding raw_ok_def Let_def vars parse_nodes_succeeds [OF assms] list.set empty_iff not_False_eq_True simp_thms by blast
qed

subsection \<open>The definition that comes out\<close>









subsection \<open>A text\<close>

text \<open>Expense approval: an amount, an approval that an AI node prepares, with a deadline.\<close>

definition jo :: "string \<Rightarrow> json \<Rightarrow> string \<times> json" where
  "jo k v = (k, v)"

definition node_json :: "string \<Rightarrow> string \<Rightarrow> json dict \<Rightarrow> json" where
  "node_json k ty fs = JObj ([jo ''id'' (JStr k), jo ''type'' (JStr ty)] @ fs)"

definition expense_json :: json where
  "expense_json = JObj [
     jo ''id'' (JStr ''expense''), jo ''version'' (JStr ''2''),
     jo ''variables'' (JObj [jo ''amount'' (JObj [jo ''type'' (JStr ''money''), jo ''init'' (JNum ''0'')]), jo ''risk'' (JStr ''string'')]),
     jo ''nodes'' (JArr [
       node_json ''s'' ''start'' [jo ''transitions'' (JArr [JObj [jo ''event'' (JStr ''submit''), jo ''next'' (JStr ''r'')]])],
       node_json ''r'' ''ai'' [
         jo ''ai'' (JObj [jo ''prompt'' (JStr ''Rate it''), jo ''output'' (JObj [jo ''risk'' (JObj [jo ''type'' (JStr ''enum''), jo ''values'' (JArr [JStr ''low'', JStr ''high''])])]),
                          jo ''choose'' (JArr [JStr ''go'']), jo ''onError'' (JStr ''a'')]),
         jo ''transitions'' (JArr [JObj [jo ''case'' (JStr ''go''), jo ''next'' (JStr ''a'')]])],
       node_json ''a'' ''approval'' [
         jo ''deadline'' (JObj [jo ''after'' (JStr ''24h''), jo ''next'' (JStr ''e'')]),
         jo ''transitions'' (JArr [JObj [jo ''event'' (JStr ''ok''), jo ''next'' (JStr ''e'')]])],
       node_json ''e'' ''end'' []])]"

definition sample_env :: parser_env where
  "sample_env = \<lparr>pe_text = (\<lambda>v. ''text''), pe_float = (\<lambda>s. Some 0), pe_order = (\<lambda>ks. ks)\<rparr>"

lemma sample_env_visits: "visits_all sample_env"
  by (simp add: visits_all_def sample_env_def)

definition expense_def :: process_def where
  "expense_def = (case ParseDSL sample_env expense_json of Inr def \<Rightarrow> def | Inl e \<Rightarrow> approval_def)"

lemma expense_parses: "isl (ParseDSL sample_env expense_json) = False"
  by code_simp

lemma expense_parsed: "ParseDSL sample_env expense_json = Inr expense_def"
  using expense_parses by (cases "ParseDSL sample_env expense_json") (simp_all add: expense_def_def)



lemma expense_decodes: "(case decodeDSL expense_json of Inr raw \<Rightarrow> rd_version raw = ''2'' | Inl u \<Rightarrow> False)"
  by code_simp


text \<open>Two declarations of a variable in the object form.\<close>

definition enum_json :: "string list \<Rightarrow> json" where
  "enum_json vs = JObj [jo ''type'' (JStr ''enum''), jo ''values'' (JArr (map JStr vs))]"

definition array_json :: "string \<Rightarrow> json" where
  "array_json t = JObj [jo ''type'' (JStr ''array''), jo ''elem'' (JStr t)]"

lemma dstr_values: "dlist (\<lambda>v. dstr (Some v)) (Some (JArr (map JStr vs))) = Inr vs"
proof -
  have "traverse (\<lambda>v. dstr (Some v)) (map JStr vs) = Inr vs" by (induction vs) (auto simp: dstr_def)
  then show ?thesis by (simp add: dlist_def)
qed

subsection \<open>Properties\<close>



text \<open>C37: which texts are definitions. A text that decodes is accepted exactly when it names a
  known version, has an ID, nodes with distinct IDs that are not empty, exactly one of them a start
  node, and transitions to existing nodes; in version 2 also every variable and every declared
  output of an inference must have a known type. The order of the ranges decides nothing.\<close>

theorem parser_accepts:
  assumes "visits_all pe" and "decodeDSL v = Inr raw"
  shows "(\<exists>def. ParseDSL pe v = Inr def) \<longleftrightarrow>
    rd_version raw \<in> {''1'', ''1.0''} \<and> raw_ok pe raw False \<or> rd_version raw \<in> {''2'', ''2.0''} \<and> raw_ok pe raw True"
  using parseCore_succeeds [OF assms(1), of raw] by (auto simp: ParseDSL_def assms(2))

theorem parser_accepts_witness: "\<exists>raw. decodeDSL expense_json = Inr raw \<and> raw_ok sample_env raw True"
proof -
  from expense_decodes obtain raw where raw: "decodeDSL expense_json = Inr raw" "rd_version raw = ''2''"
    by (auto split: sum.splits)
  with parser_accepts [OF sample_env_visits raw(1)] expense_parsed show ?thesis by auto
qed



text \<open>C39: the object form of a variable's type is lost. \<open>DecodeTypeSpec\<close> reads an enumeration and an
  array, but \<open>decodeVarDecls\<close> passes it only the name of the type, unless the declaration has
  fields: a variable declared as an enumeration is a plain string, to which every string may be
  written, and one declared as an array is an error.\<close>

lemma lowered:
  "lower CHR ''t'' = CHR ''t''"
  "lower CHR ''y'' = CHR ''y''"
  "lower CHR ''p'' = CHR ''p''"
  "lower CHR ''e'' = CHR ''e''"
  "lower CHR ''v'' = CHR ''v''"
  "lower CHR ''a'' = CHR ''a''"
  "lower CHR ''l'' = CHR ''l''"
  "lower CHR ''u'' = CHR ''u''"
  "lower CHR ''s'' = CHR ''s''"
  "lower CHR ''m'' = CHR ''m''"
  "lower CHR ''f'' = CHR ''f''"
  "lower CHR ''i'' = CHR ''i''"
  "lower CHR ''d'' = CHR ''d''"
  "lower CHR ''n'' = CHR ''n''"
  by code_simp+

lemma field_lookup:
  "jfield n [] = None" "jfield n (d @ [(k, v)]) = (if map lower k = map lower n then Some v else jfield n d)"
  by (simp_all add: jfield_def)

lemma two_fields:
  assumes "map lower k \<noteq> map lower k'"
  shows "jfield n [jo k a, jo k' b] = (if map lower k' = map lower n then Some b else if map lower k = map lower n then Some a else None)"
  using field_lookup(2) [of n "[jo k a]" k' b] field_lookup(2) [of n "[]" k a] field_lookup(1) [of n] by (simp add: jo_def)

lemma two_keys: "k \<noteq> k' \<Longrightarrow> jmap [jo k a, jo k' b] = [(k, a), (k', b)]"
  by (simp add: jmap_def jo_def)

theorem variable_type_flattened:
  assumes "vs \<noteq> []" and "simpleType t = Inr ty"
  shows "DecodeTypeSpec (enum_json vs) = Inr (EnumType vs) \<and>
    decodeVar pe k (enum_json vs) = Inr (simple_ty TypeString, None) \<and>
    checkAssignable k (Some (simple_ty TypeString)) (VStr x) = None \<and>
    DecodeTypeSpec (array_json t) = Inr (ArrayType (Some ty)) \<and>
    decodeVar pe k (array_json t) = Inl (PVariable k (TBase (EUnknownType ''array'')))"
proof (intro conjI)
  have f: "jfield ''type'' [jo ''type'' a, jo ''values'' b] = Some a" "jfield ''values'' [jo ''type'' a, jo ''values'' b] = Some b"
    "jfield ''fields'' [jo ''type'' a, jo ''values'' b] = None" "jfield ''init'' [jo ''type'' a, jo ''values'' b] = None"
    "jfield ''type'' [jo ''type'' a, jo ''elem'' b] = Some a" "jfield ''elem'' [jo ''type'' a, jo ''elem'' b] = Some b"
    "jfield ''fields'' [jo ''type'' a, jo ''elem'' b] = None" "jfield ''values'' [jo ''type'' a, jo ''elem'' b] = None" for a b
    by (simp_all add: two_fields lowered)
  show "DecodeTypeSpec (enum_json vs) = Inr (EnumType vs)"
    using assms(1) by (simp add: enum_json_def f dstr_values) (simp add: dstr_def dmap_def)
  show "decodeVar pe k (enum_json vs) = Inr (simple_ty TypeString, None)"
    by (simp add: enum_json_def decodeVar_def objectOf_def two_keys f simpleType_def)
  show "checkAssignable k (Some (simple_ty TypeString)) (VStr x) = None"
    by (simp add: checkAssignable_None_iff has_type_def simple_ty_def)
  show "DecodeTypeSpec (array_json t) = Inr (ArrayType (Some ty))"
    using assms(2) by (simp add: array_json_def f dstr_def dmap_def dlist_def)
  show "decodeVar pe k (array_json t) = Inl (PVariable k (TBase (EUnknownType ''array'')))"
    by (simp add: array_json_def decodeVar_def objectOf_def two_keys simpleType_def)
qed

theorem variable_type_flattened_witness:
  "DecodeTypeSpec (enum_json [''low'', ''high'']) = Inr (EnumType [''low'', ''high'']) \<and>
   decodeVar sample_env ''risk'' (enum_json [''low'', ''high'']) = Inr (simple_ty TypeString, None)"
  using variable_type_flattened [of "[''low'', ''high'']" "''string''" "simple_ty TypeString" sample_env "''risk''"]
  by (simp add: simpleType_def)

end
