(* ===== verification/Compare.thy ===== *)
theory Compare
  imports TimeAxis
begin

text \<open>
  Comparison of two runs (\<open>src/dsl/compare.go\<close>): the metrics of a log and their differences. A
  quotient of two counts is taken exactly (\<open>rat\<close>), where the code has a \<open>float64\<close>; errors are
  values.
\<close>

subsection \<open>The metrics of a run\<close>

record run_metrics =
  rm_instance :: string
  rm_execution :: string
  rm_status :: string
  rm_routes :: "string list"
  rm_decisions :: int
  rm_escalations :: int
  rm_rate :: rat
  rm_modelCalls :: int

record run_comparison =
  rc_a :: run_metrics
  rc_b :: run_metrics
  rc_same :: bool
  rc_agreement :: rat
  rc_rateDelta :: rat
  rc_modelDelta :: int

datatype metrics_error = MEmptyLog | MNoInstance int | MMixed int string string string string
datatype compare_error = CNilDefinition | CRunA metrics_error | CRunB metrics_error

definition isAIEscalation :: "process_def \<Rightarrow> string \<Rightarrow> string \<Rightarrow> bool" where
  "isAIEscalation def from to' \<longleftrightarrow> from \<noteq> '''' \<and> to' \<noteq> '''' \<and>
     (case Option.bind (dget (pd_nodes def) from) n_ai of
        None \<Rightarrow> False
      | Some ai \<Rightarrow> ai_onError ai \<noteq> '''' \<and> ai_onError ai = to')"

definition route :: "string \<Rightarrow> string \<Rightarrow> string" where
  "route a b = a @ ''->'' @ b"

definition branch_route :: "string \<Rightarrow> string \<Rightarrow> string \<Rightarrow> string" where
  "branch_route a b bid = route a b @ '' (branch '' @ bid @ '')''"

definition count_event :: "occurrence \<Rightarrow> run_metrics \<Rightarrow> run_metrics" where
  "count_event occ m =
     (let m1 = (case o_event occ of
                  Some e \<Rightarrow> if ev_name e \<noteq> '''' then m\<lparr>rm_decisions := rm_decisions m + 1\<rparr> else m
                | None \<Rightarrow> m)
      in case o_actor occ of
           Some p \<Rightarrow> if p_kind p = ''model'' then m1\<lparr>rm_modelCalls := rm_modelCalls m1 + 1\<rparr> else m1
         | None \<Rightarrow> m1)"

definition count_transition :: "process_def \<Rightarrow> occurrence \<Rightarrow> run_metrics \<Rightarrow> run_metrics" where
  "count_transition def occ m =
     (let r = route (o_from occ) (o_to occ) @ (if o_tevent occ \<noteq> '''' then '' ('' @ o_tevent occ @ '')'' else '''');
          m1 = m\<lparr>rm_routes := rm_routes m @ [r]\<rparr>
      in if o_tevent occ = ''deadline'' \<or> isAIEscalation def (o_from occ) (o_to occ)
         then m1\<lparr>rm_escalations := rm_escalations m1 + 1\<rparr> else m1)"

definition branch_routes :: "occurrence \<Rightarrow> branch_state \<Rightarrow> string dict \<Rightarrow> string list" where
  "branch_routes occ b seen =
     (let enters = dget seen (b_id b) = None \<and> b_start b \<noteq> '''';
          previous = (if enters then b_start b else case dget seen (b_id b) of Some k \<Rightarrow> k | None \<Rightarrow> '''')
      in (if enters then [branch_route (o_node occ) (b_start b) (b_id b)] else []) @
         (if b_node b \<noteq> '''' \<and> b_node b \<noteq> previous then [branch_route previous (b_node b) (b_id b)] else []))"

text \<open>One fact: \<open>seen\<close> is the table \<open>branchNodes\<close>.\<close>

definition measure_occ :: "process_def \<Rightarrow> occurrence \<Rightarrow> run_metrics \<times> string dict \<Rightarrow> run_metrics \<times> string dict" where
  "measure_occ def occ mt =
     (case mt of (m, seen) \<Rightarrow>
        (case o_kind occ of
           OccEventConsumed \<Rightarrow> (count_event occ m, seen)
         | OccTransition \<Rightarrow> (count_transition def occ m, seen)
         | OccBranchUpdated \<Rightarrow>
             (case o_branch occ of
                None \<Rightarrow> (m, seen)
              | Some b \<Rightarrow> (m\<lparr>rm_routes := rm_routes m @ branch_routes occ b seen\<rparr>, dput (b_id b) (b_node b) seen))
         | OccStatus \<Rightarrow> (m\<lparr>rm_status := o_status occ\<rparr>, seen)
         | _ \<Rightarrow> (m, seen)))"

definition of_one_run :: "occurrence \<Rightarrow> run_metrics \<Rightarrow> metrics_error + run_metrics" where
  "of_one_run occ m =
     (if o_instance occ = '''' then Inl (MNoInstance (o_seq occ))
      else if rm_instance m = '''' then Inr (m\<lparr>rm_instance := o_instance occ, rm_execution := o_execution occ\<rparr>)
      else if o_instance occ \<noteq> rm_instance m \<or> o_execution occ \<noteq> rm_execution m
        then Inl (MMixed (o_seq occ) (rm_instance m) (rm_execution m) (o_instance occ) (o_execution occ))
      else Inr m)"

fun metrics_loop :: "process_def \<Rightarrow> run_metrics \<times> string dict \<Rightarrow> occurrence list \<Rightarrow> metrics_error + run_metrics" where
  "metrics_loop def (m, seen) [] = Inr m"
| "metrics_loop def (m, seen) (occ # occs) =
     (case of_one_run occ m of
        Inl e \<Rightarrow> Inl e
      | Inr m1 \<Rightarrow> metrics_loop def (measure_occ def occ (m1, seen)) occs)"

definition no_metrics :: run_metrics where
  "no_metrics = \<lparr>rm_instance = '''', rm_execution = '''', rm_status = statusString StatusPending, rm_routes = [],
     rm_decisions = 0, rm_escalations = 0, rm_rate = 0, rm_modelCalls = 0\<rparr>"

definition metricsForRun :: "process_def \<Rightarrow> occurrence list \<Rightarrow> metrics_error + run_metrics" where
  "metricsForRun def occs =
     (if occs = [] then Inl MEmptyLog
      else map_sum id (\<lambda>m. if 0 < rm_decisions m then m\<lparr>rm_rate := of_int (rm_escalations m) / of_int (rm_decisions m)\<rparr> else m)
             (metrics_loop def (no_metrics, []) occs))"

subsection \<open>The comparison\<close>

definition matching :: "string list \<Rightarrow> string list \<Rightarrow> nat" where
  "matching as bs = length (filter (\<lambda>(a, b). a = b) (zip as bs))"

definition route_agreement :: "string list \<Rightarrow> string list \<Rightarrow> rat" where
  "route_agreement as bs =
     (if as = [] \<and> bs = [] then 1 else of_nat (matching as bs) / of_nat (max (length as) (length bs)))"

definition compare_metrics :: "run_metrics \<Rightarrow> run_metrics \<Rightarrow> run_comparison" where
  "compare_metrics a b =
     (let agreement = route_agreement (rm_routes a) (rm_routes b)
      in \<lparr>rc_a = a, rc_b = b, rc_same = (length (rm_routes a) = length (rm_routes b) \<and> agreement = 1),
          rc_agreement = agreement, rc_rateDelta = rm_rate a - rm_rate b, rc_modelDelta = rm_modelCalls a - rm_modelCalls b\<rparr>)"

definition CompareRuns :: "process_def option \<Rightarrow> occurrence list \<Rightarrow> occurrence list \<Rightarrow> compare_error + run_comparison" where
  "CompareRuns def as bs =
     (case def of
        None \<Rightarrow> Inl CNilDefinition
      | Some d \<Rightarrow>
          (case metricsForRun d as of
             Inl e \<Rightarrow> Inl (CRunA e)
           | Inr ma \<Rightarrow> (case metricsForRun d bs of Inl e \<Rightarrow> Inl (CRunB e) | Inr mb \<Rightarrow> Inr (compare_metrics ma mb))))"

subsection \<open>Agreement\<close>

lemma matching_le: "matching as bs \<le> min (length as) (length bs)"
  unfolding matching_def by (metis length_filter_le length_zip)

lemma matching_all: "length as = length bs \<Longrightarrow> matching as bs = length as \<longleftrightarrow> as = bs"
proof (induction as bs rule: list_induct2)
  case (Cons a as b bs)
  have "matching as bs \<le> length as" using matching_le [of as bs] by simp
  with Cons show ?case by (auto simp: matching_def)
qed (simp add: matching_def)

lemma matching_sym: "matching as bs = matching bs as"
  by (induction as bs rule: list_induct2') (auto simp: matching_def)

lemma agreement_bounds: "0 \<le> route_agreement as bs" "route_agreement as bs \<le> 1"
proof -
  have "matching as bs \<le> max (length as) (length bs)" using matching_le [of as bs] by linarith
  then have "rat_of_nat (matching as bs) \<le> of_nat (max (length as) (length bs))" by (rule of_nat_mono)
  moreover have "0 < max (length as) (length bs)" if "\<not> (as = [] \<and> bs = [])" using that by (auto simp: less_max_iff_disj)
  ultimately show "route_agreement as bs \<le> 1"
    by (auto simp: route_agreement_def divide_le_eq_1 simp del: of_nat_max)
qed (simp add: route_agreement_def)

lemma agreement_one: "length as = length bs \<and> route_agreement as bs = 1 \<longleftrightarrow> as = bs"
proof (cases "length as = length bs \<and> as \<noteq> []")
  case True
  then have "route_agreement as bs = of_nat (matching as bs) / of_nat (length as)" by (simp add: route_agreement_def)
  with True matching_all [of as bs] show ?thesis by (auto simp: divide_eq_1_iff)
qed (auto simp: route_agreement_def)

lemma agreement_sym: "route_agreement as bs = route_agreement bs as"
  by (auto simp: route_agreement_def matching_sym [of as bs] max.commute)

subsection \<open>What the metrics say\<close>

text \<open>A log belongs to one run when its facts carry one instance and one execution.\<close>

definition one_run :: "string \<Rightarrow> string \<Rightarrow> occurrence list \<Rightarrow> bool" where
  "one_run iid xid occs \<longleftrightarrow> iid \<noteq> '''' \<and> (\<forall>occ \<in> set occs. o_instance occ = iid \<and> o_execution occ = xid)"

definition decision :: "occurrence \<Rightarrow> bool" where
  "decision occ \<longleftrightarrow> o_kind occ = OccEventConsumed \<and> (\<exists>e. o_event occ = Some e \<and> ev_name e \<noteq> '''')"

definition model_call :: "occurrence \<Rightarrow> bool" where
  "model_call occ \<longleftrightarrow> o_kind occ = OccEventConsumed \<and> (\<exists>p. o_actor occ = Some p \<and> p_kind p = ''model'')"

definition escalation :: "process_def \<Rightarrow> occurrence \<Rightarrow> bool" where
  "escalation def occ \<longleftrightarrow> o_kind occ = OccTransition \<and>
     (o_tevent occ = ''deadline'' \<or> isAIEscalation def (o_from occ) (o_to occ))"

lemma measure_counts:
  assumes "measure_occ def occ (m, seen) = (m', seen')"
  shows "rm_instance m' = rm_instance m" "rm_execution m' = rm_execution m"
    "rm_decisions m' = rm_decisions m + of_bool (decision occ)"
    "rm_modelCalls m' = rm_modelCalls m + of_bool (model_call occ)"
    "rm_escalations m' = rm_escalations m + of_bool (escalation def occ)"
  using assms by (auto simp: measure_occ_def count_event_def count_transition_def Let_def decision_def model_call_def
      escalation_def split: occ_kind.splits option.splits)

lemma loop_counts:
  "metrics_loop def (m, seen) occs = Inr m' \<Longrightarrow>
    rm_decisions m' = rm_decisions m + int (length (filter decision occs)) \<and>
    rm_modelCalls m' = rm_modelCalls m + int (length (filter model_call occs)) \<and>
    rm_escalations m' = rm_escalations m + int (length (filter (escalation def) occs))"
proof (induction occs arbitrary: m seen)
  case (Cons occ occs)
  from Cons.prems obtain m1 where o: "of_one_run occ m = Inr m1"
    and l: "metrics_loop def (measure_occ def occ (m1, seen)) occs = Inr m'" by (auto split: sum.splits)
  obtain m2 seen2 where e: "measure_occ def occ (m1, seen) = (m2, seen2)" by fastforce
  have "rm_decisions m1 = rm_decisions m" "rm_modelCalls m1 = rm_modelCalls m" "rm_escalations m1 = rm_escalations m"
    using o by (auto simp: of_one_run_def split: if_splits)
  with Cons.IH [of m2 seen2] l e measure_counts(3-5) [OF e] show ?case by auto
qed simp

lemma loop_one_run:
  "rm_instance m \<noteq> '''' \<Longrightarrow> (\<exists>m'. metrics_loop def (m, seen) occs = Inr m') \<longleftrightarrow> one_run (rm_instance m) (rm_execution m) occs"
proof (induction occs arbitrary: m seen)
  case (Cons occ occs)
  obtain m2 seen2 where e: "measure_occ def occ (m, seen) = (m2, seen2)" by fastforce
  with Cons.IH [of m2 seen2] Cons.prems measure_counts(1,2) [OF e] show ?case
    by (auto simp: of_one_run_def one_run_def)
qed (simp add: one_run_def)

lemma metricsForRun_succeeds:
  "(\<exists>m. metricsForRun def occs = Inr m) \<longleftrightarrow> occs \<noteq> [] \<and> (\<exists>iid xid. one_run iid xid occs)"
proof (cases occs)
  case (Cons occ rest)
  let ?m = "no_metrics\<lparr>rm_instance := o_instance occ, rm_execution := o_execution occ\<rparr>"
  obtain m2 seen2 where e: "measure_occ def occ (?m, []) = (m2, seen2)" by fastforce
  have "(\<exists>m. metricsForRun def occs = Inr m) \<longleftrightarrow> (\<exists>m. metrics_loop def (no_metrics, []) occs = Inr m)"
    by (cases "metrics_loop def (no_metrics, []) occs") (auto simp: metricsForRun_def Cons)
  also have "\<dots> \<longleftrightarrow> o_instance occ \<noteq> '''' \<and> (\<exists>m. metrics_loop def (m2, seen2) rest = Inr m)"
    using e by (simp add: Cons of_one_run_def no_metrics_def)
  also have "\<dots> \<longleftrightarrow> one_run (o_instance occ) (o_execution occ) occs"
    using loop_one_run [of m2 def seen2 rest] measure_counts(1,2) [OF e] by (auto simp: one_run_def Cons)
  finally show ?thesis by (auto simp: Cons one_run_def)
qed (simp add: metricsForRun_def)

lemma metricsForRun_counts:
  assumes "metricsForRun def occs = Inr m"
  shows "rm_decisions m = int (length (filter decision occs))"
    "rm_modelCalls m = int (length (filter model_call occs))"
    "rm_escalations m = int (length (filter (escalation def) occs))"
    "rm_rate m * of_int (rm_decisions m) = (if rm_decisions m = 0 then 0 else of_int (rm_escalations m))"
proof -
  from assms obtain m' where l: "metrics_loop def (no_metrics, []) occs = Inr m'"
    and m: "m = (if 0 < rm_decisions m' then m'\<lparr>rm_rate := of_int (rm_escalations m') / of_int (rm_decisions m')\<rparr> else m')"
    by (cases "metrics_loop def (no_metrics, []) occs") (auto simp: metricsForRun_def split: if_splits)
  note c = loop_counts [OF l]
  then show "rm_decisions m = int (length (filter decision occs))"
    "rm_modelCalls m = int (length (filter model_call occs))"
    "rm_escalations m = int (length (filter (escalation def) occs))"
    by (simp_all add: m no_metrics_def)
  show "rm_rate m * of_int (rm_decisions m) = (if rm_decisions m = 0 then 0 else of_int (rm_escalations m))"
    using c by (auto simp: m no_metrics_def)
qed

lemma CompareRuns_succeeds:
  "(\<exists>r. CompareRuns (Some def) as bs = Inr r) \<longleftrightarrow> (\<exists>ma. metricsForRun def as = Inr ma) \<and> (\<exists>mb. metricsForRun def bs = Inr mb)"
  by (auto simp: CompareRuns_def split: sum.splits)

text \<open>The log of a sample run.\<close>

definition log_of :: "(memory_executor, memory_journal) rts option \<Rightarrow> occurrence list" where
  "log_of r = (case r of
      Some s \<Rightarrow> (case r_journal s of Some j \<Rightarrow> memLoad j (c_instance (r_ctx s)) | None \<Rightarrow> []) | None \<Rightarrow> [])"

definition counts :: "process_def \<Rightarrow> (memory_executor, memory_journal) rts option \<Rightarrow> (int \<times> int \<times> string list) option" where
  "counts def r = (case metricsForRun def (log_of r) of
      Inr m \<Rightarrow> Some (rm_decisions m, rm_escalations m, rm_routes m) | Inl e \<Rightarrow> None)"

text \<open>An event that no branch handled is consumed and released, and still counts as a decision.\<close>

lemma released_event_counted:
  "counts parallel_def (launched parallel_def) = Some (1, 0, [''f->x (branch f.b0)'', ''f->y (branch f.b1)''])"
  "counts parallel_def (Option.bind (launched parallel_def) (Feed (sample_cfg parallel_def) 3 (sample_event ''e2'' ''nobody'')))
     = Some (2, 0, [''f->x (branch f.b0)'', ''f->y (branch f.b1)''])"
  by code_simp+

text \<open>A branch that leaves by its deadline is a route of the run, but no escalation.\<close>

definition patient_fork :: process_def where
  "patient_fork = sample_def ''f'' [
     plain_node ''f'' ''parallel'' [on_event '''' ''x'', on_event '''' ''y''],
     deadline_node ''x'' ''okx'' ''j'' ''late'',
     plain_node ''late'' ''approval'' [on_event ''oklate'' ''j''],
     plain_node ''y'' ''approval'' [on_event ''oky'' ''j''],
     plain_node ''j'' ''join'' [on_event '''' ''e''],
     plain_node ''e'' ''end'' []]"

lemma branch_deadline_uncounted:
  "counts patient_fork (woken patient_fork [3600000000099]) =
    Some (1, 0, [''f->x (branch f.b0)'', ''f->y (branch f.b1)'', ''x->late (branch f.b0)''])"
  by code_simp

subsection \<open>Properties\<close>

text \<open>C40: what a comparison says. Two logs, each of one execution, compare. The agreement is a
  fraction between 0 and 1; the runs have the same routes exactly when the two lists of routes are
  equal; the metrics count the named events consumed, those of them a model decided, and the
  transitions by deadline or to the error route of an AI node; and the comparison the other way
  round is the mirror image.\<close>

theorem comparison_meaning:
  assumes "as \<noteq> []" and "one_run i x as" and "bs \<noteq> []" and "one_run j y bs"
  shows "\<exists>r r'. CompareRuns (Some def) as bs = Inr r \<and> CompareRuns (Some def) bs as = Inr r' \<and>
    0 \<le> rc_agreement r \<and> rc_agreement r \<le> 1 \<and> (rc_same r \<longleftrightarrow> rm_routes (rc_a r) = rm_routes (rc_b r)) \<and>
    rm_decisions (rc_a r) = int (length (filter decision as)) \<and>
    rm_modelCalls (rc_a r) = int (length (filter model_call as)) \<and>
    rm_escalations (rc_a r) = int (length (filter (escalation def) as)) \<and>
    rc_a r' = rc_b r \<and> rc_b r' = rc_a r \<and> rc_same r' = rc_same r \<and> rc_agreement r' = rc_agreement r \<and>
    rc_rateDelta r' = - rc_rateDelta r \<and> rc_modelDelta r' = - rc_modelDelta r"
proof -
  have "\<exists>ma. metricsForRun def as = Inr ma" "\<exists>mb. metricsForRun def bs = Inr mb"
    using assms metricsForRun_succeeds [of def as] metricsForRun_succeeds [of def bs] by auto
  then obtain ma mb where m: "metricsForRun def as = Inr ma" "metricsForRun def bs = Inr mb" by auto
  have f: "rc_a (compare_metrics a b) = a" "rc_b (compare_metrics a b) = b"
    "rc_agreement (compare_metrics a b) = route_agreement (rm_routes a) (rm_routes b)"
    "rc_same (compare_metrics a b) \<longleftrightarrow> rm_routes a = rm_routes b"
    "rc_rateDelta (compare_metrics a b) = rm_rate a - rm_rate b"
    "rc_modelDelta (compare_metrics a b) = rm_modelCalls a - rm_modelCalls b" for a b
    by (simp_all only: compare_metrics_def Let_def run_comparison.simps agreement_one)
  have sym: "route_agreement (rm_routes mb) (rm_routes ma) = route_agreement (rm_routes ma) (rm_routes mb)"
    by (rule agreement_sym)
  have eq: "rm_routes mb = rm_routes ma \<longleftrightarrow> rm_routes ma = rm_routes mb" by (rule eq_commute)
  show ?thesis
  proof (intro exI conjI)
    show "CompareRuns (Some def) as bs = Inr (compare_metrics ma mb)" "CompareRuns (Some def) bs as = Inr (compare_metrics mb ma)"
      by (simp_all add: CompareRuns_def m)
  qed (simp_all only: f sym eq agreement_bounds metricsForRun_counts(1-3) [OF m(1)] minus_diff_eq)
qed

lemma approval_logs:
  "log_of (launched approval_def) \<noteq> [] \<and> one_run ''i'' ''x'' (log_of (launched approval_def))"
  "log_of approved \<noteq> [] \<and> one_run ''i'' ''x'' (log_of approved)"
  by code_simp+

theorem comparison_meaning_witness:
  "\<exists>r. CompareRuns (Some approval_def) (log_of (launched approval_def)) (log_of approved) = Inr r \<and>
     0 \<le> rc_agreement r \<and> rc_agreement r \<le> 1"
  using comparison_meaning [of "log_of (launched approval_def)" "''i''" "''x''" "log_of approved" "''i''" "''x''" approval_def]
    approval_logs by blast

end
