(* ===== verification/Diff.thy ===== *)
theory Diff
  imports Validator
begin

text \<open>
  The structural difference of two definitions (\<open>src/dsl/diff.go\<close>). A line is the value it
  prints; the text of an edge's key, by which the lines are ordered, needs the quotation of a string
  by \<open>%q\<close>, which is the argument \<open>q\<close>.
\<close>

datatype change =
    CCreated string string | CRemoved string string | CStart string string
  | CNodeAdded string string | CNodeRemoved string string | CField string string string string
  | CEdgeRemoved string string string | CEdgeRetarget string string string string | CEdgeAdded string string string

record def_diff =
  df_fromID :: string
  df_fromVersion :: string
  df_toID :: string
  df_toVersion :: string
  df_changes :: "change list"

subsection \<open>Nodes\<close>

definition boolStr :: "bool \<Rightarrow> string" where
  "boolStr b = (if b then ''true'' else ''false'')"

fun joinWith :: "string \<Rightarrow> string list \<Rightarrow> string" where
  "joinWith sep [] = ''''"
| "joinWith sep [s] = s"
| "joinWith sep (s # t # ss) = s @ sep @ joinWith sep (t # ss)"

definition opt_text :: "('a \<Rightarrow> string) \<Rightarrow> 'a option \<Rightarrow> string" where
  "opt_text f x = (case x of None \<Rightarrow> '''' | Some y \<Rightarrow> f y)"

text \<open>The fields of a node, in the order of \<open>w4NodeFieldOrder\<close>.\<close>

definition node_fields :: "node \<Rightarrow> (string \<times> string) list" where
  "node_fields n = [
     (''type'', n_type n), (''label'', n_label n), (''requirePrincipal'', boolStr (n_requirePrincipal n)),
     (''duration'', n_duration n), (''deadline.after'', opt_text dl_after (n_deadline n)),
     (''deadline.next'', opt_text dl_next (n_deadline n)), (''ai.prompt'', opt_text ai_prompt (n_ai n)),
     (''ai.choose'', opt_text (\<lambda>a. joinWith '','' (ai_choose a)) (n_ai n)), (''ai.onError'', opt_text ai_onError (n_ai n)),
     (''archetype'', '''')]"

definition diffNodeFields :: "string \<Rightarrow> node \<Rightarrow> node \<Rightarrow> change list" where
  "diffNodeFields k a b =
     concat (map (\<lambda>((name, va), (_, vb)). if va \<noteq> vb then [CField k name va vb] else []) (zip (node_fields a) (node_fields b)))"

subsection \<open>Edges\<close>

definition edgeKey :: "(string \<Rightarrow> string) \<Rightarrow> nat \<Rightarrow> transition \<Rightarrow> string" where
  "edgeKey q i t =
     (let at_key = (\<lambda>w s. w @ ''['' @ show_nat i @ '']='' @ q s)
      in if tr_event t \<noteq> '''' then at_key ''event'' (tr_event t)
         else if tr_when t \<noteq> '''' then at_key ''when'' (tr_when t)
         else if tr_case t \<noteq> '''' then at_key ''case'' (tr_case t)
         else ''auto['' @ show_nat i @ '']'')"

fun edgeMap :: "(string \<Rightarrow> string) \<Rightarrow> nat \<Rightarrow> transition list \<Rightarrow> string dict \<Rightarrow> string dict" where
  "edgeMap q i [] m = m"
| "edgeMap q i (t # ts) m = edgeMap q (Suc i) ts (dput (edgeKey q i t) (tr_next t) m)"

definition sortedKeys :: "'a dict \<Rightarrow> string list" where
  "sortedKeys m = sort_key (\<lambda>k. k) (dkeys m)"

definition diffNodeEdges :: "(string \<Rightarrow> string) \<Rightarrow> string \<Rightarrow> node \<Rightarrow> node \<Rightarrow> change list" where
  "diffNodeEdges q k a b =
     (let as = edgeMap q 0 (n_trans a) []; bs = edgeMap q 0 (n_trans b) []
      in concat (map (\<lambda>e. case (dget as e, dget bs e) of
             (Some na, None) \<Rightarrow> [CEdgeRemoved k e na]
           | (Some na, Some nb) \<Rightarrow> if na \<noteq> nb then [CEdgeRetarget k e na nb] else []
           | _ \<Rightarrow> []) (sortedKeys as)) @
         concat (map (\<lambda>e. case (dget as e, dget bs e) of (None, Some nb) \<Rightarrow> [CEdgeAdded k e nb] | _ \<Rightarrow> []) (sortedKeys bs)))"

subsection \<open>Definitions\<close>

definition unionNodeIDs :: "node dict \<Rightarrow> node dict \<Rightarrow> string list" where
  "unionNodeIDs a b = sort_key (\<lambda>k. k) (remdups (dkeys a @ dkeys b))"

definition node_added :: "process_def \<Rightarrow> string \<Rightarrow> change list" where
  "node_added d k = (case dget (pd_nodes d) k of Some n \<Rightarrow> [CNodeAdded k (n_type n)] | None \<Rightarrow> [])"

definition node_removed :: "process_def \<Rightarrow> string \<Rightarrow> change list" where
  "node_removed d k = (case dget (pd_nodes d) k of Some n \<Rightarrow> [CNodeRemoved k (n_type n)] | None \<Rightarrow> [])"

definition diff_changes :: "(string \<Rightarrow> string) \<Rightarrow> process_def option \<Rightarrow> process_def option \<Rightarrow> change list" where
  "diff_changes q a b =
     (case (a, b) of
        (None, None) \<Rightarrow> []
      | (None, Some b) \<Rightarrow> CCreated (pd_id b) (pd_version b) # concat (map (node_added b) (sortedKeys (pd_nodes b)))
      | (Some a, None) \<Rightarrow> [CRemoved (pd_id a) (pd_version a)]
      | (Some a, Some b) \<Rightarrow>
          (if pd_start a \<noteq> pd_start b then [CStart (pd_start a) (pd_start b)] else []) @
          concat (map (\<lambda>k. case (dget (pd_nodes a) k, dget (pd_nodes b) k) of
              (None, None) \<Rightarrow> []
            | (None, Some nb) \<Rightarrow> node_added b k
            | (Some na, None) \<Rightarrow> node_removed a k
            | (Some na, Some nb) \<Rightarrow> diffNodeFields k na nb @ diffNodeEdges q k na nb) (unionNodeIDs (pd_nodes a) (pd_nodes b))))"

definition Diff :: "(string \<Rightarrow> string) \<Rightarrow> process_def option \<Rightarrow> process_def option \<Rightarrow> def_diff" where
  "Diff q a b = \<lparr>df_fromID = opt_text pd_id a, df_fromVersion = opt_text pd_version a,
     df_toID = opt_text pd_id b, df_toVersion = opt_text pd_version b, df_changes = diff_changes q a b\<rparr>"

subsection \<open>Definitions without a difference\<close>

abbreviation edges :: "(string \<Rightarrow> string) \<Rightarrow> node \<Rightarrow> string dict" where
  "edges q n \<equiv> edgeMap q 0 (n_trans n) []"

text \<open>What a comparison sees of a node.\<close>

definition same_view :: "(string \<Rightarrow> string) \<Rightarrow> node \<Rightarrow> node \<Rightarrow> bool" where
  "same_view q m n \<longleftrightarrow> node_fields m = node_fields n \<and> (\<forall>e. dget (edges q m) e = dget (edges q n) e)"

lemma diffNodeFields_empty: "diffNodeFields k a b = [] \<longleftrightarrow> node_fields a = node_fields b"
  by (simp add: diffNodeFields_def node_fields_def)

lemma no_lines: "concat (map f xs) = [] \<longleftrightarrow> (\<forall>x \<in> set xs. f x = [])"
  by (induction xs) auto

lemma dget_key: "dget d k = Some v \<Longrightarrow> k \<in> set (dkeys d)"
  by (metis dget_eq_None_iff option.distinct(1))

lemma diffNodeEdges_empty: "diffNodeEdges q k a b = [] \<longleftrightarrow> (\<forall>e. dget (edges q a) e = dget (edges q b) e)"
proof -
  let ?a = "dget (edges q a)" and ?b = "dget (edges q b)"
  have r: "(case (x, y) of (Some na, None) \<Rightarrow> [CEdgeRemoved k e na]
      | (Some na, Some nb) \<Rightarrow> if na \<noteq> nb then [CEdgeRetarget k e na nb] else [] | _ \<Rightarrow> []) = [] \<longleftrightarrow> x = None \<or> x = y" for x y e
    by (cases x; cases y) auto
  have n: "(case (x, y) of (None, Some nb) \<Rightarrow> [CEdgeAdded k e nb] | _ \<Rightarrow> []) = [] \<longleftrightarrow> x \<noteq> None \<or> y = None"
    for x :: "string option" and y e by (cases x; cases y) auto
  have "diffNodeEdges q k a b = [] \<longleftrightarrow> (\<forall>e \<in> set (dkeys (edges q a)). ?a e = None \<or> ?a e = ?b e) \<and>
      (\<forall>e \<in> set (dkeys (edges q b)). ?a e \<noteq> None \<or> ?b e = None)"
    unfolding diffNodeEdges_def Let_def sortedKeys_def append_is_Nil_conv no_lines r n set_sort ..
  also have "\<dots> \<longleftrightarrow> (\<forall>e. ?a e = ?b e)"
    by (metis dget_key not_None_eq)
  finally show ?thesis .
qed

lemma diff_empty:
  "df_changes (Diff q (Some a) (Some b)) = [] \<longleftrightarrow> pd_start a = pd_start b \<and>
    (\<forall>k. rel_option (same_view q) (dget (pd_nodes a) k) (dget (pd_nodes b) k))"
proof -
  let ?line = "\<lambda>k. case (dget (pd_nodes a) k, dget (pd_nodes b) k) of
              (None, None) \<Rightarrow> []
            | (None, Some nb) \<Rightarrow> node_added b k
            | (Some na, None) \<Rightarrow> node_removed a k
            | (Some na, Some nb) \<Rightarrow> diffNodeFields k na nb @ diffNodeEdges q k na nb"
  have l: "?line k = [] \<longleftrightarrow> rel_option (same_view q) (dget (pd_nodes a) k) (dget (pd_nodes b) k)" for k
    by (auto simp: node_added_def node_removed_def same_view_def diffNodeFields_empty diffNodeEdges_empty split: option.splits)
  have "rel_option (same_view q) (dget (pd_nodes a) k) (dget (pd_nodes b) k)" if "k \<notin> set (unionNodeIDs (pd_nodes a) (pd_nodes b))" for k
  proof -
    from that have "dget (pd_nodes a) k = None" "dget (pd_nodes b) k = None"
      by (simp_all add: unionNodeIDs_def dget_eq_None_iff del: set_map)
    then show ?thesis by simp
  qed
  with l have "(\<forall>k \<in> set (unionNodeIDs (pd_nodes a) (pd_nodes b)). ?line k = []) \<longleftrightarrow>
      (\<forall>k. rel_option (same_view q) (dget (pd_nodes a) k) (dget (pd_nodes b) k))" by blast
  then show ?thesis by (simp add: Diff_def diff_changes_def no_lines del: concat_eq_Nil_conv)
qed

lemma diff_self: "df_changes (Diff q (Some a) (Some a)) = []"
  by (simp add: diff_empty option.rel_refl same_view_def)

end
