(* ===== verification/Simulator.thy ===== *)
theory Simulator
  imports Process
begin

text \<open>
  The path enumeration of \<open>src/dsl/simulator.go\<close>: a breadth-first search of partial paths, in which
  a node may occur twice. The loop over the queue ends because a path that has a successor is
  shorter than \<open>MaxPathLength\<close>: the weight of a queue drops with every state taken from it.
\<close>

definition MaxPathLength :: nat where
  "MaxPathLength = 100"

record path_result =
  pr_index :: nat
  pr_nodes :: "string list"
  pr_events :: "string list"
  pr_complete :: bool
  pr_abnormal :: bool

record simulation =
  sm_paths :: "path_result list"
  sm_cycles :: "string list list"

record bfs_state =
  bs_node :: string
  bs_nodes :: "string list"
  bs_events :: "string list"
  bs_visited :: "nat dict"

text \<open>\<open>pathIndex\<close> is the number of paths so far.\<close>

definition add_path :: "string list \<Rightarrow> string list \<Rightarrow> bool \<Rightarrow> bool \<Rightarrow> simulation \<Rightarrow> simulation" where
  "add_path ns es whole odd_one r = r\<lparr>sm_paths := sm_paths r @
     [\<lparr>pr_index = length (sm_paths r), pr_nodes = ns, pr_events = es, pr_complete = whole, pr_abnormal = odd_one\<rparr>]\<rparr>"

definition detectCycle :: "string list \<Rightarrow> string \<Rightarrow> string list option" where
  "detectCycle ns k = (if k \<in> set ns then Some (dropWhile (\<lambda>n. n \<noteq> k) ns @ [k]) else None)"

fun sim_trans :: "process_def \<Rightarrow> bfs_state \<Rightarrow> transition list \<Rightarrow> bfs_state list \<times> simulation \<Rightarrow> bfs_state list \<times> simulation" where
  "sim_trans def st [] qr = qr"
| "sim_trans def st (tr # trs) (q, r) =
     (let k = tr_next tr
      in if k = '''' then sim_trans def st trs (q, add_path (bs_nodes st) (bs_events st @ [tr_event tr]) False False r)
         else if dget (pd_nodes def) k = None then sim_trans def st trs (q, r)
         else
           let visits = Suc (dget0 (bs_visited st) k); ns = bs_nodes st @ [k]; es = bs_events st @ [tr_event tr]
           in if visits > 2 then
                sim_trans def st trs (q, add_path ns es False True
                  (case detectCycle (bs_nodes st) k of None \<Rightarrow> r | Some c \<Rightarrow> r\<lparr>sm_cycles := sm_cycles r @ [c]\<rparr>))
              else
                sim_trans def st trs
                  (q @ [\<lparr>bs_node = k, bs_nodes = ns, bs_events = es, bs_visited = dput k visits (bs_visited st)\<rparr>], r))"

definition sim_step :: "process_def \<Rightarrow> bfs_state \<Rightarrow> bfs_state list \<times> simulation \<Rightarrow> bfs_state list \<times> simulation" where
  "sim_step def st qr =
     (case dget (pd_nodes def) (bs_node st) of
        None \<Rightarrow> qr
      | Some n \<Rightarrow>
          if n_type n = ''end'' then (fst qr, add_path (bs_nodes st) (bs_events st) True False (snd qr))
          else if n_trans n = [] then (fst qr, add_path (bs_nodes st) (bs_events st) False False (snd qr))
          else if length (bs_nodes st) \<ge> MaxPathLength then (fst qr, add_path (bs_nodes st) (bs_events st) False True (snd qr))
          else sim_trans def st (n_trans n) qr)"

subsection \<open>The loop ends\<close>

definition out_bound :: "process_def \<Rightarrow> nat" where
  "out_bound def = sum_list (map (\<lambda>(k, n). length (n_trans n)) (pd_nodes def))"

definition weight :: "process_def \<Rightarrow> bfs_state \<Rightarrow> nat" where
  "weight def st = Suc (out_bound def) ^ (Suc MaxPathLength - length (bs_nodes st))"

abbreviation queue_weight :: "process_def \<Rightarrow> bfs_state list \<Rightarrow> nat" where
  "queue_weight def q \<equiv> sum_list (map (weight def) q)"

lemma trans_bound:
  assumes "dget (pd_nodes def) k = Some n"
  shows "length (n_trans n) \<le> out_bound def"
proof -
  have "length (n_trans n) \<in> set (map (\<lambda>(k, n). length (n_trans n)) (pd_nodes def))"
    using map_of_SomeD [OF assms] by force
  then show ?thesis unfolding out_bound_def by (rule member_le_sum_list) simp
qed

lemma sim_trans_queue:
  "\<exists>new. fst (sim_trans def st trs (q, r)) = q @ new \<and> length new \<le> length trs \<and>
    (\<forall>st' \<in> set new. length (bs_nodes st') = Suc (length (bs_nodes st)))"
proof (induction trs arbitrary: q r)
  case (Cons tr trs)
  let ?k = "tr_next tr"
  let ?visits = "Suc (dget0 (bs_visited st) ?k)"
  let ?new = "\<lparr>bs_node = ?k, bs_nodes = bs_nodes st @ [?k], bs_events = bs_events st @ [tr_event tr],
      bs_visited = dput ?k ?visits (bs_visited st)\<rparr>"
  show ?case
  proof (cases "?k = '''' \<or> dget (pd_nodes def) ?k = None \<or> ?visits > 2")
    case True
    then have "\<exists>r'. sim_trans def st (tr # trs) (q, r) = sim_trans def st trs (q, r')"
      by (auto simp: Let_def split: if_split)
    then obtain r' where "sim_trans def st (tr # trs) (q, r) = sim_trans def st trs (q, r')" by (elim exE)
    with Cons.IH [of q r'] show ?thesis by auto
  next
    case False
    then have "sim_trans def st (tr # trs) (q, r) = sim_trans def st trs (q @ [?new], r)" by (auto simp: Let_def)
    with Cons.IH [of "q @ [?new]" r] show ?thesis by fastforce
  qed
qed simp

lemma sim_step_weight:
  "queue_weight def (fst (sim_step def st (q, r))) < queue_weight def (st # q)"
proof (cases "fst (sim_step def st (q, r)) = q")
  case False
  then obtain n where n: "dget (pd_nodes def) (bs_node st) = Some n" and l: "length (bs_nodes st) < MaxPathLength"
    and e: "sim_step def st (q, r) = sim_trans def st (n_trans n) (q, r)"
    by (auto simp: sim_step_def not_le split: option.splits if_splits)
  obtain new where q: "fst (sim_trans def st (n_trans n) (q, r)) = q @ new" and len: "length new \<le> length (n_trans n)"
    and new: "\<forall>st' \<in> set new. length (bs_nodes st') = Suc (length (bs_nodes st))"
    using sim_trans_queue [of def st "n_trans n" q r] by blast
  let ?D = "Suc (out_bound def)" and ?i = "MaxPathLength - length (bs_nodes st)"
  have "map (weight def) new = map (\<lambda>_. ?D ^ ?i) new" using new by (auto simp: weight_def)
  from arg_cong [OF this, of sum_list] have "queue_weight def new = length new * ?D ^ ?i"
    by (simp only: sum_list_triv of_nat_id)
  also have "\<dots> \<le> out_bound def * ?D ^ ?i" using len trans_bound [OF n] by simp
  also have "\<dots> < ?D * ?D ^ ?i" by simp
  also have "\<dots> = weight def st" using l by (simp add: weight_def Suc_diff_le)
  finally show ?thesis by (simp add: e q)
qed (simp add: weight_def)

function simulate_loop :: "process_def \<Rightarrow> bfs_state list \<times> simulation \<Rightarrow> simulation" where
  "simulate_loop def ([], r) = r"
| "simulate_loop def (st # q, r) = simulate_loop def (sim_step def st (q, r))"
  by pat_completeness auto

termination
  by (relation "measure (\<lambda>(def, q, r). queue_weight def q)")
    (use sim_step_weight in \<open>auto simp: split_beta\<close>)

definition Simulate :: "process_def \<Rightarrow> simulation" where
  "Simulate def =
     (let none = \<lparr>sm_paths = [], sm_cycles = []\<rparr>
      in if pd_start def = '''' then none
         else simulate_loop def
           ([\<lparr>bs_node = pd_start def, bs_nodes = [pd_start def], bs_events = [], bs_visited = [(pd_start def, 1)]\<rparr>], none))"

subsection \<open>The paths are paths\<close>

definition step_to :: "process_def \<Rightarrow> string \<Rightarrow> string \<Rightarrow> bool" where
  "step_to def a b \<longleftrightarrow> (\<exists>n. dget (pd_nodes def) a = Some n \<and> b \<in> tr_next ` set (n_trans n))"

definition walk :: "process_def \<Rightarrow> string list \<Rightarrow> bool" where
  "walk def ns \<longleftrightarrow> ns \<noteq> [] \<and> hd ns = pd_start def \<and> (\<forall>i. Suc i < length ns \<longrightarrow> step_to def (ns ! i) (ns ! Suc i))"

definition state_ok :: "process_def \<Rightarrow> bfs_state \<Rightarrow> bool" where
  "state_ok def st \<longleftrightarrow> walk def (bs_nodes st) \<and> last (bs_nodes st) = bs_node st \<and>
     (\<forall>k. dget0 (bs_visited st) k = count_list (bs_nodes st) k \<and> count_list (bs_nodes st) k \<le> 2)"

definition path_ok :: "process_def \<Rightarrow> path_result \<Rightarrow> bool" where
  "path_ok def p \<longleftrightarrow> walk def (pr_nodes p) \<and> (\<forall>k. count_list (pr_nodes p) k \<le> 3) \<and>
     (pr_complete p \<longrightarrow> (\<exists>n. dget (pd_nodes def) (last (pr_nodes p)) = Some n \<and> n_type n = ''end''))"

definition paths_ok :: "process_def \<Rightarrow> simulation \<Rightarrow> bool" where
  "paths_ok def r \<longleftrightarrow> (\<forall>p \<in> set (sm_paths r). path_ok def p) \<and> map pr_index (sm_paths r) = [0..<length (sm_paths r)]"

lemma walk_snoc:
  assumes "walk def ns" and "step_to def (last ns) k"
  shows "walk def (ns @ [k])"
  unfolding walk_def
proof (intro conjI allI impI)
  fix i assume "Suc i < length (ns @ [k])"
  moreover have "ns ! i = last ns" if "Suc i = length ns"
    using that assms(1) by (simp add: walk_def last_conv_nth flip: that)
  ultimately show "step_to def ((ns @ [k]) ! i) ((ns @ [k]) ! Suc i)"
    using assms by (cases "Suc i = length ns") (auto simp: walk_def nth_append)
qed (use assms in \<open>simp_all add: walk_def\<close>)

lemma add_path_ok:
  assumes "paths_ok def r" and "walk def ns" and "\<forall>k. count_list ns k \<le> 3"
    and "c \<Longrightarrow> \<exists>n. dget (pd_nodes def) (last ns) = Some n \<and> n_type n = ''end''"
  shows "paths_ok def (add_path ns es c a r)"
  using assms by (auto simp: paths_ok_def add_path_def path_ok_def)

lemma sim_trans_ok:
  assumes "state_ok def st" and "dget (pd_nodes def) (bs_node st) = Some n"
  shows "set trs \<subseteq> set (n_trans n) \<Longrightarrow> paths_ok def r \<Longrightarrow> \<forall>x \<in> set q. state_ok def x \<Longrightarrow>
    case sim_trans def st trs (q, r) of (q', r') \<Rightarrow> paths_ok def r' \<and> (\<forall>x \<in> set q'. state_ok def x)"
proof (induction trs arbitrary: q r)
  case (Cons tr trs)
  let ?k = "tr_next tr"
  have step: "step_to def (last (bs_nodes st)) ?k" using assms Cons.prems(1) by (auto simp: step_to_def state_ok_def)
  have w: "walk def (bs_nodes st @ [?k])" using walk_snoc step assms(1) by (simp add: state_ok_def)
  have c: "count_list (bs_nodes st) x \<le> 2" "dget0 (bs_visited st) x = count_list (bs_nodes st) x" for x
    using assms(1) by (auto simp: state_ok_def)
  have le: "count_list (bs_nodes st) x \<le> 3" for x using c(1) [of x] by simp
  have le1: "count_list (bs_nodes st @ [?k]) x \<le> 3" for x using c(1) [of x] by simp
  consider (none) "?k = ''''" | (lost) "?k \<noteq> ''''" "dget (pd_nodes def) ?k = None"
    | (again) "?k \<noteq> ''''" "dget (pd_nodes def) ?k \<noteq> None" "2 < Suc (dget0 (bs_visited st) ?k)"
    | (on) "?k \<noteq> ''''" "dget (pd_nodes def) ?k \<noteq> None" "Suc (dget0 (bs_visited st) ?k) \<le> 2"
    by fastforce
  then show ?case
  proof cases
    case none
    have "paths_ok def (add_path (bs_nodes st) (bs_events st @ [tr_event tr]) False False r)"
      by (rule add_path_ok) (use Cons.prems assms(1) le in \<open>auto simp: state_ok_def\<close>)
    with none Cons.IH [of _ q] Cons.prems show ?thesis by (simp add: Let_def)
  next
    case lost
    with Cons.IH [of r q] Cons.prems show ?thesis by (simp add: Let_def)
  next
    case again
    let ?r = "case detectCycle (bs_nodes st) ?k of None \<Rightarrow> r | Some c \<Rightarrow> r\<lparr>sm_cycles := sm_cycles r @ [c]\<rparr>"
    have "paths_ok def ?r" using Cons.prems by (simp add: paths_ok_def split: option.split)
    then have "paths_ok def (add_path (bs_nodes st @ [?k]) (bs_events st @ [tr_event tr]) False True ?r)"
      by (rule add_path_ok) (use w le1 in auto)
    with again Cons.IH [of _ q] Cons.prems show ?thesis by (simp add: Let_def)
  next
    case on
    let ?x = "\<lparr>bs_node = ?k, bs_nodes = bs_nodes st @ [?k], bs_events = bs_events st @ [tr_event tr],
      bs_visited = dput ?k (Suc (dget0 (bs_visited st) ?k)) (bs_visited st)\<rparr>"
    have "state_ok def ?x" using w on(3) c by (auto simp: state_ok_def)
    moreover have "sim_trans def st (tr # trs) (q, r) = sim_trans def st trs (q @ [?x], r)" using on by (auto simp: Let_def)
    ultimately show ?thesis using Cons.IH [of r "q @ [?x]"] Cons.prems by simp
  qed
qed simp

lemma sim_step_ok:
  assumes "state_ok def st" and "paths_ok def r" and "\<forall>x \<in> set q. state_ok def x"
  shows "case sim_step def st (q, r) of (q', r') \<Rightarrow> paths_ok def r' \<and> (\<forall>x \<in> set q'. state_ok def x)"
proof (cases "dget (pd_nodes def) (bs_node st)")
  case (Some n)
  have le2: "count_list (bs_nodes st) x \<le> 2" for x using assms(1) by (simp add: state_ok_def)
  have le: "count_list (bs_nodes st) x \<le> 3" for x using le2 [of x] by simp
  have a: "paths_ok def (add_path (bs_nodes st) es c b r)" if "c \<Longrightarrow> n_type n = ''end''" for es c b
    by (rule add_path_ok) (use assms(1,2) le Some that in \<open>auto simp: state_ok_def\<close>)
  from sim_trans_ok [OF assms(1) Some order.refl assms(2,3)] a assms(3) show ?thesis
    by (auto simp: sim_step_def Some)
qed (use assms in \<open>simp add: sim_step_def\<close>)

lemma simulate_loop_ok: "paths_ok def (snd qr) \<Longrightarrow> \<forall>x \<in> set (fst qr). state_ok def x \<Longrightarrow> paths_ok def (simulate_loop def qr)"
proof (induction def qr rule: simulate_loop.induct)
  case (2 def st q r)
  from sim_step_ok [of def st r q] 2 show ?case by (auto simp: split_beta)
qed simp

text \<open>Every path that the search reports leads along transitions from the start node, passes a node
  at most three times, and ends in an end node if it is reported as complete; the paths are numbered
  in order.\<close>

lemma Simulate_ok: "paths_ok def (Simulate def)"
proof -
  let ?st = "\<lparr>bs_node = pd_start def, bs_nodes = [pd_start def], bs_events = [], bs_visited = [(pd_start def, 1)]\<rparr>"
  have "state_ok def ?st" by (auto simp: state_ok_def walk_def dget0_def)
  moreover have "paths_ok def \<lparr>sm_paths = [], sm_cycles = []\<rparr>" by (simp add: paths_ok_def)
  ultimately show ?thesis
    using simulate_loop_ok [of def "([?st], \<lparr>sm_paths = [], sm_cycles = []\<rparr>)"]
    by (simp add: Simulate_def Let_def del: simulate_loop.simps)
qed

end
