(* ===== verification/Expressions.thy ===== *)
theory Expressions
  imports Process
begin

text \<open>
  The expression engine (\<open>src/dsl/expression.go\<close>) and the typed environments of its type check
  (\<open>typechecker.go\<close>), with their two process-wide caches. The \<open>expr\<close> library is a parameter: it
  compiles an expression, with or without a boolean result, checks one against an environment
  type, and runs a program, \<open>None\<close> when the run takes longer than \<open>exprEvalTimeout\<close>.
\<close>

subsection \<open>Environment types\<close>

text \<open>
  The \<open>reflect.Type\<close> of a declared type; a field keeps the identifier of its tag. \<open>StructOf\<close> panics
  (\<open>None\<close>) on a field name that is not an exported identifier or occurs twice. Whether bytes
  beyond ASCII are letters is asked of \<open>uni\<close>.
\<close>

datatype go_type = GString | GFloat | GBool | GAny | GSlice go_type | GStruct "(string \<times> go_type) list"

definition upper_letter :: "char \<Rightarrow> bool" where
  "upper_letter c \<longleftrightarrow> CHR ''A'' \<le> c \<and> c \<le> CHR ''Z''"

definition lower_letter :: "char \<Rightarrow> bool" where
  "lower_letter c \<longleftrightarrow> CHR ''a'' \<le> c \<and> c \<le> CHR ''z''"

definition digit_char :: "char \<Rightarrow> bool" where
  "digit_char c \<longleftrightarrow> CHR ''0'' \<le> c \<and> c \<le> CHR ''9''"

definition ascii :: "char \<Rightarrow> bool" where
  "ascii c \<longleftrightarrow> (of_char c :: nat) < 128"

text \<open>\<open>strings.ToUpper\<close> of one byte; a byte beyond ASCII becomes the replacement character.\<close>

definition exportedName :: "string \<Rightarrow> string" where
  "exportedName ident =
     (case ident of
        [] \<Rightarrow> ''X''
      | c # cs \<Rightarrow>
          (if lower_letter c then [char_of ((of_char c :: nat) - 32)]
           else if ascii c then [c] else map char_of [0xEF :: nat, 0xBF, 0xBD]) @ cs)"

definition fieldName_ok :: "(string \<Rightarrow> bool) \<Rightarrow> string \<Rightarrow> bool" where
  "fieldName_ok uni name =
     (case name of
        [] \<Rightarrow> False
      | c # cs \<Rightarrow> upper_letter c \<and>
          (if list_all ascii cs then list_all (\<lambda>d. upper_letter d \<or> lower_letter d \<or> digit_char d \<or> d = CHR ''_'') cs
           else uni cs))"

definition structOf :: "(string \<Rightarrow> bool) \<Rightarrow> (string \<times> go_type) list \<Rightarrow> go_type option" where
  "structOf uni fs =
     (let names = map (\<lambda>(n, t). exportedName n) fs
      in if list_all (fieldName_ok uni) names \<and> distinct names then Some (GStruct fs) else None)"

definition all_some :: "('a \<times> 'b option) list \<Rightarrow> ('a \<times> 'b) list option" where
  "all_some xs = (if list_all (\<lambda>(a, b). b \<noteq> None) xs then Some (map (\<lambda>(a, b). (a, the b)) xs) else None)"

fun toGoType :: "(string \<Rightarrow> bool) \<Rightarrow> ty \<Rightarrow> go_type option" where
  "toGoType uni (Ty k el fs en) =
     (case k of
        TypeString \<Rightarrow> Some GString | TypeEnum \<Rightarrow> Some GString | TypeDateTime \<Rightarrow> Some GString
      | TypeNumber \<Rightarrow> Some GFloat | TypeMoney \<Rightarrow> Some GFloat
      | TypeBoolean \<Rightarrow> Some GBool | TypeAny \<Rightarrow> Some GAny
      | TypeArray \<Rightarrow> map_option GSlice (case el of None \<Rightarrow> Some GAny | Some t \<Rightarrow> toGoType uni t)
      | TypeObject \<Rightarrow> Option.bind
          (all_some (map (\<lambda>(n, t, opt). (n, case t of None \<Rightarrow> Some GAny | Some t \<Rightarrow> toGoType uni t)) fs))
          (structOf uni))"

definition typed_env :: "(string \<Rightarrow> bool) \<Rightarrow> ty dict \<Rightarrow> go_type option" where
  "typed_env uni schema = Option.bind
     (all_some (map (\<lambda>n. (n, case dget schema n of None \<Rightarrow> Some GAny | Some t \<Rightarrow> toGoType uni t))
       (sort_key (\<lambda>k. k) (dkeys schema)))) (structOf uni)"

fun writeTypeSig :: "ty \<Rightarrow> string" where
  "writeTypeSig (Ty k el fs en) =
     (case k of
        TypeArray \<Rightarrow> ''[]'' @ (case el of None \<Rightarrow> ''any'' | Some t \<Rightarrow> writeTypeSig t)
      | TypeObject \<Rightarrow> ''object{'' @ concat (map (\<lambda>(n, t, opt).
            n @ (if opt then ''?'' else '''') @ '':'' @ (case t of None \<Rightarrow> ''any'' | Some t \<Rightarrow> writeTypeSig t) @ '','') fs) @ ''}''
      | TypeEnum \<Rightarrow> ''enum['' @ concat (map (\<lambda>v. v @ '','') en) @ '']''
      | _ \<Rightarrow> kindString k)"

definition schemaSignature :: "ty dict \<Rightarrow> string" where
  "schemaSignature schema = concat (map (\<lambda>n.
     n @ '':'' @ (case dget schema n of None \<Rightarrow> ''any'' | Some t \<Rightarrow> writeTypeSig t) @ '';'')
     (sort_key (\<lambda>k. k) (dkeys schema)))"

subsection \<open>The engine\<close>

record ('p, 'e) expr_lib =
  xl_compile :: "bool \<Rightarrow> string \<Rightarrow> 'e + 'p"
  xl_check :: "go_type \<Rightarrow> string \<Rightarrow> 'e option"
  xl_run :: "'p \<Rightarrow> env \<Rightarrow> ('e + val) option"
  xl_uni :: "string \<Rightarrow> bool"

record ('p, 'e) expr_cache =
  xc_programs :: "('e + 'p) dict"
  xc_envs :: "go_type dict"

datatype 'e expr_error =
    XCondition string 'e | XValue string 'e | XCompile 'e | XEvaluate 'e | XTimeout | XNotBool val | XTyped 'e

definition bool_mark :: string where
  "bool_mark = CHR 0x00 # ''bool'' @ [CHR 0x00]"

definition cacheKey :: "bool \<Rightarrow> string \<Rightarrow> string" where
  "cacheKey b e = (if b then bool_mark @ e else e)"

definition compileExpr :: "('p, 'e) expr_lib \<Rightarrow> string \<Rightarrow> bool \<Rightarrow> ('p, 'e) expr_cache \<Rightarrow> ('e + 'p) \<times> ('p, 'e) expr_cache" where
  "compileExpr x e b c =
     (case dget (xc_programs c) (cacheKey b e) of
        Some r \<Rightarrow> (r, c)
      | None \<Rightarrow> let r = xl_compile x b e in (r, c\<lparr>xc_programs := dput (cacheKey b e) r (xc_programs c)\<rparr>))"

definition ValidateExpr :: "('p, 'e) expr_lib \<Rightarrow> string \<Rightarrow> ('p, 'e) expr_cache \<Rightarrow> 'e expr_error option \<times> ('p, 'e) expr_cache" where
  "ValidateExpr x e c = apfst (\<lambda>r. case r of Inl er \<Rightarrow> Some (XCondition e er) | Inr p \<Rightarrow> None) (compileExpr x e True c)"

definition ValidateValue :: "('p, 'e) expr_lib \<Rightarrow> string \<Rightarrow> ('p, 'e) expr_cache \<Rightarrow> 'e expr_error option \<times> ('p, 'e) expr_cache" where
  "ValidateValue x e c = apfst (\<lambda>r. case r of Inl er \<Rightarrow> Some (XValue e er) | Inr p \<Rightarrow> None) (compileExpr x e False c)"

definition runExpr :: "('p, 'e) expr_lib \<Rightarrow> 'p \<Rightarrow> env \<Rightarrow> 'e expr_error + val" where
  "runExpr x p env = (case xl_run x p env of None \<Rightarrow> Inl XTimeout | Some (Inl er) \<Rightarrow> Inl (XEvaluate er) | Some (Inr v) \<Rightarrow> Inr v)"

definition as_bool :: "'e expr_error + val \<Rightarrow> 'e expr_error + bool" where
  "as_bool r = (case r of Inl er \<Rightarrow> Inl er | Inr (VBool b) \<Rightarrow> Inr b | Inr v \<Rightarrow> Inl (XNotBool v))"

definition Evaluate :: "('p, 'e) expr_lib \<Rightarrow> string \<Rightarrow> env \<Rightarrow> ('p, 'e) expr_cache \<Rightarrow> ('e expr_error + bool) \<times> ('p, 'e) expr_cache" where
  "Evaluate x e env c =
     apfst (\<lambda>r. case r of Inl er \<Rightarrow> Inl (XCompile er) | Inr p \<Rightarrow> as_bool (runExpr x p env)) (compileExpr x e True c)"

definition EvaluateAny :: "('p, 'e) expr_lib \<Rightarrow> string \<Rightarrow> env \<Rightarrow> ('p, 'e) expr_cache \<Rightarrow> ('e expr_error + val) \<times> ('p, 'e) expr_cache" where
  "EvaluateAny x e env c =
     apfst (\<lambda>r. case r of Inl er \<Rightarrow> Inl (XCompile er) | Inr p \<Rightarrow> runExpr x p env) (compileExpr x e False c)"

definition buildTypedEnv :: "('p, 'e) expr_lib \<Rightarrow> ty dict \<Rightarrow> ('p, 'e) expr_cache \<Rightarrow> (go_type \<times> ('p, 'e) expr_cache) option" where
  "buildTypedEnv x schema c =
     (let sig = schemaSignature schema
      in case dget (xc_envs c) sig of
           Some g \<Rightarrow> Some (g, c)
         | None \<Rightarrow> map_option (\<lambda>g. (g, c\<lparr>xc_envs := dput sig g (xc_envs c)\<rparr>)) (typed_env (xl_uni x) schema))"

text \<open>A panic of \<open>StructOf\<close> is \<open>None\<close>; otherwise the errors found, at most one.\<close>

definition TypeCheck :: "('p, 'e) expr_lib \<Rightarrow> string \<Rightarrow> ty dict \<Rightarrow> ('p, 'e) expr_cache \<Rightarrow> ('e expr_error option \<times> ('p, 'e) expr_cache) option" where
  "TypeCheck x e schema c =
     (if schema = [] then Some (ValidateExpr x e c)
      else map_option (\<lambda>(g, c1). (map_option XTyped (xl_check x g e), c1)) (buildTypedEnv x schema c))"

subsection \<open>The signature of a schema\<close>

text \<open>No delimiter of the signature inside a name or an enumerated value.\<close>

definition plain_name :: "string \<Rightarrow> bool" where
  "plain_name n \<longleftrightarrow> list_all (\<lambda>c. c \<noteq> CHR '':'' \<and> c \<noteq> CHR ''?'' \<and> c \<noteq> CHR ''}'') n"

fun plain_ty :: "ty \<Rightarrow> bool" where
  "plain_ty (Ty k el fs en) \<longleftrightarrow> (\<forall>t. el = Some t \<longrightarrow> plain_ty t) \<and>
     (\<forall>f \<in> set fs. case f of (n, t, opt) \<Rightarrow> plain_name n \<and> (\<forall>u. t = Some u \<longrightarrow> plain_ty u)) \<and>
     list_all (\<lambda>v. CHR '']'' \<notin> set v) en"

definition plain_schema :: "ty dict \<Rightarrow> bool" where
  "plain_schema schema \<longleftrightarrow> (\<forall>(n, t) \<in> set schema. plain_name n \<and> plain_ty t)"

abbreviation sig_opt :: "ty option \<Rightarrow> string" where
  "sig_opt t \<equiv> (case t of None \<Rightarrow> ''any'' | Some u \<Rightarrow> writeTypeSig u)"

abbreviation go_opt :: "(string \<Rightarrow> bool) \<Rightarrow> ty option \<Rightarrow> go_type option" where
  "go_opt uni t \<equiv> (case t of None \<Rightarrow> Some GAny | Some u \<Rightarrow> toGoType uni u)"

abbreviation sig_field :: "string \<times> ty option \<times> bool \<Rightarrow> string" where
  "sig_field f \<equiv> (case f of (n, t, opt) \<Rightarrow> n @ (if opt then ''?'' else '''') @ '':'' @ sig_opt t @ '','')"

text \<open>Two texts that go on after a run of characters with \<open>P\<close> agree on that run.\<close>

lemma span_eq:
  "a @ x # r = b @ y # s \<Longrightarrow> list_all P a \<Longrightarrow> list_all P b \<Longrightarrow> \<not> P x \<Longrightarrow> \<not> P y \<Longrightarrow> a = b \<and> x = y \<and> r = s"
proof (induction a arbitrary: b)
  case Nil then show ?case by (cases b) auto
next
  case (Cons c a) then show ?case by (cases b) auto
qed

definition settles :: "(string \<Rightarrow> bool) \<Rightarrow> ty \<Rightarrow> bool" where
  "settles uni t \<longleftrightarrow> (\<forall>u r s. plain_ty t \<longrightarrow> plain_ty u \<longrightarrow> writeTypeSig t @ r = writeTypeSig u @ s \<longrightarrow>
     toGoType uni t = toGoType uni u \<and> r = s)"

lemma any_sig: "''any'' @ r = writeTypeSig u @ s \<Longrightarrow> toGoType uni u = Some GAny \<and> r = s"
  by (cases u; cases "t_kind u") auto

lemma settles_opt:
  assumes "\<And>v. t = Some v \<Longrightarrow> settles uni v" and "\<And>v. t = Some v \<Longrightarrow> plain_ty v" and "\<And>v. u = Some v \<Longrightarrow> plain_ty v"
    and "sig_opt t @ r = sig_opt u @ s"
  shows "go_opt uni t = go_opt uni u \<and> r = s"
proof (cases t; cases u)
  fix v assume "t = None" "u = Some v"
  with assms(4) any_sig [of r v s uni] show ?thesis by simp
next
  fix v assume "t = Some v" "u = None"
  with assms(4) any_sig [of s v r uni] show ?thesis by simp
next
  fix v w assume tu: "t = Some v" "u = Some w"
  have "writeTypeSig v @ r = writeTypeSig w @ s" using assms(4) by (simp add: tu)
  then have "toGoType uni v = toGoType uni w \<and> r = s"
    using assms(1) [OF tu(1), unfolded settles_def] assms(2) [OF tu(1)] assms(3) [OF tu(2)] by blast
  then show ?thesis by (simp add: tu)
qed (use assms(4) in simp_all)

text \<open>A field's text: the name, a mark, the type, a comma.\<close>

definition mark :: "bool \<Rightarrow> char" where
  "mark opt = (if opt then CHR ''?'' else CHR '':'')"

definition after_mark :: "bool \<Rightarrow> string" where
  "after_mark opt = (if opt then '':'' else '''')"

lemma field_text: "sig_field (n, t, opt) = n @ mark opt # after_mark opt @ sig_opt t @ '',''"
  by (cases opt) (simp_all add: mark_def after_mark_def)

lemma mark_eq [simp]: "mark a = mark b \<longleftrightarrow> a = b" "mark a \<noteq> CHR ''}''" "CHR ''}'' \<noteq> mark a"
  by (auto simp: mark_def)

lemma name_ends:
  "n @ mark o1 # r = m @ mark o2 # s \<Longrightarrow> plain_name n \<Longrightarrow> plain_name m \<Longrightarrow> n = m \<and> o1 = o2 \<and> r = s"
  "CHR ''}'' # r = m @ mark o2 # s \<Longrightarrow> plain_name m \<Longrightarrow> False"
proof -
  let ?P = "\<lambda>c. c \<noteq> CHR '':'' \<and> c \<noteq> CHR ''?'' \<and> c \<noteq> CHR ''}''"
  have m: "\<not> ?P (mark b)" for b by (simp add: mark_def)
  show "n = m \<and> o1 = o2 \<and> r = s" if "n @ mark o1 # r = m @ mark o2 # s" "plain_name n" "plain_name m"
    using span_eq [OF that(1), of ?P] that(2,3) m by (simp add: plain_name_def)
  show False if "CHR ''}'' # r = m @ mark o2 # s" "plain_name m"
    using span_eq [of "[]" "CHR ''}''" r m "mark o2" s ?P] that m by (simp add: plain_name_def)
qed

abbreviation plain_field :: "string \<times> ty option \<times> bool \<Rightarrow> bool" where
  "plain_field f \<equiv> (case f of (n, t, opt) \<Rightarrow> plain_name n \<and> (\<forall>u. t = Some u \<longrightarrow> plain_ty u))"

abbreviation sig_fields :: "(string \<times> ty option \<times> bool) list \<Rightarrow> string" where
  "sig_fields fs \<equiv> concat (map sig_field fs)"

abbreviation go_field :: "(string \<Rightarrow> bool) \<Rightarrow> string \<times> ty option \<times> bool \<Rightarrow> string \<times> go_type option" where
  "go_field uni f \<equiv> (case f of (n, t, opt) \<Rightarrow> (n, go_opt uni t))"

lemma sig_fields_Cons: "sig_fields ((n, t, opt) # fs) @ r = n @ mark opt # after_mark opt @ sig_opt t @ '','' @ sig_fields fs @ r"
  unfolding list.map concat.simps field_text by simp

lemma settles_fields:
  "sig_fields fs @ CHR ''}'' # r = sig_fields gs @ CHR ''}'' # s
    \<Longrightarrow> \<forall>(n, t, opt) \<in> set fs. \<forall>v. t = Some v \<longrightarrow> settles uni v
    \<Longrightarrow> \<forall>f \<in> set fs. plain_field f \<Longrightarrow> \<forall>f \<in> set gs. plain_field f
    \<Longrightarrow> map (go_field uni) fs = map (go_field uni) gs \<and> r = s"
proof (induction fs arbitrary: gs)
  case Nil
  show ?case
  proof (cases gs)
    case (Cons g gs')
    obtain n t opt where g: "g = (n, t, opt)" by (cases g)
    have "CHR ''}'' # r = n @ mark opt # after_mark opt @ sig_opt t @ '','' @ sig_fields gs' @ CHR ''}'' # s"
      using Nil.prems(1) unfolding Cons g sig_fields_Cons by simp
    from name_ends(2) [OF this] Nil.prems(4) show ?thesis by (simp add: Cons g)
  qed (use Nil.prems in simp)
next
  case (Cons f fs)
  obtain n t opt where f: "f = (n, t, opt)" by (cases f)
  show ?case
  proof (cases gs)
    case Nil
    have "CHR ''}'' # s = n @ mark opt # after_mark opt @ sig_opt t @ '','' @ sig_fields fs @ CHR ''}'' # r"
      using Cons.prems(1) [symmetric] unfolding Nil f sig_fields_Cons by simp
    from name_ends(2) [OF this] Cons.prems(3) show ?thesis by (simp add: f)
  next
    case gs: (Cons g gs')
    obtain m u opt' where g: "g = (m, u, opt')" by (cases g)
    have plain: "plain_name n" "plain_name m" "\<forall>v. t = Some v \<longrightarrow> plain_ty v" "\<forall>v. u = Some v \<longrightarrow> plain_ty v"
      and st: "\<forall>v. t = Some v \<longrightarrow> settles uni v"
      using Cons.prems(2-4) by (simp_all add: f g gs)
    from name_ends(1) [OF Cons.prems(1) [unfolded f g gs sig_fields_Cons] plain(1,2)]
    have e: "n = m" "opt = opt'" and "after_mark opt @ sig_opt t @ '','' @ sig_fields fs @ CHR ''}'' # r
        = after_mark opt' @ sig_opt u @ '','' @ sig_fields gs' @ CHR ''}'' # s" by blast+
    then have rest: "sig_opt t @ '','' @ sig_fields fs @ CHR ''}'' # r = sig_opt u @ '','' @ sig_fields gs' @ CHR ''}'' # s"
      by (simp only: append_same_eq same_append_eq)
    have o: "go_opt uni t = go_opt uni u \<and> '','' @ sig_fields fs @ CHR ''}'' # r = '','' @ sig_fields gs' @ CHR ''}'' # s"
      by (rule settles_opt [OF _ _ _ rest]) (use st plain(3,4) in blast)+
    then have "sig_fields fs @ CHR ''}'' # r = sig_fields gs' @ CHR ''}'' # s" by (simp only: same_append_eq)
    from Cons.IH [OF this] Cons.prems(2-4) have "map (go_field uni) fs = map (go_field uni) gs' \<and> r = s" by (simp add: gs)
    with o e show ?thesis by (simp only: f g gs list.map prod.case)
  qed
qed

lemma enum_ends:
  assumes "concat (map (\<lambda>v. v @ '','') vs) @ CHR '']'' # r = concat (map (\<lambda>v. v @ '','') ws) @ CHR '']'' # s"
    and "list_all (\<lambda>v. CHR '']'' \<notin> set v) vs" and "list_all (\<lambda>v. CHR '']'' \<notin> set v) ws"
  shows "r = s"
proof -
  have "list_all (\<lambda>c. c \<noteq> CHR '']'') (concat (map (\<lambda>v. v @ '','') vs))" if "list_all (\<lambda>v. CHR '']'' \<notin> set v) vs" for vs
    using that by (induction vs) (auto simp: list_all_iff)
  with span_eq [OF assms(1), of "\<lambda>c. c \<noteq> CHR '']''"] assms(2,3) show ?thesis by simp
qed

text \<open>The first character tells the form of a type apart, so a signature is read in one way only.\<close>

lemma settles_all: "settles uni t"
proof (induction uni t rule: toGoType.induct)
  case (1 uni k el fs en)
  show ?case unfolding settles_def
  proof (intro allI impI)
    fix u r s
    assume plain: "plain_ty (Ty k el fs en)" "plain_ty u" and eq: "writeTypeSig (Ty k el fs en) @ r = writeTypeSig u @ s"
    obtain k' el' fs' en' where u: "u = Ty k' el' fs' en'" by (cases u)
    consider "k = TypeArray" "k' = TypeArray" | "k = TypeObject" "k' = TypeObject" | "k = TypeEnum" "k' = TypeEnum"
      | "k = k'" "k \<notin> {TypeArray, TypeObject, TypeEnum}" "r = s"
      using eq unfolding u by (cases k; cases k') simp_all
    then show "toGoType uni (Ty k el fs en) = toGoType uni u \<and> r = s"
    proof cases
      case 1
      have "sig_opt el @ r = sig_opt el' @ s" using eq 1 by (simp add: u)
      then have "go_opt uni el = go_opt uni el' \<and> r = s"
        by (rule settles_opt [rotated 3]) (use "1.IH" 1 plain u in auto)
      then show ?thesis by (simp add: u 1)
    next
      case 2
      have "sig_fields fs @ CHR ''}'' # r = sig_fields fs' @ CHR ''}'' # s" using eq 2 by (simp add: u)
      then have f: "map (go_field uni) fs = map (go_field uni) fs' \<and> r = s"
        by (rule settles_fields) (use "1.IH" 2 plain u in auto)
      then show ?thesis by (simp add: u 2 del: map_eq_conv)
    next
      case 3
      have "concat (map (\<lambda>v. v @ '','') en) @ CHR '']'' # r = concat (map (\<lambda>v. v @ '','') en') @ CHR '']'' # s"
        using eq 3 by (simp add: u)
      then have "r = s" by (rule enum_ends) (use plain u in auto)
      then show ?thesis by (simp add: u 3)
    qed (auto simp: u split: type_kind.split)
  qed
qed

abbreviation sig_entry :: "string \<times> ty option \<Rightarrow> string" where
  "sig_entry e \<equiv> (case e of (n, t) \<Rightarrow> n @ '':'' @ sig_opt t @ '';'')"

abbreviation sig_entries :: "(string \<times> ty option) list \<Rightarrow> string" where
  "sig_entries es \<equiv> concat (map sig_entry es)"

abbreviation go_entry :: "(string \<Rightarrow> bool) \<Rightarrow> string \<times> ty option \<Rightarrow> string \<times> go_type option" where
  "go_entry uni e \<equiv> (case e of (n, t) \<Rightarrow> (n, go_opt uni t))"

lemma settles_entries:
  "sig_entries es = sig_entries gs \<Longrightarrow> \<forall>(n, t) \<in> set es. plain_name n \<and> (\<forall>v. t = Some v \<longrightarrow> plain_ty v)
    \<Longrightarrow> \<forall>(n, t) \<in> set gs. plain_name n \<and> (\<forall>v. t = Some v \<longrightarrow> plain_ty v)
    \<Longrightarrow> map (go_entry uni) es = map (go_entry uni) gs"
proof (induction es arbitrary: gs)
  case (Cons e es)
  obtain n t where e: "e = (n, t)" by (cases e)
  have colon: "CHR '':'' = mark False" by (simp add: mark_def)
  show ?case
  proof (cases gs)
    case (Cons g gs')
    obtain m u where g: "g = (m, u)" by (cases g)
    have "n @ mark False # sig_opt t @ '';'' @ sig_entries es = m @ mark False # sig_opt u @ '';'' @ sig_entries gs'"
      using Cons.prems(1) by (simp add: e g Cons mark_def)
    from name_ends(1) [OF this] Cons.prems(2,3) have nm: "n = m"
      and rest: "sig_opt t @ '';'' @ sig_entries es = sig_opt u @ '';'' @ sig_entries gs'" by (auto simp: e g Cons)
    have o: "go_opt uni t = go_opt uni u \<and> '';'' @ sig_entries es = '';'' @ sig_entries gs'"
      by (rule settles_opt [OF _ _ _ rest]) (use settles_all Cons.prems(2,3) in \<open>auto simp: e g Cons\<close>)
    then have "sig_entries es = sig_entries gs'" by (simp only: same_append_eq)
    from Cons.IH [OF this] Cons.prems(2,3) have "map (go_entry uni) es = map (go_entry uni) gs'" by (simp add: Cons)
    with o nm show ?thesis by (simp only: e g Cons list.map prod.case)
  qed (use Cons.prems in \<open>simp add: e\<close>)
next
  case Nil
  then show ?case by (cases gs) auto
qed

definition entries_of :: "ty dict \<Rightarrow> (string \<times> ty option) list" where
  "entries_of schema = map (\<lambda>n. (n, dget schema n)) (sort_key (\<lambda>k. k) (dkeys schema))"

lemma via_entries:
  "schemaSignature schema = sig_entries (entries_of schema)"
  "typed_env uni schema = Option.bind (all_some (map (go_entry uni) (entries_of schema))) (structOf uni)"
  by (simp_all add: schemaSignature_def typed_env_def entries_of_def comp_def)

lemma plain_entries:
  assumes "plain_schema schema"
  shows "\<forall>(n, t) \<in> set (entries_of schema). plain_name n \<and> (\<forall>v. t = Some v \<longrightarrow> plain_ty v)"
proof -
  have "plain_name n \<and> (\<forall>v. dget schema n = Some v \<longrightarrow> plain_ty v)" if "n \<in> set (dkeys schema)" for n
    using that assms by (auto simp: plain_schema_def dest!: map_of_SomeD)
  then show ?thesis by (auto simp: entries_of_def)
qed

lemma signature_settles:
  assumes "schemaSignature a = schemaSignature b" and "plain_schema a" and "plain_schema b"
  shows "typed_env uni a = typed_env uni b"
  using settles_entries [OF assms(1) [unfolded via_entries] plain_entries [OF assms(2)] plain_entries [OF assms(3)], of uni]
  by (simp only: via_entries)

subsection \<open>The engine without caches\<close>

text \<open>What a call answers when nothing is cached: the functions that stand for the engine elsewhere.\<close>

datatype call =
    CallValidate string | CallValidateValue string | CallEvaluate string env | CallEvaluateAny string env
  | CallTypeCheck string "ty dict"

datatype 'e answer =
    AErrors "'e expr_error option" | ABool "'e expr_error + bool" | AValue "'e expr_error + val" | APanic

fun engine_call :: "('p, 'e) expr_lib \<Rightarrow> call \<Rightarrow> ('p, 'e) expr_cache \<Rightarrow> 'e answer \<times> ('p, 'e) expr_cache" where
  "engine_call x (CallValidate e) c = apfst AErrors (ValidateExpr x e c)"
| "engine_call x (CallValidateValue e) c = apfst AErrors (ValidateValue x e c)"
| "engine_call x (CallEvaluate e env) c = apfst ABool (Evaluate x e env c)"
| "engine_call x (CallEvaluateAny e env) c = apfst AValue (EvaluateAny x e env c)"
| "engine_call x (CallTypeCheck e schema) c =
     (case TypeCheck x e schema c of None \<Rightarrow> (APanic, c) | Some (r, c1) \<Rightarrow> (AErrors r, c1))"

fun engine_calls :: "('p, 'e) expr_lib \<Rightarrow> call list \<Rightarrow> ('p, 'e) expr_cache \<Rightarrow> 'e answer list \<times> ('p, 'e) expr_cache" where
  "engine_calls x [] c = ([], c)"
| "engine_calls x (k # ks) c =
     (let (r, c1) = engine_call x k c; (rs, c2) = engine_calls x ks c1 in (r # rs, c2))"

definition no_cache :: "('p, 'e) expr_cache" where
  "no_cache = \<lparr>xc_programs = [], xc_envs = []\<rparr>"

definition fresh_answer :: "('p, 'e) expr_lib \<Rightarrow> call \<Rightarrow> 'e answer" where
  "fresh_answer x k = fst (engine_call x k no_cache)"

fun plain_call :: "call \<Rightarrow> bool" where
  "plain_call (CallValidateValue e) \<longleftrightarrow> take (length bool_mark) e \<noteq> bool_mark"
| "plain_call (CallEvaluateAny e env) \<longleftrightarrow> take (length bool_mark) e \<noteq> bool_mark"
| "plain_call (CallTypeCheck e schema) \<longleftrightarrow> plain_schema schema"
| "plain_call _ \<longleftrightarrow> True"

definition cache_ok :: "('p, 'e) expr_lib \<Rightarrow> ('p, 'e) expr_cache \<Rightarrow> bool" where
  "cache_ok x c \<longleftrightarrow>
     (\<forall>e r. dget (xc_programs c) (bool_mark @ e) = Some r \<longrightarrow> r = xl_compile x True e) \<and>
     (\<forall>e r. dget (xc_programs c) e = Some r \<longrightarrow> take (length bool_mark) e \<noteq> bool_mark \<longrightarrow> r = xl_compile x False e) \<and>
     (\<forall>sig g. dget (xc_envs c) sig = Some g \<longrightarrow>
        (\<exists>schema. plain_schema schema \<and> schemaSignature schema = sig \<and> typed_env (xl_uni x) schema = Some g))"

lemma no_cache_ok: "cache_ok x no_cache"
  by (simp add: cache_ok_def no_cache_def)

lemma compile_cached:
  assumes "cache_ok x c" and "b \<or> take (length bool_mark) e \<noteq> bool_mark"
  shows "fst (compileExpr x e b c) = xl_compile x b e" and "cache_ok x (snd (compileExpr x e b c))"
  using assms by (auto simp: compileExpr_def cache_ok_def cacheKey_def Let_def split: option.split)

lemma build_cached:
  assumes "cache_ok x c" and "plain_schema schema"
  shows "map_option fst (buildTypedEnv x schema c) = typed_env (xl_uni x) schema"
    and "buildTypedEnv x schema c = Some (g, c1) \<Longrightarrow> cache_ok x c1"
proof -
  show "map_option fst (buildTypedEnv x schema c) = typed_env (xl_uni x) schema"
  proof (cases "dget (xc_envs c) (schemaSignature schema)")
    case (Some g)
    with assms(1) obtain s' where "plain_schema s'" "schemaSignature s' = schemaSignature schema"
      "typed_env (xl_uni x) s' = Some g" unfolding cache_ok_def by metis
    then have "typed_env (xl_uni x) schema = Some g"
      using signature_settles [of s' schema "xl_uni x"] assms(2) by simp
    with Some show ?thesis by (simp add: buildTypedEnv_def)
  qed (simp add: buildTypedEnv_def option.map_comp comp_def option.map_ident)
  show "cache_ok x c1" if "buildTypedEnv x schema c = Some (g, c1)"
    using that assms by (auto simp: buildTypedEnv_def cache_ok_def Let_def split: option.splits if_splits)
qed

lemma engine_call_cached:
  assumes "cache_ok x c" and "plain_call k"
  shows "fst (engine_call x k c) = fresh_answer x k" and "cache_ok x (snd (engine_call x k c))"
proof -
  have v: "fst (compileExpr x e b c) = fst (compileExpr x e b no_cache) \<and> cache_ok x (snd (compileExpr x e b c))"
    if "b \<or> take (length bool_mark) e \<noteq> bool_mark" for b e
    using compile_cached [OF assms(1) that] compile_cached(1) [OF no_cache_ok [of x] that] by simp
  have t: "map_option fst (TypeCheck x e schema c) = map_option fst (TypeCheck x e schema no_cache)
      \<and> (\<forall>r c1. TypeCheck x e schema c = Some (r, c1) \<longrightarrow> cache_ok x c1)" if "plain_schema schema" for e schema
  proof (cases "schema = []")
    case False
    have "map_option fst (buildTypedEnv x schema c) = map_option fst (buildTypedEnv x schema no_cache)"
      using build_cached(1) [OF assms(1) that] build_cached(1) [OF no_cache_ok [of x] that] by simp
    with build_cached(2) [OF assms(1) that] False show ?thesis
      by (cases "buildTypedEnv x schema c"; cases "buildTypedEnv x schema no_cache") (auto simp: TypeCheck_def)
  qed (use v [of True e] in \<open>cases "compileExpr x e True c"; auto simp: TypeCheck_def ValidateExpr_def\<close>)
  have "fst (engine_call x k c) = fresh_answer x k \<and> cache_ok x (snd (engine_call x k c))"
  proof (cases k)
    case (CallTypeCheck e schema)
    with t [of schema e] assms(2) show ?thesis
      by (cases "TypeCheck x e schema c"; cases "TypeCheck x e schema no_cache")
        (auto simp: fresh_answer_def assms(1))
  qed (use v assms(2) in \<open>auto simp: fresh_answer_def ValidateExpr_def ValidateValue_def Evaluate_def EvaluateAny_def\<close>)
  then show "fst (engine_call x k c) = fresh_answer x k" and "cache_ok x (snd (engine_call x k c))" by blast+
qed

lemma engine_calls_cached:
  "cache_ok x c \<Longrightarrow> \<forall>k \<in> set ks. plain_call k \<Longrightarrow> fst (engine_calls x ks c) = map (fresh_answer x) ks"
proof (induction ks arbitrary: c)
  case (Cons k ks)
  obtain r c1 where k: "engine_call x k c = (r, c1)" by fastforce
  with engine_call_cached [of x c k] Cons.prems have "r = fresh_answer x k" "cache_ok x c1" by auto
  with Cons.IH [of c1] Cons.prems k show ?case by (simp add: Let_def split_beta)
qed simp

lemma fresh_answers:
  "fresh_answer x (CallValidate e) = AErrors (case xl_compile x True e of Inl er \<Rightarrow> Some (XCondition e er) | Inr p \<Rightarrow> None)"
  "fresh_answer x (CallValidateValue e) = AErrors (case xl_compile x False e of Inl er \<Rightarrow> Some (XValue e er) | Inr p \<Rightarrow> None)"
  "fresh_answer x (CallEvaluate e env) = ABool (case xl_compile x True e of Inl er \<Rightarrow> Inl (XCompile er) | Inr p \<Rightarrow> as_bool (runExpr x p env))"
  "fresh_answer x (CallEvaluateAny e env) = AValue (case xl_compile x False e of Inl er \<Rightarrow> Inl (XCompile er) | Inr p \<Rightarrow> runExpr x p env)"
  "schema \<noteq> [] \<Longrightarrow> fresh_answer x (CallTypeCheck e schema) =
     (case typed_env (xl_uni x) schema of None \<Rightarrow> APanic | Some g \<Rightarrow> AErrors (map_option XTyped (xl_check x g e)))"
  by (simp_all add: fresh_answer_def ValidateExpr_def ValidateValue_def Evaluate_def EvaluateAny_def TypeCheck_def
      buildTypedEnv_def compileExpr_def no_cache_def Let_def split: option.split)

subsection \<open>Schemas that go wrong\<close>

text \<open>Two object types whose signatures read the same, though one has a field more.\<close>

definition two_levels :: ty where
  "two_levels = ObjectType [(''a'', Some (EnumType [''v'']), False), (''b'', Some (EnumType [''u'']), False)]"

definition one_level :: ty where
  "one_level = ObjectType [(''a'', Some (EnumType [''v,],b:enum[u'']), False)]"

lemma levels_alike: "schemaSignature [(''order'', two_levels)] = schemaSignature [(''order'', one_level)]"
  by code_simp

lemma levels_differ:
  "typed_env uni [(''order'', two_levels)] = Some (GStruct [(''order'', GStruct [(''a'', GString), (''b'', GString)])])"
  "typed_env uni [(''order'', one_level)] = Some (GStruct [(''order'', GStruct [(''a'', GString)])])"
proof -
  have ok: "fieldName_ok uni ''A''" "fieldName_ok uni ''B''" "fieldName_ok uni ''Order''" for uni
    by (simp_all add: fieldName_ok_def) code_simp+
  have ex: "exportedName ''a'' = ''A''" "exportedName ''b'' = ''B''" "exportedName ''order'' = ''Order''" by code_simp+
  show "typed_env uni [(''order'', two_levels)] = Some (GStruct [(''order'', GStruct [(''a'', GString), (''b'', GString)])])"
    "typed_env uni [(''order'', one_level)] = Some (GStruct [(''order'', GStruct [(''a'', GString)])])"
    by (simp_all add: typed_env_def two_levels_def one_level_def ObjectType_def EnumType_def all_some_def structOf_def ok ex)
qed

text \<open>Names that \<open>StructOf\<close> does not take: a leading underscore, a hyphen, two that differ in the case
  of the first letter only.\<close>

lemma names_panic:
  "typed_env uni [(''_tmp'', simple_ty TypeNumber)] = None"
  "typed_env uni [(''order-id'', simple_ty TypeNumber)] = None"
  "typed_env uni [(''amount'', simple_ty TypeNumber), (''Amount'', simple_ty TypeNumber)] = None"
proof -
  have bad: "\<not> upper_letter (CHR ''_'')" "\<not> upper_letter (CHR ''-'')" "\<not> lower_letter (CHR ''-'')" "\<not> digit_char (CHR ''-'')"
    "list_all ascii ''rder-id''" by code_simp+
  have ex: "exportedName ''_tmp'' = ''_tmp''" "exportedName ''order-id'' = ''Order-id''" "exportedName ''amount'' = ''Amount''"
    "exportedName ''Amount'' = ''Amount''" by code_simp+
  have no: "\<not> fieldName_ok uni ''_tmp''" "\<not> fieldName_ok uni ''Order-id''" for uni
    using bad by (simp_all add: fieldName_ok_def)
  have srt: "sort_key (\<lambda>k. k) [''amount'', ''Amount''] = [''Amount'', ''amount'']" by code_simp
  show "typed_env uni [(''_tmp'', simple_ty TypeNumber)] = None" "typed_env uni [(''order-id'', simple_ty TypeNumber)] = None"
    "typed_env uni [(''amount'', simple_ty TypeNumber), (''Amount'', simple_ty TypeNumber)] = None"
    using srt by (simp_all add: typed_env_def simple_ty_def all_some_def structOf_def no ex)
qed

subsection \<open>Properties\<close>

text \<open>C16: the caches are invisible. Whatever was evaluated, validated and type-checked before, a call
  of the engine answers as if nothing were cached, so the engine is a function of the expression and
  its argument, as long as no value expression carries the mark of the boolean ones and no name or
  enumerated value of a schema contains a delimiter of the signature.\<close>

theorem engine_pure:
  assumes "\<forall>k \<in> set ks. plain_call k"
  shows "fst (engine_calls x ks no_cache) = map (fresh_answer x) ks"
  by (rule engine_calls_cached [OF no_cache_ok assms])

definition sample_lib :: "(string, unit) expr_lib" where
  "sample_lib = \<lparr>xl_compile = (\<lambda>b e. if take 1 e = [CHR 0x00] then Inl () else Inr e),
     xl_check = (\<lambda>g e. if e = ''order.b'' \<and> g = GStruct [(''order'', GStruct [(''a'', GString)])] then Some () else None),
     xl_run = (\<lambda>p env. Some (Inr (VBool True))), xl_uni = (\<lambda>s. True)\<rparr>"

theorem engine_pure_witness:
  "fst (engine_calls sample_lib [CallEvaluate ''a > 1'' [], CallEvaluateAny ''a > 1'' [], CallTypeCheck ''order.b'' [(''order'', two_levels)]] no_cache)
    = map (fresh_answer sample_lib) [CallEvaluate ''a > 1'' [], CallEvaluateAny ''a > 1'' [], CallTypeCheck ''order.b'' [(''order'', two_levels)]]"
proof (rule engine_pure)
  have "plain_call (CallEvaluateAny ''a > 1'' [])" "plain_call (CallTypeCheck ''order.b'' [(''order'', two_levels)])"
    by (simp_all add: bool_mark_def plain_schema_def two_levels_def ObjectType_def EnumType_def plain_name_def)
  then show "\<forall>k \<in> set [CallEvaluate ''a > 1'' [], CallEvaluateAny ''a > 1'' [], CallTypeCheck ''order.b'' [(''order'', two_levels)]]. plain_call k"
    by simp
qed

text \<open>C27: what the caches let one definition do to another. A value expression that is a condition
  with the mark in front does not compile, and its error is then the answer for that condition, in
  every definition of the process; and after the type check against one schema, a schema with the
  same signature is checked against the wrong environment, in which a declared field is missing.\<close>

theorem caches_leak:
  assumes "xl_compile x False (bool_mark @ e) = Inl er" and "xl_compile x True e = Inr p"
    and "xl_run x p env = Some (Inr (VBool b))"
    and "xl_check x (GStruct [(''order'', GStruct [(''a'', GString)])]) ''order.b'' = Some ef"
    and "xl_check x (GStruct [(''order'', GStruct [(''a'', GString), (''b'', GString)])]) ''order.b'' = None"
  shows "fst (engine_calls x [CallValidateValue (bool_mark @ e), CallEvaluate e env] no_cache)
      = [AErrors (Some (XValue (bool_mark @ e) er)), ABool (Inl (XCompile er))] \<and>
    fresh_answer x (CallEvaluate e env) = ABool (Inr b) \<and>
    fst (engine_calls x [CallTypeCheck ''ok'' [(''order'', one_level)], CallTypeCheck ''order.b'' [(''order'', two_levels)]] no_cache)
      = [fresh_answer x (CallTypeCheck ''ok'' [(''order'', one_level)]), AErrors (Some (XTyped ef))] \<and>
    fresh_answer x (CallTypeCheck ''order.b'' [(''order'', two_levels)]) = AErrors None"
proof (intro conjI)
  show "fst (engine_calls x [CallValidateValue (bool_mark @ e), CallEvaluate e env] no_cache)
      = [AErrors (Some (XValue (bool_mark @ e) er)), ABool (Inl (XCompile er))]"
    using assms(1) by (simp add: ValidateValue_def Evaluate_def compileExpr_def cacheKey_def no_cache_def Let_def)
  show "fresh_answer x (CallEvaluate e env) = ABool (Inr b)"
    using assms(2,3) by (simp add: fresh_answers runExpr_def as_bool_def)
  show "fst (engine_calls x [CallTypeCheck ''ok'' [(''order'', one_level)], CallTypeCheck ''order.b'' [(''order'', two_levels)]] no_cache)
      = [fresh_answer x (CallTypeCheck ''ok'' [(''order'', one_level)]), AErrors (Some (XTyped ef))]"
    using assms(4) by (simp add: fresh_answers TypeCheck_def buildTypedEnv_def no_cache_def levels_alike levels_differ Let_def)
  show "fresh_answer x (CallTypeCheck ''order.b'' [(''order'', two_levels)]) = AErrors None"
    using assms(5) by (simp add: fresh_answers levels_differ)
qed

theorem caches_leak_witness:
  "fst (engine_calls sample_lib [CallValidateValue (bool_mark @ ''yes''), CallEvaluate ''yes'' []] no_cache)
      = [AErrors (Some (XValue (bool_mark @ ''yes'') ())), ABool (Inl (XCompile ()))]"
  using caches_leak [of sample_lib "''yes''" "()" "''yes''" "[]" True "()"] by (simp add: sample_lib_def bool_mark_def)

end
