(* ===== verification/Postgres.thy ===== *)
theory Postgres
  imports Savepoint Store
begin

text \<open>
  The PostgreSQL store (\<open>src/store-postgres/postgres.go\<close>). The three tables are the state; each
  statement of the code is a function on them with the meaning that SQL gives it, a statement may
  fail as a whole (\<open>pg_fault\<close>, at the count of statements so far) and then changes nothing. A row of
  the journal holds what \<open>json.Unmarshal\<close> makes of the JSON that was written, so an \<open>int\<close> of a
  value of interface type is a \<open>float64\<close> there, as in \<open>Savepoint\<close>. \<open>pg_now\<close> is \<open>now()\<close> of the server,
  \<open>pg_ts\<close> the precision that a column of type \<open>TIMESTAMPTZ\<close> keeps of a time, \<open>pg_scan\<close> the order in
  which the rows of a table are visited before they are sorted, \<open>pg_coll\<close> the sort key of the
  collation of the database. A snapshot's \<open>payload\<close> is its JSON value, of which a \<open>JSONB\<close> column
  keeps the value and not the text.
\<close>

record pg_env =
  pg_fault :: "nat \<Rightarrow> err option"
  pg_now :: "nat \<Rightarrow> int"
  pg_ts :: "int \<Rightarrow> int"
  pg_scan :: "nat \<Rightarrow> string list \<Rightarrow> string list"
  pg_coll :: "string \<Rightarrow> string"
  pg_rnd :: "int \<Rightarrow> rat"
  pg_other :: "string \<Rightarrow> err + val"

record journal_row =
  jr_instance :: string
  jr_seq :: int
  jr_payload :: occurrence

record 'd pg_db =
  db_journal :: "journal_row list"
  db_instances :: "instance_record dict"
  db_snaps :: "'d snapshot dict"
  db_tick :: nat

datatype pg_error =
    PgMarshal err | PgFault err | PgNegativeLimit | PgPrincipalRequired | PgStore store_error

definition fresh_db :: "'d pg_db" where
  "fresh_db = \<lparr>db_journal = [], db_instances = [], db_snaps = [], db_tick = 0\<rparr>"

text \<open>\<open>CREATE TABLE IF NOT EXISTS\<close>: tables that are there stay as they are.\<close>

definition Migrate :: "err option \<Rightarrow> 'd pg_db option \<Rightarrow> 'd pg_db option \<times> err option" where
  "Migrate fault tables =
     (case fault of Some e \<Rightarrow> (tables, Some e)
      | None \<Rightarrow> (Some (case tables of None \<Rightarrow> fresh_db | Some db \<Rightarrow> db), None))"

lemma Migrate_again:
  "Migrate None (fst (Migrate fault tables)) = (Some (case tables of None \<Rightarrow> fresh_db | Some db \<Rightarrow> db), None)"
  by (simp add: Migrate_def split: option.split)

text \<open>One statement.\<close>

definition statement :: "pg_env \<Rightarrow> ('d pg_db \<Rightarrow> 'd pg_db \<times> (pg_error + 'r)) \<Rightarrow> 'd pg_db \<Rightarrow> 'd pg_db \<times> (pg_error + 'r)" where
  "statement x f db =
     (let db1 = db\<lparr>db_tick := Suc (db_tick db)\<rparr>
      in case pg_fault x (db_tick db) of Some e \<Rightarrow> (db1, Inl (PgFault e)) | None \<Rightarrow> f db1)"

subsection \<open>The journal\<close>

definition json_occ :: "pg_env \<Rightarrow> occurrence \<Rightarrow> err + occurrence" where
  "json_occ x occ =
     (case jsonVal (pg_rnd x) (pg_other x) (o_varvalue occ) of Inl e \<Rightarrow> Inl e
      | Inr v \<Rightarrow>
     (case json_event (pg_rnd x) (pg_other x) (o_event occ) of Inl e \<Rightarrow> Inl e
      | Inr ev \<Rightarrow>
     (case jsonEnv (pg_rnd x) (pg_other x) (o_outcome occ) of Inl e \<Rightarrow> Inl e
      | Inr out \<Rightarrow> Inr (occ\<lparr>o_varvalue := v, o_event := ev, o_outcome := out\<rparr>))))"

definition rows_of :: "string \<Rightarrow> 'd pg_db \<Rightarrow> journal_row list" where
  "rows_of iid db = filter (\<lambda>r. jr_instance r = iid) (db_journal db)"

text \<open>\<open>COALESCE(MAX(seq), 0)\<close>.\<close>

definition max_seq :: "journal_row list \<Rightarrow> int" where
  "max_seq rs = (case map jr_seq rs of [] \<Rightarrow> 0 | s # ss \<Rightarrow> foldl max s ss)"

text \<open>\<open>occ.Seq\<close> is written back: the new number is the result.\<close>

definition pgAppend :: "pg_env \<Rightarrow> occurrence \<Rightarrow> 'd pg_db \<Rightarrow> 'd pg_db \<times> (pg_error + int)" where
  "pgAppend x occ db =
     (case json_occ x occ of
        Inl e \<Rightarrow> (db, Inl (PgMarshal e))
      | Inr payload \<Rightarrow>
          statement x (\<lambda>db. let n = max_seq (rows_of (o_instance occ) db) + 1
            in (db\<lparr>db_journal := db_journal db @
                  [\<lparr>jr_instance = o_instance occ, jr_seq = n, jr_payload = payload\<lparr>o_seq := n\<rparr>\<rparr>]\<rparr>, Inr n)) db)"

text \<open>The number of the row is the authority, whatever number the payload carries.\<close>

definition scanOccurrences :: "journal_row list \<Rightarrow> occurrence list" where
  "scanOccurrences = map (\<lambda>r. (jr_payload r)\<lparr>o_seq := jr_seq r\<rparr>)"

definition pgLoadOccurrences :: "pg_env \<Rightarrow> string \<Rightarrow> 'd pg_db \<Rightarrow> 'd pg_db \<times> (pg_error + occurrence list)" where
  "pgLoadOccurrences x iid =
     statement x (\<lambda>db. (db, Inr (scanOccurrences (sort_key jr_seq (rows_of iid db)))))"

definition pgMaxSeq :: "pg_env \<Rightarrow> string \<Rightarrow> 'd pg_db \<Rightarrow> 'd pg_db \<times> (pg_error + int)" where
  "pgMaxSeq x iid = statement x (\<lambda>db. (db, Inr (max_seq (rows_of iid db))))"

definition by_principal :: "principal \<Rightarrow> journal_row \<Rightarrow> bool" where
  "by_principal p r \<longleftrightarrow> (case o_actor (jr_payload r) of None \<Rightarrow> False | Some a \<Rightarrow> p_kind a = p_kind p \<and> p_id a = p_id p)"

definition ListDecisionsByPrincipal ::
  "pg_env \<Rightarrow> principal \<Rightarrow> string \<Rightarrow> int \<Rightarrow> 'd pg_db \<Rightarrow> 'd pg_db \<times> (pg_error + occurrence list)" where
  "ListDecisionsByPrincipal x p iid limit db =
     (if p_kind p = '''' \<or> p_id p = '''' then (db, Inl PgPrincipalRequired)
      else
        let n = (if limit \<le> 0 then 100 else nat limit)
        in statement x (\<lambda>db. (db, Inr (scanOccurrences (take n
             (if iid \<noteq> '''' then sort_key jr_seq (filter (by_principal p) (rows_of iid db))
              else sort_key (\<lambda>r. pg_coll x (jr_instance r)) (sort_key jr_seq (filter (by_principal p) (db_journal db)))))))) db)"

subsection \<open>The summaries\<close>

text \<open>What a row keeps of a record: \<open>updated_at\<close> is the time of the server.\<close>

definition kept :: "pg_env \<Rightarrow> nat \<Rightarrow> instance_record \<Rightarrow> instance_record" where
  "kept x k rec = rec\<lparr>i_wake := map_option (pg_ts x) (i_wake rec), i_created := pg_ts x (i_created rec), i_updated := pg_now x k\<rparr>"

text \<open>An update leaves \<open>created_at\<close> as it is.\<close>

definition pgPutInstance :: "pg_env \<Rightarrow> instance_record \<Rightarrow> 'd pg_db \<Rightarrow> 'd pg_db \<times> (pg_error + unit)" where
  "pgPutInstance x rec = statement x (\<lambda>db.
     let row = kept x (db_tick db) rec;
         row1 = (case dget (db_instances db) (i_id rec) of None \<Rightarrow> row | Some old \<Rightarrow> row\<lparr>i_created := i_created old\<rparr>)
     in (db\<lparr>db_instances := dput (i_id rec) row1 (db_instances db)\<rparr>, Inr ()))"

definition pgCreateInstance :: "pg_env \<Rightarrow> instance_record \<Rightarrow> 'd pg_db \<Rightarrow> 'd pg_db \<times> (pg_error + unit)" where
  "pgCreateInstance x rec = statement x (\<lambda>db.
     if dget (db_instances db) (i_id rec) \<noteq> None then (db, Inl (PgStore ErrInstanceExists))
     else (db\<lparr>db_instances := dput (i_id rec) (kept x (db_tick db) rec) (db_instances db)\<rparr>, Inr ()))"

definition pgGetInstance :: "pg_env \<Rightarrow> string \<Rightarrow> 'd pg_db \<Rightarrow> 'd pg_db \<times> (pg_error + instance_record)" where
  "pgGetInstance x iid = statement x (\<lambda>db.
     (db, case dget (db_instances db) iid of None \<Rightarrow> Inl (PgStore ErrInstanceNotFound) | Some r \<Rightarrow> Inr r))"

definition pgPutSnapshot :: "pg_env \<Rightarrow> 'd snapshot \<Rightarrow> 'd pg_db \<Rightarrow> 'd pg_db \<times> (pg_error + unit)" where
  "pgPutSnapshot x sn = statement x (\<lambda>db.
     (db\<lparr>db_snaps := dput (sn_id sn) (sn\<lparr>sn_created := pg_now x (db_tick db)\<rparr>) (db_snaps db)\<rparr>, Inr ()))"

definition pgLatestSnapshot :: "pg_env \<Rightarrow> string \<Rightarrow> 'd pg_db \<Rightarrow> 'd pg_db \<times> (pg_error + 'd snapshot)" where
  "pgLatestSnapshot x iid = statement x (\<lambda>db.
     (db, case dget (db_snaps db) iid of None \<Rightarrow> Inl (PgStore ErrSnapshotNotFound) | Some sn \<Rightarrow> Inr sn))"

definition table_rows :: "pg_env \<Rightarrow> (instance_record \<Rightarrow> bool) \<Rightarrow> 'd pg_db \<Rightarrow> instance_record list" where
  "table_rows x pred db =
     filter pred (concat (map (\<lambda>k. case dget (db_instances db) k of None \<Rightarrow> [] | Some r \<Rightarrow> [r])
       (pg_scan x (db_tick db) (dkeys (db_instances db)))))"

definition limited :: "int \<Rightarrow> 'r list \<Rightarrow> pg_error + 'r list" where
  "limited limit rs = (if limit < 0 then Inl PgNegativeLimit else Inr (take (nat limit) rs))"

definition pgListWakeable :: "pg_env \<Rightarrow> int \<Rightarrow> int \<Rightarrow> 'd pg_db \<Rightarrow> 'd pg_db \<times> (pg_error + instance_record list)" where
  "pgListWakeable x t limit = statement x (\<lambda>db.
     (db, limited limit (sort_key (\<lambda>r. case i_wake r of None \<Rightarrow> 0 | Some u \<Rightarrow> u) (table_rows x (wakeable (pg_ts x t)) db))))"

definition pgListByStatus :: "pg_env \<Rightarrow> string \<Rightarrow> int \<Rightarrow> 'd pg_db \<Rightarrow> 'd pg_db \<times> (pg_error + instance_record list)" where
  "pgListByStatus x status limit = statement x (\<lambda>db.
     (db, limited limit (sort_key i_created (table_rows x (\<lambda>r. i_status r = status) db))))"

subsection \<open>The journal is a numbered list\<close>

lemma tables_tick [simp]:
  "db_journal (db\<lparr>db_tick := k\<rparr>) = db_journal db" "rows_of i (db\<lparr>db_tick := k\<rparr>) = rows_of i db"
  by (simp_all add: rows_of_def)

text \<open>Every instance's rows are numbered from one, in the order of the table.\<close>

definition gapless :: "'d pg_db \<Rightarrow> bool" where
  "gapless db \<longleftrightarrow> (\<forall>i. map jr_seq (rows_of i db) = map int [1..<Suc (length (rows_of i db))])"

definition facts_of :: "string \<Rightarrow> 'd pg_db \<Rightarrow> occurrence list" where
  "facts_of i db = scanOccurrences (rows_of i db)"

lemma foldl_max_upto: "foldl max (a :: int) (map int [m..<n]) = (if m < n then max a (int n - 1) else a)"
  by (induction n) (auto simp: max_def)

lemma max_seq_gapless:
  assumes "map jr_seq rs = map int [1..<Suc (length rs)]"
  shows "max_seq rs = int (length rs)"
proof (cases rs)
  case (Cons r rs')
  have "[1..<Suc (length rs)] = 1 # [2..<Suc (length rs)]" by (simp add: upt_conv_Cons numeral_2_eq_2 Cons del: upt_Suc)
  then show ?thesis unfolding max_seq_def assms by (simp add: foldl_max_upto Cons del: upt_Suc)
qed (simp add: max_seq_def)

lemma gapless_sorted:
  assumes "gapless db"
  shows "sort_key jr_seq (rows_of i db) = rows_of i db"
proof (rule sort_key_id_if_sorted)
  have "sorted (map int [a..<b])" for a b by (simp add: sorted_iff_nth_mono del: upt_Suc)
  with assms show "sorted (map jr_seq (rows_of i db))" by (simp add: gapless_def del: upt_Suc)
qed

lemma rows_of_snoc:
  "rows_of i (db\<lparr>db_journal := db_journal db @ [r]\<rparr>) = rows_of i db @ (if jr_instance r = i then [r] else [])"
  by (simp add: rows_of_def)

text \<open>The effect of an append: nothing, or one more fact with the next number.\<close>

lemma append_effect:
  assumes "gapless db" and "pgAppend x occ db = (db', r)"
  shows "gapless db' \<and> (case r of
      Inl e \<Rightarrow> \<forall>i. facts_of i db' = facts_of i db
    | Inr n \<Rightarrow> n = int (Suc (length (facts_of (o_instance occ) db))) \<and> (\<exists>p. json_occ x occ = Inr p \<and>
        (\<forall>i. facts_of i db' = facts_of i db @ (if i = o_instance occ then [p\<lparr>o_seq := n\<rparr>] else []))))"
proof (cases "\<exists>p. json_occ x occ = Inr p \<and> pg_fault x (db_tick db) = None")
  case True
  then obtain p where p: "json_occ x occ = Inr p" and ok: "pg_fault x (db_tick db) = None" by blast
  let ?n = "int (Suc (length (rows_of (o_instance occ) db)))"
  let ?row = "\<lparr>jr_instance = o_instance occ, jr_seq = ?n, jr_payload = p\<lparr>o_seq := ?n\<rparr>\<rparr>"
  have m: "max_seq (rows_of (o_instance occ) db) + 1 = ?n"
    using max_seq_gapless assms(1) by (simp add: gapless_def)
  have db': "db' = (db\<lparr>db_tick := Suc (db_tick db)\<rparr>)\<lparr>db_journal := db_journal db @ [?row]\<rparr>" "r = Inr ?n"
    using assms(2) m by (simp_all add: pgAppend_def p statement_def ok Let_def)
  have rows: "rows_of i db' = rows_of i db @ (if i = o_instance occ then [?row] else [])" for i
    unfolding db' by (auto simp: rows_of_def)
  from assms(1) have "gapless db'" by (simp add: gapless_def rows)
  then show ?thesis by (simp add: db'(2) facts_of_def scanOccurrences_def rows p)
next
  case False
  then have "db' = db \<and> isl r \<or> db' = db\<lparr>db_tick := Suc (db_tick db)\<rparr> \<and> isl r"
    using assms(2) by (auto simp: pgAppend_def statement_def Let_def split: sum.splits option.splits)
  with assms(1) show ?thesis by (cases r) (auto simp: gapless_def facts_of_def simp del: upt_Suc)
qed

text \<open>A run of appends, and the facts among them that were accepted.\<close>

fun pgAppends :: "pg_env \<Rightarrow> occurrence list \<Rightarrow> 'd pg_db \<Rightarrow> 'd pg_db \<times> (pg_error + int) list" where
  "pgAppends x [] db = (db, [])"
| "pgAppends x (occ # occs) db = (let (db1, r) = pgAppend x occ db; (db2, rs) = pgAppends x occs db1 in (db2, r # rs))"

definition accepted :: "string \<Rightarrow> occurrence list \<Rightarrow> (pg_error + int) list \<Rightarrow> occurrence list" where
  "accepted i occs rs = map fst (filter (\<lambda>(occ, r). o_instance occ = i \<and> \<not> isl r) (zip occs rs))"

definition numbered :: "nat \<Rightarrow> occurrence list \<Rightarrow> occurrence list" where
  "numbered k ps = map (\<lambda>(n, p). p\<lparr>o_seq := int n\<rparr>) (enumerate k ps)"

lemma numbered_Cons: "numbered k (p # ps) = p\<lparr>o_seq := int k\<rparr> # numbered (Suc k) ps"
  by (simp add: numbered_def)

lemma length_numbered [simp]: "length (numbered k ps) = length ps"
  by (simp add: numbered_def)

lemma appends_facts:
  "pgAppends x occs db = (db', rs) \<Longrightarrow> gapless db \<Longrightarrow> gapless db' \<and>
    (\<exists>ps. list_all2 (\<lambda>occ p. json_occ x occ = Inr p) (accepted i occs rs) ps \<and>
       facts_of i db' = facts_of i db @ numbered (Suc (length (facts_of i db))) ps)"
proof (induction occs arbitrary: db rs)
  case (Cons occ occs)
  obtain db1 r where a: "pgAppend x occ db = (db1, r)" by fastforce
  obtain rs' where l: "pgAppends x occs db1 = (db', rs')" and rs: "rs = r # rs'"
    using Cons.prems(1) a by (auto simp: Let_def split: prod.splits)
  from append_effect [OF Cons.prems(2) a] have g: "gapless db1" by blast
  from Cons.IH [OF l g] obtain ps where g': "gapless db'"
    and ps: "list_all2 (\<lambda>occ p. json_occ x occ = Inr p) (accepted i occs rs') ps"
    and f: "facts_of i db' = facts_of i db1 @ numbered (Suc (length (facts_of i db1))) ps" by blast
  show ?case
  proof (cases "\<exists>n. r = Inr n \<and> o_instance occ = i")
    case True
    then obtain n where n: "r = Inr n" and i: "o_instance occ = i" by blast
    from append_effect [OF Cons.prems(2) a] obtain p where "json_occ x occ = Inr p"
      "facts_of i db1 = facts_of i db @ [p\<lparr>o_seq := n\<rparr>]" "n = int (Suc (length (facts_of i db)))"
      by (auto simp: n i)
    with ps f g' have "list_all2 (\<lambda>occ p. json_occ x occ = Inr p) (accepted i (occ # occs) rs) (p # ps) \<and>
        facts_of i db' = facts_of i db @ numbered (Suc (length (facts_of i db))) (p # ps)"
      by (simp add: accepted_def rs n i numbered_Cons)
    with g' show ?thesis by blast
  next
    case False
    from append_effect [OF Cons.prems(2) a] False have "facts_of i db1 = facts_of i db"
      by (cases r) auto
    moreover have "accepted i (occ # occs) rs = accepted i occs rs'" using False by (cases r) (auto simp: accepted_def rs)
    ultimately show ?thesis using ps f g' by auto
  qed
qed (simp add: accepted_def numbered_def)

lemma gapless_fresh: "gapless fresh_db" "facts_of i fresh_db = []"
  by (simp_all add: gapless_def facts_of_def scanOccurrences_def fresh_db_def rows_of_def)

lemma reads_facts:
  assumes "gapless db" and "pg_fault x (db_tick db) = None"
  shows "snd (pgLoadOccurrences x i db) = Inr (facts_of i db)" and "snd (pgMaxSeq x i db) = Inr (int (length (facts_of i db)))"
  using assms gapless_sorted [OF assms(1), of i] max_seq_gapless [of "rows_of i db"]
  by (simp_all add: pgLoadOccurrences_def pgMaxSeq_def statement_def facts_of_def Let_def gapless_def scanOccurrences_def)

text \<open>The numbers do not matter to a fold, only to the messages of its errors.\<close>

lemma applyOcc_renumber: "applyOcc c (occ\<lparr>o_seq := n\<rparr>) = Inr c' \<longleftrightarrow> applyOcc c occ = Inr c'"
  by (auto simp: applyOcc_def applyEventConsumed_def applyBranchUpdated_def fold_result_def Let_def
      split: occ_kind.splits option.splits if_splits)

lemma fold_renumber: "foldOnto c (numbered k ps) = Inr c' \<longleftrightarrow> foldOnto c ps = Inr c'"
proof (induction ps arbitrary: c k)
  case (Cons p ps)
  have "(case r of Inl e \<Rightarrow> Inl e | Inr c1 \<Rightarrow> f c1) = Inr c' \<longleftrightarrow> (\<exists>c1. r = Inr c1 \<and> f c1 = Inr c')"
    for r :: "err + ctx" and f by (cases r) auto
  then show ?case by (simp only: numbered_Cons foldOnto.simps Cons.IH applyOcc_renumber)
qed (simp add: numbered_def)

definition plain_occ :: "occurrence \<Rightarrow> bool" where
  "plain_occ occ \<longleftrightarrow> plain (o_varvalue occ) \<and> plain_env (o_outcome occ) \<and>
     (case o_event occ of None \<Rightarrow> True | Some e \<Rightarrow> (case ev_payload e of None \<Rightarrow> True | Some p \<Rightarrow> plain_env p))"

lemma json_occ_plain: "plain_occ occ \<Longrightarrow> json_occ x occ = Inr occ"
  by (auto simp: plain_occ_def json_occ_def json_event_def jsonVal_plain jsonEnv_plain split: option.splits)

subsection \<open>The summaries and snapshots, as the in-memory store keeps them\<close>

text \<open>What the two stores agree on: all but the two times that the server sets, and the precision of
  the wake-up time.\<close>

definition row_view :: "instance_record \<Rightarrow> instance_record" where
  "row_view r = r\<lparr>i_created := 0, i_updated := 0\<rparr>"

definition rec_view :: "pg_env \<Rightarrow> instance_record \<Rightarrow> instance_record" where
  "rec_view x r = row_view (r\<lparr>i_wake := map_option (pg_ts x) (i_wake r)\<rparr>)"

definition snap_view :: "'d snapshot \<Rightarrow> 'd snapshot" where
  "snap_view sn = sn\<lparr>sn_created := 0\<rparr>"

definition same_store :: "pg_env \<Rightarrow> 'd pg_db \<Rightarrow> 'd memory_store \<Rightarrow> bool" where
  "same_store x db st \<longleftrightarrow>
     (\<forall>k. map_option row_view (dget (db_instances db) k) = map_option (rec_view x) (dget (st_recs st) k)) \<and>
     (\<forall>k. map_option snap_view (dget (db_snaps db) k) = map_option snap_view (dget (st_snaps st) k)) \<and>
     (\<forall>k r. dget (db_instances db) k = Some r \<longrightarrow> i_id r = k)"

text \<open>Both stores through the same operations; a statement that reads or fails is not one of the other's.\<close>

inductive twin_stores :: "pg_env \<Rightarrow> 'd pg_db \<Rightarrow> 'd memory_store \<Rightarrow> bool" for x where
  fresh: "twin_stores x fresh_db NewMemoryInstanceStore"
| put: "twin_stores x db st \<Longrightarrow> pg_fault x (db_tick db) = None
    \<Longrightarrow> twin_stores x (fst (pgPutInstance x rec db)) (fst (memPutInstance rec st))"
| create: "twin_stores x db st \<Longrightarrow> pg_fault x (db_tick db) = None
    \<Longrightarrow> twin_stores x (fst (pgCreateInstance x rec db)) (fst (memCreateInstance rec st))"
| snap: "twin_stores x db st \<Longrightarrow> pg_fault x (db_tick db) = None
    \<Longrightarrow> twin_stores x (fst (pgPutSnapshot x sn db)) (fst (memPutSnapshot sn st))"
| append: "twin_stores x db st \<Longrightarrow> twin_stores x (fst (pgAppend x occ db)) st"
| spent: "twin_stores x db st \<Longrightarrow> twin_stores x (db\<lparr>db_tick := Suc (db_tick db)\<rparr>) st"

lemma twin_same: "twin_stores x db st \<Longrightarrow> same_store x db st"
proof (induction rule: twin_stores.induct)
  case fresh
  show ?case by (simp add: same_store_def fresh_db_def NewMemoryInstanceStore_def)
next
  case (put db st rec)
  then show ?case
    by (auto simp: same_store_def pgPutInstance_def memPutInstance_def statement_def Let_def kept_def row_view_def
        rec_view_def split: option.splits)
next
  case (create db st rec)
  then have "dget (db_instances db) (i_id rec) = None \<longleftrightarrow> dget (st_recs st) (i_id rec) = None"
    unfolding same_store_def by (metis option.map_disc_iff)
  with create show ?case
    by (auto simp: same_store_def pgCreateInstance_def memCreateInstance_def statement_def Let_def kept_def row_view_def
        rec_view_def)
next
  case (snap db st sn)
  then show ?case
    by (auto simp: same_store_def pgPutSnapshot_def memPutSnapshot_def statement_def Let_def snap_view_def)
next
  case (append db st occ)
  then show ?case
    by (auto simp: same_store_def pgAppend_def statement_def Let_def split: sum.splits option.splits)
qed (auto simp: same_store_def)

subsection \<open>Listings\<close>

definition due :: "instance_record \<Rightarrow> int" where
  "due r = (case i_wake r of None \<Rightarrow> 0 | Some u \<Rightarrow> u)"

text \<open>A scan visits every row of the table.\<close>

definition scans_all :: "pg_env \<Rightarrow> bool" where
  "scans_all x \<longleftrightarrow> (\<forall>n ks. set (pg_scan x n ks) = set ks)"

lemma table_rows_set:
  assumes "scans_all x"
  shows "set (table_rows x pred db) = {r. pred r \<and> (\<exists>k. dget (db_instances db) k = Some r)}"
proof -
  have s: "set (pg_scan x n ks) = set ks" for n ks using assms by (simp add: scans_all_def)
  let ?scan = "pg_scan x (db_tick db) (dkeys (db_instances db))"
  have "k \<in> set ?scan" if "dget (db_instances db) k = Some r" for k r
    unfolding s using that by (metis dget_eq_None_iff option.distinct(1))
  then have "r \<in> set (concat (map (\<lambda>k. case dget (db_instances db) k of None \<Rightarrow> [] | Some r \<Rightarrow> [r]) ?scan))
      \<longleftrightarrow> (\<exists>k. dget (db_instances db) k = Some r)" for r
    unfolding set_concat set_map by (auto split: option.splits intro!: bexI)
  then show ?thesis unfolding table_rows_def set_filter by blast
qed

lemma sorted_take:
  assumes "sorted (map f xs)" and "r \<in> set xs" and "r \<notin> set (take n xs)"
  shows "length (take n xs) = n \<and> (\<forall>r' \<in> set (take n xs). f r' \<le> f r)"
proof -
  from assms(2,3) have "r \<in> set (drop n xs)" by (metis Un_iff append_take_drop_id set_append)
  moreover from this have "n < length xs" by (cases "n < length xs") auto
  moreover have "sorted (map f (take n xs) @ map f (drop n xs))" using assms(1) by (simp flip: map_append)
  ultimately show ?thesis by (auto simp: sorted_append)
qed

lemma wakeable_list:
  assumes "scans_all x" and "pg_fault x (db_tick db) = None" and "0 \<le> limit"
  shows "\<exists>rs. snd (pgListWakeable x t limit db) = Inr rs \<and> sorted (map due rs) \<and> int (length rs) \<le> limit \<and>
    (\<forall>r \<in> set rs. wakeable (pg_ts x t) r \<and> (\<exists>k. dget (db_instances db) k = Some r)) \<and>
    (\<forall>k r. dget (db_instances db) k = Some r \<and> wakeable (pg_ts x t) r \<and> r \<notin> set rs \<longrightarrow>
       int (length rs) = limit \<and> (\<forall>r' \<in> set rs. due r' \<le> due r))"
proof -
  let ?db = "db\<lparr>db_tick := Suc (db_tick db)\<rparr>"
  let ?xs = "sort_key due (table_rows x (wakeable (pg_ts x t)) ?db)"
  have rs: "snd (pgListWakeable x t limit db) = Inr (take (nat limit) ?xs)"
    using assms(2,3) by (simp add: pgListWakeable_def statement_def Let_def limited_def due_def [abs_def])
  have xs: "set ?xs = {r. wakeable (pg_ts x t) r \<and> (\<exists>k. dget (db_instances db) k = Some r)}"
    using table_rows_set [OF assms(1), of _ ?db] by simp
  have srt: "sorted (map due ?xs)" by simp
  have "length (take (nat limit) ?xs) \<le> nat limit" by simp
  then have "int (length (take (nat limit) ?xs)) \<le> limit" using assms(3) by linarith
  moreover have "sorted (map due (take (nat limit) ?xs))" using srt by (simp add: sorted_wrt_take take_map [symmetric])
  moreover have "\<forall>r \<in> set (take (nat limit) ?xs). wakeable (pg_ts x t) r \<and> (\<exists>k. dget (db_instances db) k = Some r)"
    using xs set_take_subset [of "nat limit" ?xs] by blast
  moreover have "int (length (take (nat limit) ?xs)) = limit \<and> (\<forall>r' \<in> set (take (nat limit) ?xs). due r' \<le> due r)"
    if "dget (db_instances db) k = Some r" "wakeable (pg_ts x t) r" "r \<notin> set (take (nat limit) ?xs)" for k r
  proof -
    have "r \<in> set ?xs" using that(1,2) xs by blast
    from sorted_take [OF srt this that(3)] assms(3) show ?thesis by simp
  qed
  ultimately show ?thesis using rs by blast
qed

subsection \<open>Properties\<close>

definition pg_sample :: pg_env where
  "pg_sample = \<lparr>pg_fault = (\<lambda>n. if n = 1 then Some (EText ''connection reset'') else None), pg_now = int, pg_ts = (\<lambda>t. t div 1000 * 1000),
     pg_scan = (\<lambda>n ks. rev ks), pg_coll = (\<lambda>k. k), pg_rnd = of_int, pg_other = (\<lambda>s. Inr VNil)\<rparr>"

text \<open>C13: the journal table is a gapless log. Whatever facts are appended to fresh tables and whichever
  statements fail, the log of an instance is its accepted facts, in order, as JSON gives them back,
  numbered from one; \<open>LoadOccurrences\<close> reads exactly that and \<open>MaxSeq\<close> is its length; and if JSON can
  say the facts as they are, the log folds to the context that the facts themselves fold to.\<close>

theorem log_exact:
  assumes "pgAppends x occs fresh_db = (db, rs)" and "pg_fault x (db_tick db) = None"
  shows "\<exists>ps. list_all2 (\<lambda>occ p. json_occ x occ = Inr p) (accepted i occs rs) ps \<and>
    snd (pgLoadOccurrences x i db) = Inr (numbered 1 ps) \<and> snd (pgMaxSeq x i db) = Inr (int (length ps)) \<and>
    (list_all plain_occ (accepted i occs rs) \<longrightarrow>
       (\<forall>def t c. foldContext def t (numbered 1 ps) = Inr c \<longleftrightarrow> foldContext def t (accepted i occs rs) = Inr c))"
proof -
  from appends_facts [OF assms(1) gapless_fresh(1), of i] obtain ps where g: "gapless db"
    and ps: "list_all2 (\<lambda>occ p. json_occ x occ = Inr p) (accepted i occs rs) ps" and f: "facts_of i db = numbered 1 ps"
    by (auto simp: gapless_fresh(2))
  have "ps = accepted i occs rs" if "list_all plain_occ (accepted i occs rs)"
    using ps that by (induction rule: list_all2_induct) (simp_all add: json_occ_plain)
  then have "foldContext def t (numbered 1 ps) = Inr c \<longleftrightarrow> foldContext def t (accepted i occs rs) = Inr c"
    if "list_all plain_occ (accepted i occs rs)" for def t c
    using that fold_renumber unfolding foldContext_def by metis
  with ps reads_facts [OF g assms(2), of i] show ?thesis unfolding f by auto
qed

definition variable_fact :: "string \<Rightarrow> val \<Rightarrow> occurrence" where
  "variable_fact i v = (blank_occ OccVariableSet)\<lparr>o_instance := i, o_varkey := ''amount'', o_varvalue := v\<rparr>"

definition sample_facts :: "occurrence list" where
  "sample_facts = [variable_fact ''i'' (VInt 5), variable_fact ''i'' (VStr ''lost''), variable_fact ''j'' VNil, variable_fact ''i'' (VBool True)]"

lemma sample_appends:
  "(case pgAppends pg_sample sample_facts (fresh_db :: unit pg_db) of (db, rs) \<Rightarrow>
      (map o_varvalue (accepted ''i'' sample_facts rs), pg_fault pg_sample (db_tick db),
       case snd (pgLoadOccurrences pg_sample ''i'' db) of Inr occs \<Rightarrow> map (\<lambda>occ. (o_seq occ, o_varvalue occ)) occs | Inl e \<Rightarrow> []))
    = ([VInt 5, VBool True], None, [(1, VFloat 5), (2, VBool True)])"
  by code_simp

theorem log_exact_witness:
  "\<exists>db rs ps. pgAppends pg_sample sample_facts (fresh_db :: unit pg_db) = (db, rs) \<and>
     snd (pgLoadOccurrences pg_sample ''i'' db) = Inr (numbered 1 ps) \<and> length ps = 2"
proof -
  obtain db rs where r: "pgAppends pg_sample sample_facts (fresh_db :: unit pg_db) = (db, rs)" by fastforce
  with sample_appends have f: "pg_fault pg_sample (db_tick db) = None"
    and m: "map o_varvalue (accepted ''i'' sample_facts rs) = [VInt 5, VBool True]" by simp_all
  from arg_cong [OF m, of length] have "length (accepted ''i'' sample_facts rs) = 2" by simp
  with log_exact [OF r f, of "''i''"] r show ?thesis by (metis list_all2_lengthD)
qed

text \<open>C22: the tables of summaries and snapshots answer as the in-memory store does, after the same
  operations: a creation is refused for the same instances, and the record and the snapshot that are
  read are the same but for the two times of the server and the precision of the wake-up time. What
  \<open>ListWakeable\<close> lists is due, in ascending order, and nothing that it leaves out is due earlier.\<close>

theorem tables_as_memory:
  assumes "twin_stores x db st" and "pg_fault x (db_tick db) = None" and "scans_all x" and "0 \<le> limit"
  shows "snd (pgCreateInstance x rec db) = (case snd (memCreateInstance rec st) of None \<Rightarrow> Inr () | Some e \<Rightarrow> Inl (PgStore e)) \<and>
    map_sum id row_view (snd (pgGetInstance x k db)) = map_sum PgStore (rec_view x) (memGetInstance st k) \<and>
    map_sum id snap_view (snd (pgLatestSnapshot x k db)) = map_sum PgStore snap_view (memLatestSnapshot st k) \<and>
    (\<exists>rs. snd (pgListWakeable x t limit db) = Inr rs \<and> sorted (map due rs) \<and> int (length rs) \<le> limit \<and>
      (\<forall>r \<in> set rs. wakeable (pg_ts x t) r \<and> (\<exists>k. dget (db_instances db) k = Some r)) \<and>
      (\<forall>k r. dget (db_instances db) k = Some r \<and> wakeable (pg_ts x t) r \<and> r \<notin> set rs \<longrightarrow>
         int (length rs) = limit \<and> (\<forall>r' \<in> set rs. due r' \<le> due r)))"
proof -
  have s: "map_option row_view (dget (db_instances db) k) = map_option (rec_view x) (dget (st_recs st) k)"
    "map_option snap_view (dget (db_snaps db) k) = map_option snap_view (dget (st_snaps st) k)" for k
    using twin_same [OF assms(1)] by (simp_all add: same_store_def)
  have "snd (pgCreateInstance x rec db) = (case snd (memCreateInstance rec st) of None \<Rightarrow> Inr () | Some e \<Rightarrow> Inl (PgStore e))"
    using s(1) [of "i_id rec"] assms(2)
    by (auto simp: pgCreateInstance_def memCreateInstance_def statement_def Let_def)
  moreover have "map_sum id row_view (snd (pgGetInstance x k db)) = map_sum PgStore (rec_view x) (memGetInstance st k)"
    using s(1) [of k] assms(2)
    by (cases "dget (db_instances db) k"; cases "dget (st_recs st) k")
      (auto simp: pgGetInstance_def memGetInstance_def statement_def Let_def)
  moreover have "map_sum id snap_view (snd (pgLatestSnapshot x k db)) = map_sum PgStore snap_view (memLatestSnapshot st k)"
    using s(2) [of k] assms(2)
    by (cases "dget (db_snaps db) k"; cases "dget (st_snaps st) k")
      (auto simp: pgLatestSnapshot_def memLatestSnapshot_def statement_def Let_def)
  ultimately show ?thesis using wakeable_list [OF assms(3,2,4), of t] by blast
qed

definition waiting_rec :: "string \<Rightarrow> int \<Rightarrow> instance_record" where
  "waiting_rec k u = \<lparr>i_id = k, i_def = ''d'', i_tenant = '''', i_status = ''waiting'', i_node = ''n'', i_wake = Some u,
     i_created = 0, i_updated = 0\<rparr>"

theorem tables_as_memory_witness:
  "\<exists>db st. twin_stores pg_sample (db :: unit pg_db) st \<and>
     snd (pgCreateInstance pg_sample (waiting_rec ''a'' 7) db) = Inl (PgStore ErrInstanceExists)"
proof -
  let ?db = "fst (pgCreateInstance pg_sample (waiting_rec ''a'' 5000) fresh_db) :: unit pg_db"
  let ?db1 = "?db\<lparr>db_tick := Suc (db_tick ?db)\<rparr>"
  let ?st = "fst (memCreateInstance (waiting_rec ''a'' 5000) NewMemoryInstanceStore) :: unit memory_store"
  have "twin_stores pg_sample ?db ?st"
    by (rule twin_stores.create [OF twin_stores.fresh]) (simp add: pg_sample_def fresh_db_def)
  then have t: "twin_stores pg_sample ?db1 ?st" by (rule twin_stores.spent)
  have "db_tick ?db1 = 2"
    by (simp add: pgCreateInstance_def statement_def pg_sample_def fresh_db_def Let_def)
  then have f: "pg_fault pg_sample (db_tick ?db1) = None" by (simp add: pg_sample_def)
  have sc: "scans_all pg_sample" by (simp add: scans_all_def pg_sample_def)
  have m: "snd (memCreateInstance (waiting_rec ''a'' 7) ?st) = Some ErrInstanceExists"
    by (simp add: memCreateInstance_def NewMemoryInstanceStore_def waiting_rec_def)
  have "snd (pgCreateInstance pg_sample (waiting_rec ''a'' 7) ?db1) =
      (case snd (memCreateInstance (waiting_rec ''a'' 7) ?st) of None \<Rightarrow> Inr () | Some e \<Rightarrow> Inl (PgStore e))"
    by (rule conjunct1 [OF tables_as_memory [OF t f sc zero_le_one]])
  then have "snd (pgCreateInstance pg_sample (waiting_rec ''a'' 7) ?db1) = Inl (PgStore ErrInstanceExists)"
    unfolding m by simp
  with t show ?thesis by blast
qed

text \<open>A limit of zero lists nothing here and everything in the in-memory store.\<close>

lemma limit_zero:
  "pg_fault x (db_tick db) = None \<Longrightarrow> snd (pgListWakeable x t 0 db) = Inr []"
  "pg_fault x (db_tick db) = None \<Longrightarrow> limit < 0 \<Longrightarrow> snd (pgListWakeable x t limit db) = Inl PgNegativeLimit"
  by (simp_all add: pgListWakeable_def statement_def Let_def limited_def)

end
