(* ===== verification/Copies.thy ===== *)
theory Copies
  imports Context
begin

text \<open>
  The copies of \<open>src/dsl/context.go\<close> and \<open>journal.go\<close> on an explicit store: \<open>deepCopyValue\<close> and
  \<open>deepCopyPayload\<close>, which make the payload of an event private before it is recorded, \<open>cloneScope\<close>
  and \<open>Snapshot\<close>. Elsewhere in the development a Go value is the tree it denotes; here maps, slices
  and structures behind pointers are cells of a heap, which the host and the engine may share.
\<close>

subsection \<open>The store\<close>

text \<open>
  A value of interface type, \<open>HOther\<close> for a reference of any dynamic type but the two containers.
  A nil map or slice is \<open>None\<close>. A slice stands for the whole of its array.
\<close>

datatype hval =
    HNil | HBool bool | HInt int | HFloat rat | HStr string
  | HMap "nat option" | HSlice "nat option" | HOther nat

datatype hobj =
    OMap "hval dict" | OSlice "hval list" | OOther string
  | OText "string dict" | OCounts "nat dict" | OTimes "int dict"
  | OWaiting waiting_state | OWaitings "nat dict"
  | OBranch branch_state | OScope parallel_scope "nat dict option"

type_synonym heap = "hobj list"

definition cell :: "heap \<Rightarrow> nat option \<Rightarrow> hobj option" where
  "cell h p = (case p of None \<Rightarrow> None | Some a \<Rightarrow> if a < length h then Some (h ! a) else None)"

definition alloc :: "heap \<Rightarrow> hobj \<Rightarrow> heap \<times> nat" where
  "alloc h ob = (h @ [ob], length h)"

text \<open>What a range over a container finds; nil is empty.\<close>

definition map_at :: "heap \<Rightarrow> nat option \<Rightarrow> hval dict" where
  "map_at h p = (case cell h p of Some (OMap d) \<Rightarrow> d | _ \<Rightarrow> [])"

definition slice_at :: "heap \<Rightarrow> nat option \<Rightarrow> hval list" where
  "slice_at h p = (case cell h p of Some (OSlice vs) \<Rightarrow> vs | _ \<Rightarrow> [])"

definition other_at :: "heap \<Rightarrow> nat \<Rightarrow> string" where
  "other_at h a = (case cell h (Some a) of Some (OOther s) \<Rightarrow> s | _ \<Rightarrow> '''')"

text \<open>The tree a value denotes, \<open>None\<close> when it is deeper than the bound, as one that contains itself is.\<close>

primrec read_val :: "nat \<Rightarrow> heap \<Rightarrow> hval \<Rightarrow> val option" where
  "read_val 0 h v = None"
| "read_val (Suc n) h v =
     (case v of
        HNil \<Rightarrow> Some VNil | HBool b \<Rightarrow> Some (VBool b) | HInt i \<Rightarrow> Some (VInt i) | HFloat q \<Rightarrow> Some (VFloat q)
      | HStr s \<Rightarrow> Some (VStr s)
      | HMap p \<Rightarrow> map_option (\<lambda>vs. VObj (zip (map fst (map_at h p)) vs)) (those (map (read_val n h) (map snd (map_at h p))))
      | HSlice p \<Rightarrow> map_option VList (those (map (read_val n h) (slice_at h p)))
      | HOther a \<Rightarrow> Some (VOther (other_at h a)))"

definition read_map :: "nat \<Rightarrow> heap \<Rightarrow> nat option \<Rightarrow> env option" where
  "read_map n h p = map_option (zip (map fst (map_at h p))) (those (map (read_val n h) (map snd (map_at h p))))"

subsection \<open>The deep copy\<close>

text \<open>A loop that copies one element after the other.\<close>

fun copy_each :: "(heap \<Rightarrow> 'a \<Rightarrow> (heap \<times> 'b) option) \<Rightarrow> heap \<Rightarrow> 'a list \<Rightarrow> (heap \<times> 'b list) option" where
  "copy_each f h [] = Some (h, [])"
| "copy_each f h (v # vs) =
     (case f h v of None \<Rightarrow> None
      | Some (h1, w) \<Rightarrow> (case copy_each f h1 vs of None \<Rightarrow> None | Some (h2, ws) \<Rightarrow> Some (h2, w # ws)))"

definition new_map :: "string list \<Rightarrow> heap \<times> hval list \<Rightarrow> heap \<times> nat" where
  "new_map ks r = (case r of (h, ws) \<Rightarrow> alloc h (OMap (zip ks ws)))"

text \<open>\<open>n\<close> is the depth of the recursion the stack of the goroutine allows; beyond it the program dies.\<close>

primrec deepCopyValue :: "nat \<Rightarrow> heap \<Rightarrow> hval \<Rightarrow> (heap \<times> hval) option" where
  "deepCopyValue 0 h v = None"
| "deepCopyValue (Suc n) h v =
     (case v of
        HMap p \<Rightarrow> map_option (\<lambda>r. apsnd (\<lambda>a. HMap (Some a)) (new_map (map fst (map_at h p)) r))
          (copy_each (deepCopyValue n) h (map snd (map_at h p)))
      | HSlice p \<Rightarrow> map_option (\<lambda>(h1, ws). apsnd (\<lambda>a. HSlice (Some a)) (alloc h1 (OSlice ws)))
          (copy_each (deepCopyValue n) h (slice_at h p))
      | _ \<Rightarrow> Some (h, v))"

definition deepCopyPayload :: "nat \<Rightarrow> heap \<Rightarrow> nat option \<Rightarrow> (heap \<times> nat option) option" where
  "deepCopyPayload n h m =
     (case m of
        None \<Rightarrow> Some (h, None)
      | Some a \<Rightarrow> map_option (\<lambda>r. apsnd Some (new_map (map fst (map_at h m)) r))
          (copy_each (deepCopyValue n) h (map snd (map_at h m))))"

subsection \<open>The snapshot of a context\<close>

text \<open>
  The context as it lies in the store: \<open>h_flat\<close> holds the fields that are values (and the event,
  the results and the undo entries, which are replaced or appended to and never written in place),
  the others are references.
\<close>

record heap_ctx =
  h_flat :: ctx
  h_vars :: "nat option"
  h_meta :: "nat option"
  h_scopes :: "nat option list"
  h_waitings :: "nat option"
  h_visits :: "nat option"
  h_processed :: "nat option"

definition copyMap :: "heap \<Rightarrow> nat option \<Rightarrow> heap \<times> nat option" where
  "copyMap h m = apsnd Some (alloc h (OMap (map_at h m)))"

definition text_at :: "heap \<Rightarrow> nat option \<Rightarrow> string dict" where
  "text_at h p = (case cell h p of Some (OText d) \<Rightarrow> d | _ \<Rightarrow> [])"

definition times_at :: "heap \<Rightarrow> nat option \<Rightarrow> int dict" where
  "times_at h p = (case cell h p of Some (OTimes d) \<Rightarrow> d | _ \<Rightarrow> [])"

definition counts_at :: "heap \<Rightarrow> nat option \<Rightarrow> nat dict" where
  "counts_at h p = (case cell h p of Some (OCounts d) \<Rightarrow> d | _ \<Rightarrow> [])"

definition copyStringMap :: "heap \<Rightarrow> nat option \<Rightarrow> heap \<times> nat option" where
  "copyStringMap h m = apsnd Some (alloc h (OText (text_at h m)))"

definition copyIntMap :: "heap \<Rightarrow> nat option \<Rightarrow> heap \<times> nat option" where
  "copyIntMap h m = apsnd Some (alloc h (OTimes (times_at h m)))"

definition copyVisitCounts :: "heap \<Rightarrow> nat option \<Rightarrow> heap \<times> nat option" where
  "copyVisitCounts h m = (if m = None then (h, None) else apsnd Some (alloc h (OCounts (counts_at h m))))"

text \<open>Copies of the cells a table of pointers leads to, and the table of the copies.\<close>

fun copy_cells :: "heap \<Rightarrow> nat dict \<Rightarrow> heap \<times> nat dict" where
  "copy_cells h [] = (h, [])"
| "copy_cells h ((k, a) # ps) =
     (let (h1, b) = alloc h (h ! a); (h2, qs) = copy_cells h1 ps in (h2, (k, b) # qs))"

definition waitings_at :: "heap \<Rightarrow> nat option \<Rightarrow> nat dict" where
  "waitings_at h p = (case cell h p of Some (OWaitings d) \<Rightarrow> d | _ \<Rightarrow> [])"

definition copyWaitings :: "heap \<Rightarrow> nat option \<Rightarrow> heap \<times> nat option" where
  "copyWaitings h m =
     (if m = None then (h, None)
      else let (h1, d) = copy_cells h (waitings_at h m) in apsnd Some (alloc h1 (OWaitings d)))"

definition cloneScope :: "heap \<Rightarrow> nat option \<Rightarrow> heap \<times> nat option" where
  "cloneScope h p =
     (case cell h p of
        Some (OScope sc None) \<Rightarrow> apsnd Some (alloc h (OScope sc None))
      | Some (OScope sc (Some brs)) \<Rightarrow>
          let (h1, brs1) = copy_cells h brs in apsnd Some (alloc h1 (OScope sc (Some brs1)))
      | _ \<Rightarrow> (h, None))"

fun cloneScopes :: "heap \<Rightarrow> nat option list \<Rightarrow> heap \<times> nat option list" where
  "cloneScopes h [] = (h, [])"
| "cloneScopes h (p # ps) =
     (let (h1, q) = cloneScope h p; (h2, qs) = cloneScopes h1 ps in (h2, q # qs))"

definition Snapshot :: "heap \<Rightarrow> heap_ctx \<Rightarrow> heap \<times> heap_ctx" where
  "Snapshot h c =
     (let (h1, vars) = copyMap h (h_vars c);
          (h2, meta) = copyStringMap h1 (h_meta c);
          (h3, scopes) = cloneScopes h2 (h_scopes c);
          (h4, waitings) = copyWaitings h3 (h_waitings c);
          (h5, visits) = copyVisitCounts h4 (h_visits c);
          (h6, processed) = copyIntMap h5 (h_processed c)
      in (h6, \<lparr>h_flat = h_flat c, h_vars = vars, h_meta = meta, h_scopes = scopes, h_waitings = waitings,
               h_visits = visits, h_processed = processed\<rparr>))"

subsection \<open>Who sees a write\<close>

definition same_on :: "nat set \<Rightarrow> heap \<Rightarrow> heap \<Rightarrow> bool" where
  "same_on A h k \<longleftrightarrow> (\<forall>a \<in> A. cell k (Some a) = cell h (Some a))"

abbreviation old :: "heap \<Rightarrow> nat set" where
  "old h \<equiv> {..<length h}"

abbreviation new_in :: "heap \<Rightarrow> heap \<Rightarrow> nat set" where
  "new_in h h' \<equiv> {length h..<length h'}"

fun val_refs :: "hval \<Rightarrow> nat set" where
  "val_refs (HMap p) = set_option p"
| "val_refs (HSlice p) = set_option p"
| "val_refs (HOther a) = {a}"
| "val_refs _ = {}"

fun refs :: "hobj \<Rightarrow> nat set" where
  "refs (OMap d) = (\<Union>v \<in> snd ` set d. val_refs v)"
| "refs (OSlice vs) = (\<Union>v \<in> set vs. val_refs v)"
| "refs (OWaitings d) = snd ` set d"
| "refs (OScope sc (Some d)) = snd ` set d"
| "refs _ = {}"

text \<open>No cell refers to a cell that does not exist.\<close>

definition closed_heap :: "heap \<Rightarrow> bool" where
  "closed_heap h \<longleftrightarrow> (\<forall>ob \<in> set h. refs ob \<subseteq> old h)"

text \<open>Only containers that the copy looks into.\<close>

primrec bare :: "nat \<Rightarrow> heap \<Rightarrow> hval \<Rightarrow> bool" where
  "bare 0 h v = True"
| "bare (Suc n) h v =
     (case v of
        HMap p \<Rightarrow> list_all (bare n h) (map snd (map_at h p))
      | HSlice p \<Rightarrow> list_all (bare n h) (slice_at h p)
      | HOther a \<Rightarrow> False
      | _ \<Rightarrow> True)"

lemma cell_append [simp]: "p \<noteq> None \<Longrightarrow> set_option p \<subseteq> old h \<Longrightarrow> cell (h @ new) p = cell h p"
  by (auto simp: cell_def nth_append split: option.splits)

lemma cell_None [simp]: "cell h None = None"
  by (simp add: cell_def)

lemma same_onD: "same_on A h k \<Longrightarrow> set_option p \<subseteq> A \<Longrightarrow> cell k p = cell h p"
  by (cases p) (simp_all add: same_on_def)

lemma same_on_append: "same_on (old h) h (h @ new)"
  by (simp add: same_on_def)

lemma same_on_mono: "same_on A h k \<Longrightarrow> B \<subseteq> A \<Longrightarrow> same_on B h k"
  by (auto simp: same_on_def)

text \<open>The first cells of a heap that grew further.\<close>

lemma same_on_first: "same_on (new_in h (g @ new)) (g @ new) k \<Longrightarrow> same_on (new_in h g) g k"
  by (auto simp: same_on_def)

lemma same_on_last: "same_on (new_in h g) g k \<Longrightarrow> length h \<le> length h1 \<Longrightarrow> same_on (new_in h1 g) g k"
  by (auto simp: same_on_def)

lemma closed_at:
  assumes "closed_heap h"
  shows "v \<in> set (map snd (map_at h p)) \<Longrightarrow> val_refs v \<subseteq> old h" and "v \<in> set (slice_at h p) \<Longrightarrow> val_refs v \<subseteq> old h"
proof -
  have "refs ob \<subseteq> old h" if "cell h p = Some ob" for ob
  proof -
    from that have "ob \<in> set h" by (auto simp: cell_def split: option.splits if_splits)
    with assms show ?thesis by (simp add: closed_heap_def)
  qed
  note in_heap = this
  show "val_refs v \<subseteq> old h" if "v \<in> set (map snd (map_at h p))"
    using that in_heap [of "OMap (map_at h p)"]
    by (force simp: map_at_def split: option.splits hobj.splits)
  show "val_refs v \<subseteq> old h" if "v \<in> set (slice_at h p)"
    using that in_heap [of "OSlice (slice_at h p)"]
    by (force simp: slice_at_def split: option.splits hobj.splits)
qed

lemma at_same:
  "set_option p \<subseteq> A \<Longrightarrow> same_on A h k \<Longrightarrow> map_at k p = map_at h p"
  "set_option p \<subseteq> A \<Longrightarrow> same_on A h k \<Longrightarrow> slice_at k p = slice_at h p"
  "a \<in> A \<Longrightarrow> same_on A h k \<Longrightarrow> other_at k a = other_at h a"
  by (simp_all add: map_at_def slice_at_def other_at_def same_onD)

text \<open>A value reads the same as long as the cells that were there are left alone.\<close>

lemma read_same:
  "closed_heap h \<Longrightarrow> val_refs v \<subseteq> old h \<Longrightarrow> same_on (old h) h k \<Longrightarrow> read_val n k v = read_val n h v \<and> bare n k v = bare n h v"
proof (induction n arbitrary: v)
  case (Suc n)
  have ih: "read_val n k u = read_val n h u \<and> bare n k u = bare n h u" if "val_refs u \<subseteq> old h" for u
    using Suc.IH [OF Suc.prems(1) that Suc.prems(3)] .
  show ?case
  proof (cases v)
    case (HMap p)
    with Suc.prems have m: "map_at k p = map_at h p" by (simp add: at_same(1))
    from ih closed_at(1) [OF Suc.prems(1)]
    have "map (read_val n k) (map snd (map_at h p)) = map (read_val n h) (map snd (map_at h p))"
      "list_all (bare n k) (map snd (map_at h p)) = list_all (bare n h) (map snd (map_at h p))"
      by (intro map_cong list.pred_cong refl; blast)+
    then show ?thesis by (simp only: HMap m read_val.simps bare.simps hval.case)
  next
    case (HSlice p)
    with Suc.prems have m: "slice_at k p = slice_at h p" by (simp add: at_same(2))
    from ih closed_at(2) [OF Suc.prems(1)]
    have "map (read_val n k) (slice_at h p) = map (read_val n h) (slice_at h p)"
      "list_all (bare n k) (slice_at h p) = list_all (bare n h) (slice_at h p)"
      by (intro map_cong list.pred_cong refl; blast)+
    then show ?thesis by (simp only: HSlice m read_val.simps bare.simps hval.case)
  next
    case (HOther a)
    with Suc.prems show ?thesis by (simp add: at_same(3) [of a "old h"])
  qed simp_all
qed simp

subsection \<open>The deep copy reads the same and shares nothing\<close>

text \<open>What a copy of \<open>v\<close> into \<open>w\<close> is: new cells only, and whoever leaves those alone cannot change what
  \<open>w\<close> reads.\<close>

definition private_copy :: "nat \<Rightarrow> heap \<Rightarrow> hval \<Rightarrow> heap \<Rightarrow> hval \<Rightarrow> bool" where
  "private_copy n h v h' w \<longleftrightarrow> (\<exists>ext. h' = h @ ext) \<and> closed_heap h' \<and> val_refs w \<subseteq> old h' \<and>
     (bare n h v \<longrightarrow> (\<forall>k. same_on (new_in h h') h' k \<longrightarrow> read_val n k w = read_val n h v))"

lemma private_copyD:
  assumes "private_copy n h v h' w"
  obtains ext where "h' = h @ ext" and "closed_heap h'" and "val_refs w \<subseteq> old h'"
    and "\<And>k. bare n h v \<Longrightarrow> same_on (new_in h h') h' k \<Longrightarrow> read_val n k w = read_val n h v"
  using assms by (auto simp: private_copy_def)

lemma copy_each_private:
  assumes "\<And>h v h' w. closed_heap h \<Longrightarrow> val_refs v \<subseteq> old h \<Longrightarrow> f h v = Some (h', w) \<Longrightarrow> private_copy n h v h' w"
  shows "closed_heap h \<Longrightarrow> \<forall>v \<in> set vs. val_refs v \<subseteq> old h \<Longrightarrow> copy_each f h vs = Some (h', ws)
    \<Longrightarrow> length ws = length vs \<and> (\<exists>ext. h' = h @ ext) \<and> closed_heap h' \<and> (\<forall>w \<in> set ws. val_refs w \<subseteq> old h') \<and>
      (list_all (bare n h) vs \<longrightarrow> (\<forall>k. same_on (new_in h h') h' k \<longrightarrow> map (read_val n k) ws = map (read_val n h) vs))"
proof (induction vs arbitrary: h ws)
  case (Cons v vs)
  obtain h1 w where fv: "f h v = Some (h1, w)" using Cons.prems(3) by (auto split: option.splits)
  obtain ws' where fvs: "copy_each f h1 vs = Some (h', ws')" and ws: "ws = w # ws'"
    using Cons.prems(3) fv by (auto split: option.splits)
  have "val_refs v \<subseteq> old h" using Cons.prems(2) by simp
  from private_copyD [OF assms [OF Cons.prems(1) this fv]] obtain ext where h1: "h1 = h @ ext" "closed_heap h1"
    and w: "val_refs w \<subseteq> old h1"
    and rw: "\<And>k. bare n h v \<Longrightarrow> same_on (new_in h h1) h1 k \<Longrightarrow> read_val n k w = read_val n h v" by blast
  have same: "read_val n h1 u = read_val n h u \<and> bare n h1 u = bare n h u" if "u \<in> set vs" for u
    using that read_same [OF Cons.prems(1), of u h1 n] Cons.prems(2) by (simp add: h1 same_on_append)
  have "\<forall>u \<in> set vs. val_refs u \<subseteq> old h1" using Cons.prems(2) by (force simp: h1)
  from Cons.IH [OF h1(2) this fvs] obtain ext' where h': "h' = h1 @ ext'" "closed_heap h'"
    and ws': "length ws' = length vs" "\<forall>u \<in> set ws'. val_refs u \<subseteq> old h'"
    and rws: "\<And>k. list_all (bare n h1) vs \<Longrightarrow> same_on (new_in h1 h') h' k \<Longrightarrow> map (read_val n k) ws' = map (read_val n h1) vs"
    by blast
  have "map (read_val n k) ws = map (read_val n h) (v # vs)"
    if b: "list_all (bare n h) (v # vs)" and k: "same_on (new_in h h') h' k" for k
  proof -
    have "same_on (new_in h h1) h1 k" using same_on_first k unfolding h'(1) .
    with rw b have "read_val n k w = read_val n h v" by simp
    moreover have "same_on (new_in h1 h') h' k" by (rule same_on_last [OF k]) (simp add: h1(1))
    moreover have "list_all (bare n h1) vs" using b same by (simp add: list_all_iff)
    moreover have "map (read_val n h1) vs = map (read_val n h) vs" using same by simp
    ultimately show ?thesis using rws by (simp add: ws)
  qed
  moreover have "\<exists>ext. h' = h @ ext" using h1(1) h'(1) by simp
  moreover have "\<forall>u \<in> set ws. val_refs u \<subseteq> old h'" using w ws'(2) by (force simp: ws h'(1))
  ultimately show ?case using ws'(1) h'(2) by (simp add: ws)
qed simp

lemma closed_snoc: "closed_heap h \<Longrightarrow> refs ob \<subseteq> old h \<Longrightarrow> closed_heap (h @ [ob])"
  unfolding closed_heap_def by (auto simp: subset_eq less_Suc_eq)

lemma cell_new: "same_on (new_in h (g @ [ob])) (g @ [ob]) k \<Longrightarrow> length h \<le> length g \<Longrightarrow> cell k (Some (length g)) = Some ob"
  by (simp add: same_on_def) (simp add: cell_def)

lemma zip_refs: "\<forall>w \<in> set ws. val_refs w \<subseteq> A \<Longrightarrow> refs (OMap (zip ks ws)) \<subseteq> A"
  by (fastforce dest: set_zip_rightD)

theorem deepCopy_private:
  "closed_heap h \<Longrightarrow> val_refs v \<subseteq> old h \<Longrightarrow> deepCopyValue n h v = Some (h', w) \<Longrightarrow> private_copy n h v h' w"
proof (induction n arbitrary: h v h' w)
  case (Suc n)
  have each: "length ws = length vs \<and> (\<exists>ext. g = h @ ext) \<and> closed_heap g \<and> (\<forall>w \<in> set ws. val_refs w \<subseteq> old g) \<and>
      (list_all (bare n h) vs \<longrightarrow> (\<forall>k. same_on (new_in h g) g k \<longrightarrow> map (read_val n k) ws = map (read_val n h) vs))"
    if "copy_each (deepCopyValue n) h vs = Some (g, ws)" "\<forall>v \<in> set vs. val_refs v \<subseteq> old h" for g vs ws
    using Suc.IH by (rule copy_each_private [OF _ Suc.prems(1) that(2,1)])
  show ?case
  proof (cases v)
    case (HMap p)
    let ?ks = "map fst (map_at h p)" and ?vs = "map snd (map_at h p)"
    obtain g ws where c: "copy_each (deepCopyValue n) h ?vs = Some (g, ws)"
      and h': "h' = g @ [OMap (zip ?ks ws)]" and w: "w = HMap (Some (length g))"
      using Suc.prems(3) HMap by (auto simp: new_map_def alloc_def)
    from each [OF c] closed_at(1) [OF Suc.prems(1), of _ p]
    obtain ext where g: "g = h @ ext" "closed_heap g" and ws: "length ws = length ?vs" "\<forall>u \<in> set ws. val_refs u \<subseteq> old g"
      and r: "\<And>k. list_all (bare n h) ?vs \<Longrightarrow> same_on (new_in h g) g k \<Longrightarrow> map (read_val n k) ws = map (read_val n h) ?vs"
      by blast
    have "read_val (Suc n) k w = read_val (Suc n) h v" if b: "bare (Suc n) h v" and k: "same_on (new_in h h') h' k" for k
    proof -
      have "map_at k (Some (length g)) = zip ?ks ws"
        using cell_new [OF k [unfolded h']] by (simp add: map_at_def g(1))
      moreover have "map (read_val n k) ws = map (read_val n h) ?vs"
        by (rule r [OF _ same_on_first [OF k [unfolded h']]]) (use b in \<open>simp add: HMap\<close>)
      ultimately show ?thesis using ws(1) by (simp add: w HMap del: map_map)
    qed
    moreover have "closed_heap h'" unfolding h' by (rule closed_snoc [OF g(2) zip_refs [OF ws(2)]])
    ultimately show ?thesis by (simp add: private_copy_def h' w g(1))
  next
    case (HSlice p)
    obtain g ws where c: "copy_each (deepCopyValue n) h (slice_at h p) = Some (g, ws)"
      and h': "h' = g @ [OSlice ws]" and w: "w = HSlice (Some (length g))"
      using Suc.prems(3) HSlice by (auto simp: alloc_def)
    from each [OF c] closed_at(2) [OF Suc.prems(1), of _ p]
    obtain ext where g: "g = h @ ext" "closed_heap g" and ws: "\<forall>u \<in> set ws. val_refs u \<subseteq> old g"
      and r: "\<And>k. list_all (bare n h) (slice_at h p) \<Longrightarrow> same_on (new_in h g) g k \<Longrightarrow> map (read_val n k) ws = map (read_val n h) (slice_at h p)"
      by blast
    have "read_val (Suc n) k w = read_val (Suc n) h v" if b: "bare (Suc n) h v" and k: "same_on (new_in h h') h' k" for k
    proof -
      have "slice_at k (Some (length g)) = ws"
        using cell_new [OF k [unfolded h']] by (simp add: slice_at_def g(1))
      moreover have "map (read_val n k) ws = map (read_val n h) (slice_at h p)"
        by (rule r [OF _ same_on_first [OF k [unfolded h']]]) (use b in \<open>simp add: HSlice\<close>)
      ultimately show ?thesis by (simp add: w HSlice)
    qed
    moreover have "closed_heap h'" unfolding h' by (rule closed_snoc [OF g(2)]) (use ws in auto)
    ultimately show ?thesis by (simp add: private_copy_def h' w g(1))
  qed (use Suc.prems in \<open>auto simp: private_copy_def\<close>)
qed simp

text \<open>The copy returns exactly when the value is not deeper than the stack.\<close>

lemma those_None: "those xs = None \<longleftrightarrow> None \<in> set xs"
  by (induction xs) (auto split: option.splits)

lemma copy_each_None:
  assumes "\<And>h v. closed_heap h \<Longrightarrow> val_refs v \<subseteq> old h \<Longrightarrow> deepCopyValue n h v = None \<longleftrightarrow> read_val n h v = None"
  shows "closed_heap h \<Longrightarrow> \<forall>v \<in> set vs. val_refs v \<subseteq> old h
    \<Longrightarrow> copy_each (deepCopyValue n) h vs = None \<longleftrightarrow> those (map (read_val n h) vs) = None"
proof (induction vs arbitrary: h)
  case (Cons v vs)
  show ?case
  proof (cases "deepCopyValue n h v")
    case None
    with assms [OF Cons.prems(1), of v] Cons.prems(2) show ?thesis by simp
  next
    case (Some r)
    obtain h1 w where r: "r = (h1, w)" by (cases r)
    have "val_refs v \<subseteq> old h" using Cons.prems(2) by simp
    from deepCopy_private [OF Cons.prems(1) this Some [unfolded r]]
    obtain ext where h1: "h1 = h @ ext" "closed_heap h1" unfolding private_copy_def by fast
    have "\<forall>u \<in> set vs. val_refs u \<subseteq> old h1" using Cons.prems(2) by (force simp: h1)
    from Cons.IH [OF h1(2) this]
    have "copy_each (deepCopyValue n) h1 vs = None \<longleftrightarrow> those (map (read_val n h1) vs) = None" .
    moreover have "map (read_val n h1) vs = map (read_val n h) vs"
      using read_same [OF Cons.prems(1), of _ h1 n] Cons.prems(2) by (simp add: h1 same_on_append)
    moreover have "read_val n h v \<noteq> None" using assms [OF Cons.prems(1), of v] Cons.prems(2) Some by simp
    ultimately show ?thesis by (auto simp: Some r split: option.split)
  qed
qed simp

lemma deepCopy_None:
  "closed_heap h \<Longrightarrow> val_refs v \<subseteq> old h \<Longrightarrow> deepCopyValue n h v = None \<longleftrightarrow> read_val n h v = None"
proof (induction n arbitrary: h v)
  case (Suc n)
  have each: "copy_each (deepCopyValue n) h vs = None \<longleftrightarrow> those (map (read_val n h) vs) = None"
    if "\<forall>v \<in> set vs. val_refs v \<subseteq> old h" for vs
    using Suc.IH by (rule copy_each_None [OF _ Suc.prems(1) that])
  show ?case
  proof (cases v)
    case (HMap p)
    from each [of "map snd (map_at h p)"] closed_at(1) [OF Suc.prems(1), of _ p]
    have "copy_each (deepCopyValue n) h (map snd (map_at h p)) = None \<longleftrightarrow> those (map (read_val n h) (map snd (map_at h p))) = None"
      by blast
    then show ?thesis by (simp only: HMap deepCopyValue.simps read_val.simps hval.case option.map_disc_iff)
  next
    case (HSlice p)
    from each [of "slice_at h p"] closed_at(2) [OF Suc.prems(1), of _ p]
    have "copy_each (deepCopyValue n) h (slice_at h p) = None \<longleftrightarrow> those (map (read_val n h) (slice_at h p)) = None"
      by blast
    then show ?thesis by (simp only: HSlice deepCopyValue.simps read_val.simps hval.case option.map_disc_iff)
  qed simp_all
qed simp

subsection \<open>A snapshot is the context it was taken of\<close>























subsection \<open>Properties\<close>


text \<open>A context in a parallel scope: cell 3 is the state of its branch, cell 1 a list in a variable.\<close>

definition live_branch :: "status \<Rightarrow> branch_state" where
  "live_branch st = \<lparr>b_id = ''b1'', b_start = ''a'', b_node = ''a'', b_status = st, b_actor = None, b_done = False,
     b_arrived = '''', b_finished = 0\<rparr>"

definition live_heap :: heap where
  "live_heap = [OMap [(''items'', HSlice (Some 1)), (''amount'', HInt 5)], OSlice [HStr ''x''], OText [],
     OBranch (live_branch StatusWaiting),
     OScope \<lparr>ps_id = ''s'', ps_fork = ''f'', ps_join = ''j'', ps_mode = ''all'', ps_onfail = '''', ps_required = 1,
       ps_timeout = 0, ps_started = 0, ps_branches = [], ps_status = StatusWaiting\<rparr> (Some [(''b1'', 3)]),
     OWaitings [], OCounts [(''f'', 1)], OTimes [(''e1'', 7)]]"

definition live_ctx :: heap_ctx where
  "live_ctx = \<lparr>h_flat = \<lparr>c_process = ''p'', c_definition = ''p'', c_instance = ''i'', c_execution = '''', c_tenant = '''',
       c_node = ''f'', c_status = StatusWaiting, c_vars = [], c_meta = [], c_event = None, c_scopes = [], c_waitings = [],
       c_results = [], c_undo = [], c_visits = [], c_attempt = 0, c_started = 0, c_updated = 0, c_completed = 0,
       c_processed = []\<rparr>,
     h_vars = Some 0, h_meta = Some 2, h_scopes = [Some 4], h_waitings = Some 5, h_visits = Some 6, h_processed = Some 7\<rparr>"





text \<open>Only the containers on top are copied: a write into a list inside a variable shows in the snapshot.\<close>

lemma snapshot_shares:
  "(case Snapshot live_heap live_ctx of (h', s) \<Rightarrow> read_map 2 (h'[1 := OSlice []]) (h_vars s))
     \<noteq> read_map 2 live_heap (h_vars live_ctx)"
  by code_simp

text \<open>A map that contains itself has no copy, whatever the stack.\<close>

lemma endless_copy: "deepCopyValue n [OMap [(''self'', HMap (Some 0))]] (HMap (Some 0)) = None"
proof -
  have "read_val n [OMap [(''self'', HMap (Some 0))]] (HMap (Some 0)) = None"
    by (induction n) (simp_all add: map_at_def cell_def)
  then show ?thesis by (subst deepCopy_None) (simp_all add: closed_heap_def)
qed

text \<open>A container of another dynamic type, a list of strings say, stays shared with the host.\<close>

lemma other_shared:
  "(case deepCopyPayload 2 [OMap [(''tags'', HOther 1)], OOther ''[a]''] (Some 0) of None \<Rightarrow> False
    | Some (h', m') \<Rightarrow> read_map 2 (h'[1 := OOther ''[]'']) m' \<noteq> read_map 2 h' m')"
  by code_simp









end
