(* ===== verification/Spec2Isabelle.thy ===== *)
theory Spec2Isabelle
  imports Prelude Types Durations Process State Context Parallel Journal Effects AI Executor Temporal Branch
    Runtime Facts Trace Replay Samples Guarantees Rejections Liveness TimeAxis Graph Validator Deployment Analyzer
    Analysis Store Manager Facade Service Json Savepoint Versions Attribution Evidence Bundle Parser Parsing
    Compare Diff Simulator Expressions Postgres Copies
begin

text \<open>
  A verification of the Weiyang DSL runtime, an event-driven workflow engine in Go (\<open>src/dsl\<close>).

  The program and how its parts interact. A process is a JSON text. The parser turns it into a
  definition, a graph of nodes; the validator decides whether it may be deployed, the analyzer and
  the deprecated simulator comment on its shape, the differ compares two of them. A \<open>Runtime\<close>
  executes one instance of a definition: its entry points \<open>Start\<close>, \<open>Run\<close>, \<open>Feed\<close>, \<open>WakeDue\<close> and
  \<open>Compensate\<close> change an execution context, ask the executor what a node decides, fork and join
  branches, deliver commands to a side-effect executor and write a fact of every change to a
  journal. The log of facts is the truth: folding it gives the context back. A \<open>Manager\<close> keeps many
  instances over one journal and a store of summaries and snapshots; the registry and the activator
  say which version of a definition is in force and who answers for it; an evidence bundle exports
  a run with that account; and two runs of a definition are compared by their logs.

  Data. A Go map with string keys is an association list (\<open>dict\<close> of \<open>Prelude\<close>); the order in which
  a \<open>range\<close> visits it is a parameter (\<open>g_order\<close>, \<open>ord\<close>, \<open>pe_order\<close>) of which at most is known that it
  visits every key. A pointer that may be nil is an option, an error is a value of \<open>err\<close> (the
  message and what it prints) or of the component's own error type, and a panic or an exhausted
  bound is \<open>None\<close>. Strings are lists of bytes, times are integers of nanoseconds, durations are
  checked for the range of \<open>int64\<close> where the code does, FNV-1a is computed on 32-bit words, and a
  \<open>float64\<close> is an exact rational.

  Theories and sources.
  \<^item> \<open>Types\<close>: value types and the data contract check (\<open>types.go\<close>, \<open>contract.go\<close>). \<open>Durations\<close>:
    duration strings. \<open>Process\<close>: the structures of a definition, principals and queries on nodes
    (\<open>parser.go\<close>, \<open>principal.go\<close>, \<open>ai.go\<close>). \<open>State\<close>: the run-time records (\<open>context.go\<close>,
    \<open>parallel.go\<close>, \<open>temporal.go\<close>, \<open>sideeffect.go\<close>, \<open>compensate.go\<close>, \<open>journal.go\<close>); \<open>cfg\<close> holds what a
    runtime is built with, \<open>rts\<close> what its calls read and write.
  \<^item> \<open>Context\<close>: every operation of the execution context with the fact it records (\<open>context.go\<close>).
    \<open>Parallel\<close>: scopes, convergence, the fork and the arrival at a join (\<open>parallel.go\<close>). \<open>Journal\<close>:
    the in-memory journal, the fold, the outbox (\<open>journal.go\<close>). \<open>Effects\<close>: input and output mappings,
    delivery with retry, the undo stack (\<open>contract.go\<close>, \<open>sideeffect.go\<close>, \<open>compensate.go\<close>). \<open>AI\<close>:
    bounded agency (\<open>ai.go\<close>). \<open>Executor\<close>: the decision of one node (\<open>executor.go\<close>). \<open>Temporal\<close>:
    waiting slots (\<open>temporal.go\<close>). \<open>Branch\<close> and \<open>Runtime\<close>: the advance of a branch, the drain, the
    settlement of a scope and the entry points (\<open>runtime.go\<close>, \<open>temporal.go\<close>).
  \<^item> \<open>Parser\<close>: decoding a JSON value into the raw structures, the declared types, and \<open>ParseDSL\<close>
    (\<open>parser.go\<close>, \<open>types.go\<close>). \<open>Graph\<close>, \<open>Validator\<close>, \<open>Analyzer\<close>, \<open>Simulator\<close>, \<open>Diff\<close>: the sources of
    these names.
  \<^item> \<open>Store\<close>, \<open>Manager\<close>: \<open>store.go\<close>, \<open>manager.go\<close>. \<open>Json\<close>: JSON values and their canonical text
    (\<open>registry.go\<close>). \<open>Savepoint\<close>: \<open>MarshalJSON\<close> and \<open>UnmarshalJSON\<close> of the context and \<open>ResumeAt\<close>
    (\<open>context.go\<close>, \<open>replay.go\<close>). \<open>Versions\<close>: \<open>registry.go\<close>, \<open>activation.go\<close>. \<open>Evidence\<close>, \<open>Compare\<close>: the
    sources of these names.
  \<^item> \<open>Expressions\<close>: the expression engine with its cache of programs, and the type check with its cache
    of environments (\<open>expression.go\<close>, \<open>typechecker.go\<close>). \<open>Postgres\<close>: the PostgreSQL store, each SQL
    statement a function on its three tables (\<open>src/store-postgres/postgres.go\<close>). \<open>Copies\<close>: the deep
    copy of a payload, the clone of a scope and \<open>Snapshot\<close> on an explicit store, where the host and
    the engine share cells (\<open>context.go\<close>, \<open>journal.go\<close>); in the other theories a Go value is the
    tree it denotes.

  What the lemmas show.
  \<^item> \<open>Facts\<close>, \<open>Trace\<close>: every call of a runtime is a sequence of steps of one relation, each the
    recording of a fact with its effect on the context; invariants are proved once, on the steps.
  \<^item> \<open>Replay\<close>, \<open>Guarantees\<close>: in every session, over crashes and resumptions, the live context agrees
    with the fold of the log; the log only grows, is numbered in order, and its prefixes are
    the past (C1 to C4).
  \<^item> \<open>Rejections\<close>: duplicates, terminal instances, missing principals, unknown and unhandled events
    (C5 to C9). \<open>Liveness\<close>: \<open>Start\<close> and \<open>Feed\<close> return (C10, C11). \<open>TimeAxis\<close>: the wake-ups and what
    goes wrong with them (C12, C14; an instance that timed out and is revived, a deadline that comes
    round again).
  \<^item> \<open>Deployment\<close>, \<open>Analysis\<close>: what validation is worth, and how exact the analyses are (C17 to C21).
    \<open>Parsing\<close>: what the parser accepts and promises, and the way from a text to a run (C36 to C39).
  \<^item> \<open>Facade\<close>, \<open>Service\<close>: summaries and snapshots are indexes of the log, whatever operations the
    manager has run (C23 to C26). \<open>Savepoint\<close>: what survives a savepoint (C28) and what does not.
  \<^item> \<open>Json\<close>: the canonical text is exact (C29). \<open>Attribution\<close>: registration only adds, and the fold of
    the account is the table of activations (C30 to C32). \<open>Bundle\<close>: an export verifies, and
    tampering with a verified bundle shows in the root (C33, C34).
  \<^item> \<open>Expressions\<close>: the signature of a schema determines its environment type, so the caches are
    invisible (C16), unless a text carries a delimiter, and then one definition changes what another
    gets (C27); names on which the type check panics. \<open>Postgres\<close>: the journal table is the log of
    the accepted facts, numbered without a gap, as JSON gives them back (C13), and the tables of
    summaries and snapshots answer as the in-memory store (C22). \<open>Copies\<close>: a snapshot and a recorded
    payload keep what they denote whatever is written afterwards (C15, C35), which is why the other
    theories may take them for the identity.
  \<^item> \<open>Compare\<close>: what a comparison of runs says (C40). \<open>Diff\<close>: a difference is empty exactly when the
    two definitions agree in what a difference looks at. \<open>Simulator\<close>: the search ends, and the paths
    it reports are paths.

  Interfaces are locales: \<open>effect_executor\<close> and \<open>idempotent_executor\<close> (an executor echoes the ID of
  the command; interpreted by the in-memory executor), \<open>fact_log\<close> (a journal appends and numbers;
  by the in-memory journal), \<open>instance_store\<close> and \<open>manager_store\<close> (by the in-memory store).

  Bounds and fuel. A drain and the settlement of a scope call each other; \<open>drain\<close> takes the depth of
  that recursion as fuel. The circuit breaker allows a node a number of visits, and each nested
  drain has spent one, so \<open>enoughFuel\<close>, the limit times the number of nodes plus one, is enough for
  \<open>Start\<close> and \<open>Feed\<close>, whose results do not change with more; this is proved, not assumed. The rounds
  of \<open>WakeDue\<close> have a bound of their own and are not proved to end. The breadth-first searches, the
  cycle search, the path budget, the simulator and the decoding of types are total functions. The
  deep copy takes the depth of the stack as its bound, and returns exactly for what is no deeper.

  Parameters: the compiler, checker and virtual machine of the \<open>expr\<close> library (in the theories of the
  runtime the two evaluations of the engine, which by C16 are functions of expression and
  variables), the failing statements, clock, time precision, collation and scan order of the
  database, the side-effect executor, the journal of
  a host, the clock, the orders of ranges, the printing of a value by \<open>%v\<close> and of a string by \<open>%q\<close>,
  the byte encoding of a snapshot, JSON by reflection, the digest SHA-256, the source text of a JSON
  value and the reading of a number. The decoding of a JSON object takes keys that are written once,
  letter case aside, as given; a key that is repeated for the same structure, whose parts
  \<open>encoding/json\<close> would merge, counts with its last value.

  Not modelled: the locks and the interleaving of goroutines inside one call (the lock of an
  instance serialises its operations, which are therefore functions of the state), the texts of log
  lines and of \<open>FormatPath\<close>, \<open>DecodeEvidence\<close> (one call of the JSON decoder), a slice that shares a
  part of its array with another, and concurrent transactions on the tables of one instance (the
  package demands a single writer). Gateway, deployment and monitoring are not part of the engine.
\<close>

end
